(* ===== verification/Prelude.thy ===== *)
theory Prelude
  imports Main "HOL-Library.Word" "HOL-Library.Sublist"
begin

text \<open>
  Shared vocabulary of the development: the ways the program can fail, the sequencing of
  fallible computations, the machine integers, and a few list facts that several components use.
\<close>

named_theorems ref_eval \<open>the reference platform and the programs, unfolded to run them by simplification\<close>

section \<open>Machine integers and time\<close>

type_synonym u8 = "8 word"
type_synonym u16 = "16 word"
type_synonym u32 = "32 word"

text \<open>
  \<open>ns3::Time\<close> is a signed 64-bit count of the resolution unit, the nanosecond (the default, and
  what \<open>Time::SetResolution(Time::NS)\<close> selects in the example). A time is an \<open>int\<close>; sums and
  differences that leave the 64-bit range are undefined behaviour in C++ and are a fault here.
\<close>

type_synonym time = int

text \<open>\<open>Seconds(n)\<close> for an integral \<open>n\<close>, and the other units that the code uses.\<close>

definition Seconds :: "int \<Rightarrow> time" where
  "Seconds n = n * 1000000000"

definition MilliSeconds :: "int \<Rightarrow> time" where
  "MilliSeconds n = n * 1000000"

definition NanoSeconds :: "int \<Rightarrow> time" where
  "NanoSeconds n = n"

definition FemtoSeconds :: "int \<Rightarrow> time" where
  "FemtoSeconds n = n div 1000000"

definition in_int64 :: "int \<Rightarrow> bool" where
  "in_int64 x \<longleftrightarrow> - (2 ^ 63) \<le> x \<and> x < 2 ^ 63"

definition in_int32 :: "int \<Rightarrow> bool" where
  "in_int32 x \<longleftrightarrow> - (2 ^ 31) \<le> x \<and> x < 2 ^ 31"

section \<open>Failures\<close>

text \<open>The exceptions of the C++ library that the code can meet.\<close>

datatype exn = Invalid_argument | Out_of_range

text \<open>
  How a run of the code can end early: \<open>NS_FATAL_ERROR\<close> and \<open>NS_ABORT_MSG_IF\<close> (with the
  constant part of their message), a failed \<open>NS_ASSERT\<close>, a C++ exception nobody catches,
  undefined behaviour, and a loop that never ends.
\<close>

datatype fault =
    Fatal string
  | Abort string
  | Assert_failed
  | Uncaught exn
  | Undefined
  | Diverges

type_synonym 'a res = "fault + 'a"

definition bind_res :: "'e + 'a \<Rightarrow> ('a \<Rightarrow> 'e + 'b) \<Rightarrow> 'e + 'b" where
  "bind_res r f = (case r of Inl e \<Rightarrow> Inl e | Inr a \<Rightarrow> f a)"

lemma bind_res_simps [simp]:
  "bind_res (Inl e) f = Inl e"
  "bind_res (Inr a) f = f a"
  by (simp_all add: bind_res_def)

lemma bind_res_eq_Inr [simp]:
  "bind_res r f = Inr b \<longleftrightarrow> (\<exists>a. r = Inr a \<and> f a = Inr b)"
  by (cases r) simp_all

lemma bind_res_eq_Inl:
  "bind_res r f = Inl e \<longleftrightarrow> r = Inl e \<or> (\<exists>a. r = Inr a \<and> f a = Inl e)"
  by (cases r) simp_all

text \<open>An operation of \<open>ns3::Time\<close> whose exact result is \<open>x\<close>.\<close>

definition time_checked :: "int \<Rightarrow> time res" where
  "time_checked x = (if in_int64 x then Inr x else Inl Undefined)"

lemma time_checked_Inr [simp]: "time_checked x = Inr t \<longleftrightarrow> in_int64 x \<and> t = x"
  by (auto simp: time_checked_def)

lemma time_checked_ok [simp]: "in_int64 x \<Longrightarrow> time_checked x = Inr x"
  by (simp add: time_checked_def)

section \<open>Lists\<close>

lemma filter_takeWhile_dropWhile:
  "filter Q (takeWhile P xs) @ filter Q (dropWhile P xs) = filter Q xs"
  by (metis filter_append takeWhile_dropWhile_id)

lemma sorted_takeWhile_dropWhile_insert:
  fixes f :: "'a \<Rightarrow> int"
  assumes "sorted (map f xs)"
  shows "sorted (map f (takeWhile (\<lambda>x. f x \<le> f y) xs @ y # dropWhile (\<lambda>x. f x \<le> f y) xs))"
  using assms
proof (induction xs)
  case Nil
  then show ?case by simp
next
  case (Cons a xs)
  then show ?case
    by (cases "f a \<le> f y") (auto dest: set_takeWhileD set_dropWhileD)
qed

text \<open>The elements of a concatenation of lists of the same length.\<close>

lemma nth_concat_same_length:
  assumes "\<forall>xs \<in> set xss. length xs = k" and "i < length xss" and "c < k"
  shows "concat xss ! (k * i + c) = xss ! i ! c"
  using assms(1,2)
proof (induction xss arbitrary: i)
  case (Cons xs xss)
  show ?case
  proof (cases i)
    case 0
    with Cons.prems assms(3) show ?thesis by (simp add: nth_append)
  next
    case (Suc j)
    with Cons show ?thesis by (simp add: nth_append)
  qed
qed simp

end
