(* ===== verification/Cpp_Strings.thy ===== *)
theory Cpp_Strings
  imports Prelude
begin

text \<open>
  The part of the C++ standard library's \<open>std::string\<close> that the program uses: \<open>find\<close>,
  \<open>std::stoi\<close>, \<open>std::stol\<close> and \<open>std::to_string\<close>. A \<open>std::string\<close> is a list of
  bytes. \<open>substr(0, k)\<close> is \<open>take k\<close>; \<open>substr(k)\<close> and \<open>erase(0, k)\<close> are
  \<open>drop k\<close> for \<open>k\<close> within the string, which \<open>find_sub_length\<close> gives for every use.
\<close>

section \<open>std::string::find\<close>

text \<open>
  \<open>find_sub d s\<close> is \<open>s.find(d)\<close>: the first index at which \<open>d\<close> occurs in \<open>s\<close>,
  or \<open>None\<close> for \<open>std::string::npos\<close>. The empty string occurs at index 0.
\<close>

fun find_sub :: "'a list \<Rightarrow> 'a list \<Rightarrow> nat option" where
  "find_sub d [] = (if d = [] then Some 0 else None)"
| "find_sub d (c # s) =
     (if take (length d) (c # s) = d then Some 0 else map_option Suc (find_sub d s))"

lemma find_sub_Nil_left [simp]: "find_sub [] s = Some 0"
  by (cases s) simp_all

lemma find_sub_SomeD:
  "find_sub d s = Some k \<Longrightarrow> take (length d) (drop k s) = d"
  by (induction d s arbitrary: k rule: find_sub.induct) (auto split: if_splits)

lemma find_sub_length: "find_sub d s = Some k \<Longrightarrow> k + length d \<le> length s"
proof (induction d s arbitrary: k rule: find_sub.induct)
  case (1 d)
  then show ?case by (auto split: if_splits)
next
  case (2 d c s)
  show ?case
  proof (cases "take (length d) (c # s) = d")
    case True
    then have "length d \<le> length (c # s)"
      by (metis length_take min.absorb_iff1 min.commute nat_le_linear)
    with True "2.prems" show ?thesis by simp
  next
    case False
    with 2 show ?thesis by (auto split: if_splits)
  qed
qed

lemma find_sub_split:
  assumes "find_sub d s = Some k"
  shows "s = take k s @ d @ drop (k + length d) s"
proof -
  have "drop k s = take (length d) (drop k s) @ drop (length d) (drop k s)"
    by (rule append_take_drop_id[symmetric])
  also have "\<dots> = d @ drop (k + length d) s"
    using find_sub_SomeD[OF assms] by (simp add: add.commute)
  finally show ?thesis
    by (metis append_take_drop_id)
qed

lemma find_sub_minimal:
  "find_sub d s = Some k \<Longrightarrow> j < k \<Longrightarrow> take (length d) (drop j s) \<noteq> d"
proof (induction d s arbitrary: k j rule: find_sub.induct)
  case (1 d)
  then show ?case by (auto split: if_splits)
next
  case (2 d c s)
  then show ?case
    by (cases j) (auto split: if_splits)
qed

lemma find_sub_None_iff: "find_sub d s = None \<longleftrightarrow> (\<forall>j. take (length d) (drop j s) \<noteq> d)"
proof (induction d s rule: find_sub.induct)
  case (1 d)
  then show ?case by auto
next
  case (2 d c s)
  have "(\<forall>j. take (length d) (drop j (c # s)) \<noteq> d) \<longleftrightarrow>
    take (length d) (c # s) \<noteq> d \<and> (\<forall>j. take (length d) (drop j s) \<noteq> d)"
    by (metis drop0 drop_Suc_Cons not0_implies_Suc)
  with 2 show ?case by auto
qed

lemma find_sub_None_iff_sublist: "find_sub d s = None \<longleftrightarrow> \<not> sublist d s"
proof -
  have "sublist d s \<longleftrightarrow> (\<exists>j. take (length d) (drop j s) = d)"
  proof
    assume "sublist d s"
    then obtain p q where "s = p @ d @ q" by (auto simp: sublist_def)
    then have "take (length d) (drop (length p) s) = d" by simp
    then show "\<exists>j. take (length d) (drop j s) = d" ..
  next
    assume "\<exists>j. take (length d) (drop j s) = d"
    then show "sublist d s"
      by (metis append_take_drop_id sublist_def)
  qed
  then show ?thesis by (simp add: find_sub_None_iff)
qed

lemma find_sub_eq_SomeI:
  assumes "take (length d) (drop k s) = d" and "k \<le> length s"
    and "\<And>j. j < k \<Longrightarrow> take (length d) (drop j s) \<noteq> d"
  shows "find_sub d s = Some k"
proof (cases "find_sub d s")
  case None
  with assms(1) show ?thesis by (simp add: find_sub_None_iff)
next
  case (Some i)
  with assms find_sub_SomeD[OF Some] find_sub_minimal[OF Some] show ?thesis
    by (metis linorder_neqE_nat)
qed

text \<open>Appending more data does not move the first occurrence.\<close>

lemma find_sub_append:
  assumes "find_sub d s = Some k"
  shows "find_sub d (s @ t) = Some k"
proof (rule find_sub_eq_SomeI)
  note len = find_sub_length[OF assms]
  show "k \<le> length (s @ t)" using len by simp
  show "take (length d) (drop k (s @ t)) = d"
    using find_sub_SomeD[OF assms] len by simp
  fix j
  assume "j < k"
  with find_sub_minimal[OF assms] len show "take (length d) (drop j (s @ t)) \<noteq> d"
    by simp
qed

lemma find_sub_None_prefix: "find_sub d (s @ t) = None \<Longrightarrow> find_sub d s = None"
  using find_sub_append[of d s] by (cases "find_sub d s") auto

section \<open>Delimiters without a border\<close>

text \<open>
  A delimiter has a border when a proper non-empty prefix of it is also a suffix of it, as in
  \<open>;;\<close>. Without a border, an occurrence of the delimiter cannot overlap the next one.
\<close>

definition unbordered :: "'a list \<Rightarrow> bool" where
  "unbordered d \<longleftrightarrow> (\<forall>k \<in> {1..<length d}. take k d \<noteq> drop (length d - k) d)"

lemma find_sub_at_delimiter:
  assumes free: "find_sub d v = None" and ub: "unbordered d"
  shows "find_sub d (v @ d @ r) = Some (length v)"
proof (rule find_sub_eq_SomeI)
  show "take (length d) (drop (length v) (v @ d @ r)) = d" by simp
  show "length v \<le> length (v @ d @ r)" by simp
  fix j
  assume j: "j < length v"
  show "take (length d) (drop j (v @ d @ r)) \<noteq> d"
  proof
    assume occ: "take (length d) (drop j (v @ d @ r)) = d"
    show False
    proof (cases "j + length d \<le> length v")
      case True
      then have "take (length d) (drop j v) = d"
        using occ j by simp
      with free show False by (simp add: find_sub_None_iff)
    next
      case False
      define k where "k = j + length d - length v"
      have k: "0 < k" "k < length d" and kd: "length d - k = length v - j"
        using False j by (auto simp: k_def)
      have "d = drop j v @ take k d"
        using occ False j by (simp add: k_def diff_diff_eq2 add.commute)
      then have "drop (length d - k) d = take k d"
        using j by (metis append_eq_conv_conj kd length_drop)
      moreover have "take k d \<noteq> drop (length d - k) d"
        using ub k unfolding unbordered_def by fastforce
      ultimately show False by simp
    qed
  qed
qed

section \<open>Decimal numerals\<close>

definition is_digit :: "char \<Rightarrow> bool" where
  "is_digit c \<longleftrightarrow> 48 \<le> (of_char c :: nat) \<and> (of_char c :: nat) \<le> 57"

definition digit_value :: "char \<Rightarrow> int" where
  "digit_value c = of_char c - 48"

definition digit_char :: "nat \<Rightarrow> char" where
  "digit_char n = char_of (48 + n)"

text \<open>\<open>isspace\<close> in the C locale.\<close>

definition is_space :: "char \<Rightarrow> bool" where
  "is_space c \<longleftrightarrow> (of_char c :: nat) = 32 \<or> (9 \<le> (of_char c :: nat) \<and> (of_char c :: nat) \<le> 13)"

definition digits_value :: "string \<Rightarrow> int" where
  "digits_value ds = foldl (\<lambda>acc c. acc * 10 + digit_value c) 0 ds"

text \<open>
  \<open>strtol\<close> in base 10: leading white space is skipped, a sign is optional, the longest run of
  digits is read and anything after it is ignored. No digit is \<open>None\<close>.
\<close>

definition strtol_digits :: "string \<Rightarrow> int option" where
  "strtol_digits s =
     (let ds = takeWhile is_digit s in if ds = [] then None else Some (digits_value ds))"

definition strtol :: "string \<Rightarrow> int option" where
  "strtol s =
     (case dropWhile is_space s of
        [] \<Rightarrow> None
      | c # r \<Rightarrow>
          (if c = CHR ''-'' then map_option uminus (strtol_digits r)
           else if c = CHR ''+'' then strtol_digits r
           else strtol_digits (c # r)))"

text \<open>
  \<open>std::stoi\<close> (to a 32-bit \<open>int\<close>) and \<open>std::stol\<close> (to a 64-bit \<open>long\<close>).
\<close>

definition stoi :: "string \<Rightarrow> exn + int" where
  "stoi s =
     (case strtol s of
        None \<Rightarrow> Inl Invalid_argument
      | Some n \<Rightarrow> if in_int32 n then Inr n else Inl Out_of_range)"

definition stol :: "string \<Rightarrow> exn + int" where
  "stol s =
     (case strtol s of
        None \<Rightarrow> Inl Invalid_argument
      | Some n \<Rightarrow> if in_int64 n then Inr n else Inl Out_of_range)"

text \<open>\<open>std::to_string\<close> of an unsigned integer, and of a signed one.\<close>

fun to_string :: "nat \<Rightarrow> string" where
  "to_string n = (if n < 10 then [digit_char n] else to_string (n div 10) @ [digit_char (n mod 10)])"

declare to_string.simps [simp del]

definition to_string_int :: "int \<Rightarrow> string" where
  "to_string_int z = (if z < 0 then CHR ''-'' # to_string (nat (- z)) else to_string (nat z))"

lemma of_digit_char: "n < 10 \<Longrightarrow> (of_char (digit_char n) :: nat) = 48 + n"
  by (simp add: digit_char_def)

lemma of_digit_char_int: "n < 10 \<Longrightarrow> (of_char (digit_char n) :: int) = 48 + int n"
  using of_digit_char[of n] by (metis of_nat_add of_nat_numeral of_nat_of_char)

lemma digit_value_digit_char [simp]: "n < 10 \<Longrightarrow> digit_value (digit_char n) = int n"
  by (simp add: digit_value_def of_digit_char_int)

lemma is_digit_digit_char [simp]: "n < 10 \<Longrightarrow> is_digit (digit_char n)"
  by (simp add: is_digit_def of_digit_char)

lemma is_digit_not_space: "is_digit c \<Longrightarrow> \<not> is_space c"
  by (auto simp: is_digit_def is_space_def)

lemma is_digit_no_sign: "is_digit c \<Longrightarrow> c \<noteq> CHR ''-'' \<and> c \<noteq> CHR ''+''"
  by (auto simp: is_digit_def)

lemma to_string_digits: "\<forall>c \<in> set (to_string n). is_digit c"
proof (induction n rule: to_string.induct)
  case (1 n)
  show ?case
  proof (cases "n < 10")
    case True
    then show ?thesis by (subst to_string.simps) simp
  next
    case False
    with 1 show ?thesis by (subst to_string.simps) auto
  qed
qed

lemma to_string_not_Nil [simp]: "to_string n \<noteq> []"
  by (subst to_string.simps) simp

lemma digits_value_to_string: "digits_value (to_string n) = int n"
proof (induction n rule: to_string.induct)
  case (1 n)
  show ?case
  proof (cases "n < 10")
    case True
    then show ?thesis by (subst to_string.simps) (simp add: digits_value_def)
  next
    case False
    with 1 have "digits_value (to_string (n div 10)) = int (n div 10)" by simp
    with False show ?thesis
      by (subst to_string.simps) (simp add: digits_value_def, presburger)
  qed
qed

lemma strtol_to_string [simp]: "strtol (to_string n) = Some (int n)"
proof -
  obtain c r where cr: "to_string n = c # r"
    using to_string_not_Nil[of n] by (cases "to_string n") blast+
  have c: "is_digit c" and r: "takeWhile is_digit r = r"
    using to_string_digits[of n] cr by (auto simp: takeWhile_eq_all_conv)
  then show ?thesis
    using is_digit_no_sign[OF c] is_digit_not_space[OF c] digits_value_to_string[of n] cr
    by (simp add: strtol_def strtol_digits_def r)
qed

lemma strtol_to_string_int [simp]: "strtol (to_string_int z) = Some z"
proof (cases "z < 0")
  case True
  have r: "takeWhile is_digit (to_string (nat (- z))) = to_string (nat (- z))"
    using to_string_digits by (simp add: takeWhile_eq_all_conv)
  from True show ?thesis
    using digits_value_to_string[of "nat (- z)"]
    by (simp add: to_string_int_def strtol_def strtol_digits_def is_space_def Let_def r)
next
  case False
  then show ?thesis by (simp add: to_string_int_def)
qed

lemma stoi_to_string: "stoi (to_string n) = (if int n < 2 ^ 31 then Inr (int n) else Inl Out_of_range)"
  by (simp add: stoi_def in_int32_def)

lemma stoi_to_string_int: "in_int32 z \<Longrightarrow> stoi (to_string_int z) = Inr z"
  by (simp add: stoi_def)

lemma stol_to_string_int: "in_int64 z \<Longrightarrow> stol (to_string_int z) = Inr z"
  by (simp add: stol_def)

lemma stoi_range: "stoi s = Inr n \<Longrightarrow> in_int32 n"
  by (auto simp: stoi_def split: option.splits if_splits)

lemma stol_range: "stol s = Inr n \<Longrightarrow> in_int64 n"
  by (auto simp: stol_def split: option.splits if_splits)

text \<open>A numeral contains no byte that is not a digit or a minus sign.\<close>

lemma find_sub_None_if_char:
  assumes "c \<in> set d" and "c \<notin> set s"
  shows "find_sub d s = None"
proof -
  have "take (length d) (drop j s) \<noteq> d" for j
  proof
    assume "take (length d) (drop j s) = d"
    then have "set d \<subseteq> set s"
      by (metis set_drop_subset set_take_subset subset_trans)
    with assms show False by blast
  qed
  then show ?thesis by (simp add: find_sub_None_iff)
qed

lemma to_string_no_delimiter:
  assumes "c \<in> set d" and "\<not> is_digit c"
  shows "find_sub d (to_string n) = None"
  using find_sub_None_if_char[OF assms(1)] assms(2) to_string_digits by blast

end
