(* ===== verification/Wire_Protocol.thy ===== *)
theory Wire_Protocol
  imports Cpp_Strings
begin

text \<open>
  The text protocol between the gateway and its server: the loop of \<open>Gateway::ForwardUp\<close> that
  splits a message into fields, the loop of \<open>Gateway::SendResponse\<close> that builds a message, and
  the framing of a byte stream into messages, with the round trip between them.
\<close>

section \<open>Splitting a message into fields\<close>

text \<open>
  The \<open>while\<close> loop of \<open>ForwardUp\<close>: it does not end when the delimiter is empty, so it is a
  partial function; \<open>None\<close> means that it never returns.
\<close>

partial_function (option) split_loop ::
    "string \<Rightarrow> string \<Rightarrow> string list \<Rightarrow> string list option" where
  "split_loop D message values =
     (case find_sub D message of
        Some index \<Rightarrow>
          split_loop D (drop (index + length D) message) (values @ [take index message])
      | None \<Rightarrow> Some (values @ [message]))"

definition split_fields :: "string \<Rightarrow> string \<Rightarrow> string list option" where
  "split_fields D message = split_loop D message []"

section \<open>Building a response\<close>

text \<open>
  The \<open>for\<close> loop of \<open>SendResponse\<close>: \<open>i\<close> is the loop counter, the list holds the elements
  of \<open>m_data\<close> from index \<open>i\<close> on, and the last argument is \<open>message\<close>.
\<close>

fun response_loop :: "string \<Rightarrow> nat \<Rightarrow> string list \<Rightarrow> string \<Rightarrow> string" where
  "response_loop D i [] message = message"
| "response_loop D i (v # vs) message =
     response_loop D (Suc i) vs ((if i \<noteq> 0 then message @ D else message) @ v)"

definition response_message :: "string \<Rightarrow> string \<Rightarrow> string list \<Rightarrow> string" where
  "response_message D M data = response_loop D 0 data [] @ M"

text \<open>Specification: the values with the delimiter between neighbours.\<close>

fun join :: "string \<Rightarrow> string list \<Rightarrow> string" where
  "join D [] = []"
| "join D [v] = v"
| "join D (v # w # vs) = v @ D @ join D (w # vs)"

lemma join_Cons: "vs \<noteq> [] \<Longrightarrow> join D (v # vs) = v @ D @ join D vs"
  by (cases vs) simp_all

lemma response_loop_later:
  "response_loop D (Suc i) vs message = message @ concat (map (\<lambda>v. D @ v) vs)"
  by (induction vs arbitrary: i message) simp_all

lemma join_concat: "join D (v # vs) = v @ concat (map (\<lambda>v. D @ v) vs)"
  by (induction vs arbitrary: v) (simp_all add: join_Cons)

lemma response_loop_join: "response_loop D 0 vs [] = join D vs"
  by (cases vs) (simp_all add: response_loop_later join_concat)

lemma response_message_eq: "response_message D M data = join D data @ M"
  by (simp add: response_message_def response_loop_join)

section \<open>Framing a stream\<close>

text \<open>
  Specification of the message stream: \<open>framed M ms r s\<close> says that the bytes \<open>s\<close> are the
  messages \<open>ms\<close>, each ended by its first occurrence of the delimiter, and a rest with no
  complete message.
\<close>

definition framed :: "string \<Rightarrow> string list \<Rightarrow> string \<Rightarrow> string \<Rightarrow> bool" where
  "framed M ms r s \<longleftrightarrow>
     s = concat (map (\<lambda>m. m @ M) ms) @ r \<and>
     (\<forall>m \<in> set ms. find_sub M (m @ M) = Some (length m)) \<and>
     find_sub M r = None"

text \<open>The messages and the rest, computed.\<close>

function frames :: "string \<Rightarrow> string \<Rightarrow> string list \<times> string" where
  "frames M s =
     (if M = [] then ([], s)
      else case find_sub M s of
        None \<Rightarrow> ([], s)
      | Some k \<Rightarrow>
          (let (ms, r) = frames M (drop (k + length M) s) in (take k s # ms, r)))"
  by pat_completeness auto
termination
proof (relation "measure (\<lambda>(M, s). length s)", goal_cases)
  case (2 M s k)
  then show ?case
    using find_sub_length[of M s k] by (cases M) auto
qed simp

declare frames.simps [simp del]

lemma frames_None: "M \<noteq> [] \<Longrightarrow> find_sub M s = None \<Longrightarrow> frames M s = ([], s)"
  by (subst frames.simps) simp

lemma frames_Some:
  "M \<noteq> [] \<Longrightarrow> find_sub M s = Some k \<Longrightarrow>
   frames M s = (take k s # fst (frames M (drop (k + length M) s)),
                 snd (frames M (drop (k + length M) s)))"
  by (subst frames.simps) (simp add: split_beta)

lemma find_sub_take_delimiter:
  assumes "find_sub M s = Some k"
  shows "find_sub M (take k s @ M) = Some k"
proof (rule find_sub_eq_SomeI)
  note len = find_sub_length[OF assms]
  show "k \<le> length (take k s @ M)" using len by simp
  show "take (length M) (drop k (take k s @ M)) = M" using len by simp
  fix j
  assume j: "j < k"
  have "take (length M) (drop j (take k s @ M)) = take (length M) (drop j s)"
  proof -
    have "take k s @ M = take (k + length M) s"
      using find_sub_SomeD[OF assms] by (simp add: take_add)
    then have "drop j (take k s @ M) = take (k + length M - j) (drop j s)"
      by (simp add: drop_take)
    with j show ?thesis by simp
  qed
  with find_sub_minimal[OF assms j] show "take (length M) (drop j (take k s @ M)) \<noteq> M"
    by simp
qed

lemma framed_frames:
  assumes "M \<noteq> []"
  shows "framed M (fst (frames M s)) (snd (frames M s)) s"
  using assms
proof (induction M s rule: frames.induct)
  case (1 M s)
  show ?case
  proof (cases "find_sub M s")
    case None
    with "1.prems" show ?thesis by (simp add: frames_None framed_def)
  next
    case (Some k)
    let ?t = "drop (k + length M) s"
    from 1 Some have "framed M (fst (frames M ?t)) (snd (frames M ?t)) ?t"
      by (cases "frames M ?t") auto
    moreover have "s = take k s @ M @ ?t"
      by (rule find_sub_split[OF Some])
    moreover have "find_sub M (take k s @ M) = Some (length (take k s))"
      using find_sub_take_delimiter[OF Some] find_sub_length[OF Some] by simp
    ultimately show ?thesis
      using "1.prems" Some by (simp add: frames_Some framed_def)
  qed
qed

lemma frames_message:
  assumes "M \<noteq> []" and "find_sub M (m @ M) = Some (length m)"
  shows "frames M (m @ M @ s) = (m # fst (frames M s), snd (frames M s))"
proof -
  have "find_sub M (m @ M @ s) = Some (length m)"
    using find_sub_append[OF assms(2), of s] by simp
  with assms(1) show ?thesis by (simp add: frames_Some)
qed

lemma frames_messages:
  assumes "M \<noteq> []" and "\<forall>m \<in> set ms. find_sub M (m @ M) = Some (length m)"
  shows "frames M (concat (map (\<lambda>m. m @ M) ms) @ r) = (ms @ fst (frames M r), snd (frames M r))"
  using assms(2) by (induction ms) (simp_all add: frames_message[OF assms(1)])

text \<open>The decomposition is unique.\<close>

lemma framed_iff_frames:
  assumes "M \<noteq> []"
  shows "framed M ms r s \<longleftrightarrow> frames M s = (ms, r)"
proof
  assume "framed M ms r s"
  then show "frames M s = (ms, r)"
    using assms by (simp add: framed_def frames_messages frames_None)
next
  assume "frames M s = (ms, r)"
  then show "framed M ms r s"
    using framed_frames[OF assms, of s] by simp
qed

text \<open>Framing a stream in two parts: the rest of the first part is carried over.\<close>

lemma frames_append:
  assumes "M \<noteq> []"
  shows "frames M (s @ t) =
    (fst (frames M s) @ fst (frames M (snd (frames M s) @ t)),
     snd (frames M (snd (frames M s) @ t)))"
proof -
  obtain ms r where f: "frames M s = (ms, r)" by fastforce
  then have "framed M ms r s" by (simp add: framed_iff_frames[OF assms])
  then have s: "s @ t = concat (map (\<lambda>m. m @ M) ms) @ (r @ t)"
    and ms: "\<forall>m \<in> set ms. find_sub M (m @ M) = Some (length m)"
    by (simp_all add: framed_def)
  show ?thesis
    unfolding s frames_messages[OF assms ms] by (simp add: f)
qed

section \<open>The split loop returns, and what it returns\<close>

lemma split_loop_frames:
  assumes "D \<noteq> []"
  shows "split_loop D s vs = Some (vs @ fst (frames D s) @ [snd (frames D s)])"
  using assms
proof (induction D s arbitrary: vs rule: frames.induct)
  case (1 D s)
  show ?case
  proof (cases "find_sub D s")
    case None
    with "1.prems" show ?thesis
      by (subst split_loop.simps) (simp add: frames_None)
  next
    case (Some k)
    with 1 show ?thesis
      by (subst split_loop.simps) (simp add: frames_Some)
  qed
qed

lemma split_fields_frames:
  "D \<noteq> [] \<Longrightarrow> split_fields D s = Some (fst (frames D s) @ [snd (frames D s)])"
  by (simp add: split_fields_def split_loop_frames)

lemma split_fields_not_Nil: "split_fields D s = Some vs \<Longrightarrow> D \<noteq> [] \<Longrightarrow> vs \<noteq> []"
  by (auto simp: split_fields_frames)

text \<open>Putting the delimiter back between the fields gives the message.\<close>

lemma join_snoc: "join D (ms @ [r]) = concat (map (\<lambda>m. m @ D) ms) @ r"
  by (induction ms) (simp_all add: join_Cons)

lemma join_split_fields: "D \<noteq> [] \<Longrightarrow> split_fields D s = Some vs \<Longrightarrow> join D vs = s"
  using framed_frames[of D s]
  by (auto simp: split_fields_frames join_snoc framed_def)

lemma split_fields_free:
  assumes "D \<noteq> []" and "split_fields D s = Some vs" and "v \<in> set vs"
  shows "find_sub D v = None"
proof -
  have "framed D (fst (frames D s)) (snd (frames D s)) s"
    by (rule framed_frames[OF assms(1)])
  moreover have "find_sub D m = None" if "find_sub D (m @ D) = Some (length m)" for m
  proof (cases "find_sub D m")
    case (Some k)
    then have "find_sub D (m @ D) = Some k" by (rule find_sub_append)
    with that have "k = length m" by simp
    with find_sub_length[OF Some] assms(1) show ?thesis by simp
  qed simp
  ultimately show ?thesis
    using assms(2,3) by (auto simp: split_fields_frames[OF assms(1)] framed_def)
qed

lemma split_fields_join:
  assumes "D \<noteq> []" and "unbordered D" and "vs \<noteq> []" and "\<forall>v \<in> set vs. find_sub D v = None"
  shows "split_fields D (join D vs) = Some vs"
proof -
  obtain ms r where vs: "vs = ms @ [r]"
    using assms(3) by (metis rev_exhaust)
  have "\<forall>m \<in> set ms. find_sub D (m @ D) = Some (length m)"
    using find_sub_at_delimiter[OF _ assms(2), of _ "[]"] assms(4) vs by simp
  then show ?thesis
    using assms(1,4) vs
    by (simp add: split_fields_frames join_snoc frames_messages frames_None)
qed

section \<open>A response contains one message\<close>

lemma find_sub_None_around:
  assumes v: "find_sub M v = None" and t: "find_sub M t = None"
    and D: "D \<noteq> []" and disj: "set D \<inter> set M = {}"
  shows "find_sub M (v @ D @ t) = None"
proof -
  have "M \<noteq> []" using v by auto
  have "take (length M) (drop j (v @ D @ t)) \<noteq> M" for j
  proof
    assume occ: "take (length M) (drop j (v @ D @ t)) = M"
    consider (left) "j + length M \<le> length v" | (right) "length v + length D \<le> j"
      | (mid) "length v < j + length M" "j < length v + length D"
      by linarith
    then show False
    proof cases
      case left
      with occ have "take (length M) (drop j v) = M" by simp
      with v show False by (simp add: find_sub_None_iff)
    next
      case right
      with occ have "take (length M) (drop (j - length v - length D) t) = M" by simp
      with t show False by (simp add: find_sub_None_iff)
    next
      case mid
      define i where "i = max j (length v)"
      have i: "j \<le> i" "i < j + length M" "length v \<le> i" "i < length v + length D"
        using mid \<open>M \<noteq> []\<close> D by (auto simp: i_def)
      have "M ! (i - j) = (take (length M) (drop j (v @ D @ t))) ! (i - j)"
        using occ by simp
      also have "\<dots> = drop j (v @ D @ t) ! (i - j)"
        using i by (simp only: nth_take)
      also have "\<dots> = (v @ D @ t) ! i"
        using i by (subst nth_drop) simp_all
      also have "\<dots> = D ! (i - length v)"
      proof -
        have "i - length v < length D" using i by arith
        with i show ?thesis by (simp add: nth_append)
      qed
      finally have "M ! (i - j) = D ! (i - length v)" .
      moreover have "M ! (i - j) \<in> set M" using i by simp
      moreover have "D ! (i - length v) \<in> set D" using i by simp
      ultimately show False using disj by auto
    qed
  qed
  then show ?thesis by (simp add: find_sub_None_iff)
qed

lemma find_sub_join_None:
  assumes "M \<noteq> []" and "D \<noteq> []" and "set D \<inter> set M = {}" and "\<forall>v \<in> set vs. find_sub M v = None"
  shows "find_sub M (join D vs) = None"
  using assms(4)
proof (induction vs)
  case Nil
  then show ?case using assms(1) by simp
next
  case (Cons v vs)
  then show ?case
    by (cases "vs = []") (simp_all add: join_Cons find_sub_None_around[OF _ _ assms(2,3)])
qed

lemma response_framed:
  assumes "M \<noteq> []" and "D \<noteq> []" and "set D \<inter> set M = {}" and "unbordered M"
    and "\<forall>v \<in> set vs. find_sub M v = None"
  shows "find_sub M (response_message D M vs) = Some (length (join D vs))"
  using find_sub_at_delimiter[OF find_sub_join_None[OF assms(1,2,3,5)] assms(4), of "[]"]
  by (simp add: response_message_eq)

end
