(* ===== verification/Simulator.thy ===== *)
theory Simulator
  imports Prelude
begin

text \<open>
  The interface to the ns-3 simulator core, which is not part of the repository: its functions
  are the fields of a record that every definition using the simulator takes as an argument, and
  what the code relies on is the contract of the locale \<open>event_simulator\<close>. The contract says
  that the simulator behaves like a calendar of pending events: an event is executed at its
  time stamp, events with the same time stamp in the order in which they were scheduled, a
  cancelled event is never executed, and the identifier of an expired event is not used again.
\<close>

section \<open>What the program schedules\<close>

text \<open>
  The member functions that the program passes to the simulator. The number of an application
  event says which application \<open>this\<close> is. \<open>UserEvent\<close> stands for every event that the rest
  of the simulation (network devices, packet sinks, the user's own functions) schedules.
\<close>

datatype 'x callback =
    GatewayStop
  | GatewayForwardUp
  | GatewayWaitForNextUpdate
  | GatewayHandleUpdate "string list"
  | GatewayDoInitialize "string list"
  | AppProcessSendRequest nat u32
  | AppSendPacket nat
  | UserEvent 'x

text \<open>The private member functions of the gateway: only the gateway itself can schedule them.\<close>

fun gateway_callback :: "'x callback \<Rightarrow> bool" where
  "gateway_callback GatewayStop = True"
| "gateway_callback GatewayForwardUp = True"
| "gateway_callback GatewayWaitForNextUpdate = True"
| "gateway_callback (GatewayHandleUpdate _) = True"
| "gateway_callback (GatewayDoInitialize _) = True"
| "gateway_callback _ = False"

section \<open>The functions of the simulator\<close>

type_synonym event_id = nat

text \<open>A default-constructed \<open>EventId\<close> is \<open>None\<close>; it is never pending.\<close>

record ('c, 'w) sim_ops =
  sim_now :: "'w \<Rightarrow> time"
  sim_context :: "'w \<Rightarrow> u32"
  sim_schedule :: "time \<Rightarrow> 'c \<Rightarrow> 'w \<Rightarrow> event_id \<times> 'w"
  sim_schedule_now :: "'c \<Rightarrow> 'w \<Rightarrow> event_id \<times> 'w"
  sim_schedule_with_context :: "u32 \<Rightarrow> time \<Rightarrow> 'c \<Rightarrow> 'w \<Rightarrow> 'w"
  sim_schedule_destroy :: "'c \<Rightarrow> 'w \<Rightarrow> event_id \<times> 'w"
  sim_cancel :: "event_id \<Rightarrow> 'w \<Rightarrow> 'w"
  sim_pending :: "event_id \<Rightarrow> 'w \<Rightarrow> bool"
  sim_stop :: "'w \<Rightarrow> 'w"
  sim_next :: "'w \<Rightarrow> ('c \<times> 'w) option"
  sim_next_destroy :: "'w \<Rightarrow> ('c \<times> 'w) option"

text \<open>
  \<open>sim_next\<close> is one turn of \<open>Simulator::Run\<close>: it removes the event to execute and moves the
  clock to it. \<open>sim_next_destroy\<close> is the same for \<open>Simulator::Destroy\<close>.
\<close>

text \<open>\<open>EventId::IsPending\<close> and \<open>EventId::Cancel\<close> on an identifier that may be default-constructed.\<close>

definition is_pending :: "('c, 'w) sim_ops \<Rightarrow> event_id option \<Rightarrow> 'w \<Rightarrow> bool" where
  "is_pending S i w = (case i of None \<Rightarrow> False | Some e \<Rightarrow> sim_pending S e w)"

definition cancel_event :: "('c, 'w) sim_ops \<Rightarrow> event_id option \<Rightarrow> 'w \<Rightarrow> 'w" where
  "cancel_event S i w = (case i of None \<Rightarrow> w | Some e \<Rightarrow> sim_cancel S e w)"

section \<open>The calendar\<close>

type_synonym 'c event = "event_id \<times> time \<times> 'c"

abbreviation ev_id :: "'c event \<Rightarrow> event_id" where "ev_id v \<equiv> fst v"
abbreviation ev_time :: "'c event \<Rightarrow> time" where "ev_time v \<equiv> fst (snd v)"
abbreviation ev_call :: "'c event \<Rightarrow> 'c" where "ev_call v \<equiv> snd (snd v)"

record 'c calendar =
  cal_now :: time
  cal_events :: "'c event list"
  cal_destroy :: "(event_id \<times> 'c) list"
  cal_used :: "event_id set"
  cal_stopped :: bool

text \<open>A new event goes behind every event whose time stamp is not later.\<close>

definition place :: "'c event \<Rightarrow> 'c event list \<Rightarrow> 'c event list" where
  "place v vs = takeWhile (\<lambda>x. ev_time x \<le> ev_time v) vs @ v # dropWhile (\<lambda>x. ev_time x \<le> ev_time v) vs"

definition cal_schedule :: "event_id \<Rightarrow> time \<Rightarrow> 'c \<Rightarrow> 'c calendar \<Rightarrow> 'c calendar" where
  "cal_schedule e d c k =
     k\<lparr>cal_events := place (e, cal_now k + d, c) (cal_events k), cal_used := insert e (cal_used k)\<rparr>"

definition cal_schedule_destroy :: "event_id \<Rightarrow> 'c \<Rightarrow> 'c calendar \<Rightarrow> 'c calendar" where
  "cal_schedule_destroy e c k =
     k\<lparr>cal_destroy := cal_destroy k @ [(e, c)], cal_used := insert e (cal_used k)\<rparr>"

definition cal_cancel :: "event_id \<Rightarrow> 'c calendar \<Rightarrow> 'c calendar" where
  "cal_cancel e k =
     k\<lparr>cal_events := filter (\<lambda>v. ev_id v \<noteq> e) (cal_events k),
       cal_destroy := filter (\<lambda>v. fst v \<noteq> e) (cal_destroy k)\<rparr>"

definition cal_pending :: "event_id \<Rightarrow> 'c calendar \<Rightarrow> bool" where
  "cal_pending e k \<longleftrightarrow> e \<in> ev_id ` set (cal_events k) \<or> e \<in> fst ` set (cal_destroy k)"

definition cal_next :: "'c calendar \<Rightarrow> ('c \<times> 'c calendar) option" where
  "cal_next k =
     (if cal_stopped k then None
      else case cal_events k of
        [] \<Rightarrow> None
      | v # vs \<Rightarrow> Some (ev_call v, k\<lparr>cal_now := ev_time v, cal_events := vs\<rparr>))"

definition cal_next_destroy :: "'c calendar \<Rightarrow> ('c \<times> 'c calendar) option" where
  "cal_next_destroy k =
     (case cal_destroy k of [] \<Rightarrow> None | v # vs \<Rightarrow> Some (snd v, k\<lparr>cal_destroy := vs\<rparr>))"

definition cal_ids :: "'c calendar \<Rightarrow> event_id list" where
  "cal_ids k = map ev_id (cal_events k) @ map fst (cal_destroy k)"

definition cal_ok :: "'c calendar \<Rightarrow> bool" where
  "cal_ok k \<longleftrightarrow>
     sorted (map ev_time (cal_events k)) \<and>
     (\<forall>v \<in> set (cal_events k). cal_now k \<le> ev_time v) \<and>
     distinct (cal_ids k) \<and>
     set (cal_ids k) \<subseteq> cal_used k"

lemma set_place [simp]: "set (place v vs) = insert v (set vs)"
proof -
  have "set (takeWhile P vs) \<union> set (dropWhile P vs) = set vs" for P :: "'a event \<Rightarrow> bool"
    by (metis set_append takeWhile_dropWhile_id)
  then show ?thesis by (simp add: place_def)
qed

lemma sorted_place: "sorted (map ev_time vs) \<Longrightarrow> sorted (map ev_time (place v vs))"
  unfolding place_def by (rule sorted_takeWhile_dropWhile_insert)

lemma distinct_map_place:
  "distinct (map f (place v vs)) \<longleftrightarrow> f v \<notin> f ` set vs \<and> distinct (map f vs)"
proof -
  let ?P = "\<lambda>x. ev_time x \<le> ev_time v"
  have "distinct (map f (place v vs)) \<longleftrightarrow>
    distinct (f v # map f (takeWhile ?P vs) @ map f (dropWhile ?P vs))"
    by (auto simp: place_def)
  also have "map f (takeWhile ?P vs) @ map f (dropWhile ?P vs) = map f vs"
    by (metis map_append takeWhile_dropWhile_id)
  finally show ?thesis by simp
qed

lemma length_filter_place:
  "length (filter Q (place v vs)) = length (filter Q vs) + (if Q v then 1 else 0)"
proof -
  let ?P = "\<lambda>x. ev_time x \<le> ev_time v"
  have "length (filter Q (takeWhile ?P vs)) + length (filter Q (dropWhile ?P vs)) = length (filter Q vs)"
    by (metis filter_takeWhile_dropWhile length_append)
  then show ?thesis by (simp add: place_def)
qed

lemma filter_place_other: "\<not> Q v \<Longrightarrow> filter Q (place v vs) = filter Q vs"
  by (simp add: place_def filter_takeWhile_dropWhile)

lemma filter_place_only: "Q v \<Longrightarrow> filter Q vs = [] \<Longrightarrow> filter Q (place v vs) = [v]"
proof -
  assume Q: "Q v" "filter Q vs = []"
  let ?P = "\<lambda>x. ev_time x \<le> ev_time v"
  have "filter Q (takeWhile ?P vs) @ filter Q (dropWhile ?P vs) = []"
    using Q(2) by (simp only: filter_takeWhile_dropWhile)
  with Q(1) show ?thesis by (simp add: place_def)
qed

lemma filter_place:
  assumes "sorted (map ev_time vs)" and "Q v"
  shows "filter Q (place v vs) = place v (filter Q vs)"
proof -
  let ?P = "\<lambda>x. ev_time x \<le> ev_time v"
  have late: "sorted (map ev_time (x # xs)) \<Longrightarrow> \<not> ?P x \<Longrightarrow> takeWhile ?P (filter Q xs) = [] \<and>
      dropWhile ?P (filter Q xs) = filter Q xs" for x and xs :: "'a event list"
    by (cases "filter Q xs") (auto simp: filter_eq_Cons_iff)
  from assms(1) have "filter Q (takeWhile ?P vs) = takeWhile ?P (filter Q vs) \<and>
      filter Q (dropWhile ?P vs) = dropWhile ?P (filter Q vs)"
  proof (induction vs)
    case (Cons x xs)
    then show ?case using late[of x xs] by (cases "?P x") auto
  qed simp
  with assms(2) show ?thesis by (simp add: place_def)
qed

lemma place_Nil [simp]: "place v [] = [v]"
  by (simp add: place_def)

lemma place_last: "\<forall>x \<in> set vs. ev_time x \<le> ev_time v \<Longrightarrow> place v vs = vs @ [v]"
  by (simp add: place_def takeWhile_eq_all_conv[THEN iffD2] dropWhile_eq_Nil_conv[THEN iffD2])

text \<open>Well-formedness, field by field.\<close>

lemma cal_ok_iff:
  "cal_ok k \<longleftrightarrow>
     sorted (map ev_time (cal_events k)) \<and> (\<forall>v \<in> set (cal_events k). cal_now k \<le> ev_time v) \<and>
     distinct (map ev_id (cal_events k)) \<and> distinct (map fst (cal_destroy k)) \<and>
     ev_id ` set (cal_events k) \<inter> fst ` set (cal_destroy k) = {} \<and>
     ev_id ` set (cal_events k) \<subseteq> cal_used k \<and> fst ` set (cal_destroy k) \<subseteq> cal_used k"
  by (simp add: cal_ok_def cal_ids_def)

lemma cal_ok_schedule:
  assumes "cal_ok k" and "0 \<le> d" and "e \<notin> cal_used k"
  shows "cal_ok (cal_schedule e d c k)"
proof -
  have "e \<notin> ev_id ` set (cal_events k)" and "e \<notin> fst ` set (cal_destroy k)"
    using assms(1,3) unfolding cal_ok_iff by blast+
  with assms show ?thesis
    unfolding cal_ok_iff by (simp add: cal_schedule_def sorted_place distinct_map_place subset_insertI2)
qed

lemma cal_ok_schedule_destroy:
  assumes "cal_ok k" and "e \<notin> cal_used k"
  shows "cal_ok (cal_schedule_destroy e c k)"
proof -
  have "e \<notin> ev_id ` set (cal_events k)" and "e \<notin> fst ` set (cal_destroy k)"
    using assms unfolding cal_ok_iff by blast+
  with assms show ?thesis
    unfolding cal_ok_iff by (simp add: cal_schedule_destroy_def subset_insertI2)
qed

lemma cal_ok_cancel:
  assumes "cal_ok k"
  shows "cal_ok (cal_cancel e k)"
proof -
  have "ev_id ` set (filter (\<lambda>v. ev_id v \<noteq> e) (cal_events k)) \<subseteq> ev_id ` set (cal_events k)"
    and "fst ` set (filter (\<lambda>v. fst v \<noteq> e) (cal_destroy k)) \<subseteq> fst ` set (cal_destroy k)"
    by auto
  moreover have "sorted (map ev_time (filter P vs))" if "sorted (map ev_time vs)"
    for P and vs :: "'a event list"
    using that by (rule sorted_filter)
  ultimately show ?thesis
    using assms unfolding cal_ok_iff cal_cancel_def
    by (simp add: distinct_map_filter) blast
qed

lemma cal_next_SomeD:
  assumes "cal_next k = Some (c, k')"
  obtains e where "cal_events k = (e, cal_now k', c) # cal_events k'"
    and "cal_destroy k' = cal_destroy k" "cal_used k' = cal_used k" "\<not> cal_stopped k" "\<not> cal_stopped k'"
  using assms by (auto simp: cal_next_def split: if_splits list.splits)

lemma cal_next_destroy_SomeD:
  assumes "cal_next_destroy k = Some (c, k')"
  obtains e where "cal_destroy k = (e, c) # cal_destroy k'" and "cal_events k' = cal_events k"
    and "cal_now k' = cal_now k" "cal_used k' = cal_used k" "cal_stopped k' = cal_stopped k"
  using assms by (auto simp: cal_next_destroy_def split: list.splits)

lemma cal_ok_next:
  assumes "cal_ok k" and "cal_next k = Some (c, k')"
  shows "cal_ok k'"
proof -
  from assms(2) obtain e where "cal_events k = (e, cal_now k', c) # cal_events k'"
    and "cal_destroy k' = cal_destroy k" "cal_used k' = cal_used k"
    by (rule cal_next_SomeD)
  with assms(1) show ?thesis by (simp add: cal_ok_def cal_ids_def)
qed

lemma cal_ok_next_destroy:
  assumes "cal_ok k" and "cal_next_destroy k = Some (c, k')"
  shows "cal_ok k'"
proof -
  from assms(2) obtain e where "cal_destroy k = (e, c) # cal_destroy k'"
    and "cal_events k' = cal_events k" "cal_now k' = cal_now k" "cal_used k' = cal_used k"
    by (rule cal_next_destroy_SomeD)
  with assms(1) show ?thesis by (simp add: cal_ok_def cal_ids_def)
qed

text \<open>The clock never runs backwards.\<close>

lemma cal_next_now: "cal_ok k \<Longrightarrow> cal_next k = Some (c, k') \<Longrightarrow> cal_now k \<le> cal_now k'"
  by (erule cal_next_SomeD) (simp add: cal_ok_def)

text \<open>The clock does not pass a pending event.\<close>

lemma cal_next_not_past:
  "cal_ok k \<Longrightarrow> cal_next k = Some (c, k') \<Longrightarrow> v \<in> set (cal_events k) \<Longrightarrow> cal_now k' \<le> ev_time v"
  by (erule cal_next_SomeD) (auto simp: cal_ok_def)

lemma cal_schedule_simps [simp]:
  "cal_now (cal_schedule e d c k) = cal_now k"
  "cal_destroy (cal_schedule e d c k) = cal_destroy k"
  "cal_used (cal_schedule e d c k) = insert e (cal_used k)"
  "cal_stopped (cal_schedule e d c k) = cal_stopped k"
  "set (cal_events (cal_schedule e d c k)) = insert (e, cal_now k + d, c) (set (cal_events k))"
  by (simp_all add: cal_schedule_def)

lemma cal_cancel_simps [simp]:
  "cal_now (cal_cancel e k) = cal_now k"
  "cal_used (cal_cancel e k) = cal_used k"
  "cal_stopped (cal_cancel e k) = cal_stopped k"
  "cal_events (cal_cancel e k) = filter (\<lambda>v. ev_id v \<noteq> e) (cal_events k)"
  "cal_destroy (cal_cancel e k) = filter (\<lambda>v. fst v \<noteq> e) (cal_destroy k)"
  by (simp_all add: cal_cancel_def)

section \<open>Code that does not touch some events\<close>

text \<open>
  The change of the calendar by code that cannot schedule or cancel the callbacks \<open>Q\<close>: their
  events stay as they are, new events get new identifiers, and the clock does not move.
\<close>

definition keeps_events :: "('c \<Rightarrow> bool) \<Rightarrow> 'c calendar \<Rightarrow> 'c calendar \<Rightarrow> bool" where
  "keeps_events Q k k' \<longleftrightarrow>
     cal_now k' = cal_now k \<and>
     filter (\<lambda>v. Q (ev_call v)) (cal_events k') = filter (\<lambda>v. Q (ev_call v)) (cal_events k) \<and>
     filter (\<lambda>v. Q (snd v)) (cal_destroy k') = filter (\<lambda>v. Q (snd v)) (cal_destroy k) \<and>
     (\<forall>v \<in> set (cal_events k'). ev_id v \<in> cal_used k \<longrightarrow> v \<in> set (cal_events k)) \<and>
     (\<forall>v \<in> set (cal_destroy k'). fst v \<in> cal_used k \<longrightarrow> v \<in> set (cal_destroy k)) \<and>
     cal_used k \<subseteq> cal_used k'"

lemma keeps_events_refl [simp]: "keeps_events Q k k"
  by (simp add: keeps_events_def)

lemma keeps_events_trans:
  "keeps_events Q k1 k2 \<Longrightarrow> keeps_events Q k2 k3 \<Longrightarrow> keeps_events Q k1 k3"
  by (auto simp: keeps_events_def)

lemma keeps_events_schedule:
  "\<not> Q c \<Longrightarrow> e \<notin> cal_used k \<Longrightarrow> keeps_events Q k (cal_schedule e d c k)"
  by (auto simp: keeps_events_def cal_schedule_def filter_place_other)

lemma keeps_events_event:
  assumes "keeps_events Q k k'" and "Q (ev_call v)"
  shows "v \<in> set (cal_events k') \<longleftrightarrow> v \<in> set (cal_events k)"
proof -
  have "set (filter (\<lambda>v. Q (ev_call v)) (cal_events k')) =
        set (filter (\<lambda>v. Q (ev_call v)) (cal_events k))"
    using assms(1) by (simp add: keeps_events_def)
  with assms(2) show ?thesis by auto
qed

lemma keeps_events_now [simp]: "keeps_events Q k k' \<Longrightarrow> cal_now k' = cal_now k"
  by (simp add: keeps_events_def)

lemma keeps_eventsD:
  assumes "keeps_events Q k k'"
  shows "v \<in> set (cal_events k') \<Longrightarrow> ev_id v \<in> cal_used k \<Longrightarrow> v \<in> set (cal_events k)"
    and "x \<in> set (cal_destroy k') \<Longrightarrow> fst x \<in> cal_used k \<Longrightarrow> x \<in> set (cal_destroy k)"
    and "e \<in> cal_used k \<Longrightarrow> e \<in> cal_used k'"
  using assms unfolding keeps_events_def by blast+

text \<open>The part of this that holds for every operation of the simulator, too.\<close>

definition fresh_ids :: "'c calendar \<Rightarrow> 'c calendar \<Rightarrow> bool" where
  "fresh_ids k k' \<longleftrightarrow>
     (\<forall>v \<in> set (cal_events k'). ev_id v \<in> cal_used k \<longrightarrow> v \<in> set (cal_events k)) \<and>
     (\<forall>v \<in> set (cal_destroy k'). fst v \<in> cal_used k \<longrightarrow> v \<in> set (cal_destroy k)) \<and>
     cal_used k \<subseteq> cal_used k'"

lemma keeps_events_fresh: "keeps_events Q k k' \<Longrightarrow> fresh_ids k k'"
  unfolding keeps_events_def fresh_ids_def by blast

lemma fresh_ids_simps [simp]:
  "fresh_ids k k"
  "e \<notin> cal_used k \<Longrightarrow> fresh_ids k (cal_schedule e d c k)"
  "e \<notin> cal_used k \<Longrightarrow> fresh_ids k (cal_schedule_destroy e c k)"
  "fresh_ids k (cal_cancel e k)"
  "fresh_ids k (k\<lparr>cal_stopped := b\<rparr>)"
  by (auto simp: fresh_ids_def cal_schedule_destroy_def)

lemma fresh_ids_next: "cal_next k = Some (c, k') \<Longrightarrow> fresh_ids k k'"
  by (erule cal_next_SomeD) (simp add: fresh_ids_def)

lemma fresh_ids_next_destroy: "cal_next_destroy k = Some (c, k') \<Longrightarrow> fresh_ids k k'"
  by (erule cal_next_destroy_SomeD) (simp add: fresh_ids_def)

lemma filter_absorb: "(\<And>v. v \<in> set vs \<Longrightarrow> P v \<Longrightarrow> Q v) \<Longrightarrow> filter P (filter Q vs) = filter P vs"
  by (induction vs) auto

lemma keeps_events_cancel:
  assumes e: "\<forall>v \<in> set (cal_events k). ev_id v = e \<longrightarrow> \<not> Q (ev_call v)"
    and d: "\<forall>x \<in> set (cal_destroy k). fst x = e \<longrightarrow> \<not> Q (snd x)"
  shows "keeps_events Q k (cal_cancel e k)"
  unfolding keeps_events_def cal_cancel_simps
proof (intro conjI)
  show "filter (\<lambda>v. Q (ev_call v)) (filter (\<lambda>v. ev_id v \<noteq> e) (cal_events k)) =
      filter (\<lambda>v. Q (ev_call v)) (cal_events k)"
    by (rule filter_absorb) (use e in blast)
  show "filter (\<lambda>v. Q (snd v)) (filter (\<lambda>v. fst v \<noteq> e) (cal_destroy k)) =
      filter (\<lambda>v. Q (snd v)) (cal_destroy k)"
    by (rule filter_absorb) (use d in blast)
qed auto

lemma keeps_events_mono:
  assumes "keeps_events Q k k'" and "\<And>c. R c \<Longrightarrow> Q c"
  shows "keeps_events R k k'"
proof -
  have e: "filter (\<lambda>v. R (ev_call v)) vs = filter (\<lambda>v. R (ev_call v)) (filter (\<lambda>v. Q (ev_call v)) vs)"
    for vs :: "'a event list" using assms(2) by (induction vs) auto
  have d: "filter (\<lambda>v. R (snd v)) vs = filter (\<lambda>v. R (snd v)) (filter (\<lambda>v. Q (snd v)) vs)"
    for vs :: "(event_id \<times> 'a) list" using assms(2) by (induction vs) auto
  show ?thesis
    using assms(1) e[of "cal_events k"] e[of "cal_events k'"] d[of "cal_destroy k"] d[of "cal_destroy k'"]
    unfolding keeps_events_def by metis
qed

section \<open>The contract\<close>

locale event_simulator =
  fixes S :: "('c, 'w) sim_ops"
    and cal :: "'w \<Rightarrow> 'c calendar"
    and valid :: "'w \<Rightarrow> bool"
  assumes cal_ok: "valid w \<Longrightarrow> cal_ok (cal w)"
    and now: "valid w \<Longrightarrow> sim_now S w = cal_now (cal w)"
    and schedule: "valid w \<Longrightarrow> 0 \<le> d \<Longrightarrow> sim_schedule S d c w = (e, w') \<Longrightarrow>
      valid w' \<and> e \<notin> cal_used (cal w) \<and> cal w' = cal_schedule e d c (cal w)"
    and schedule_now: "valid w \<Longrightarrow> sim_schedule_now S c w = (e, w') \<Longrightarrow>
      valid w' \<and> e \<notin> cal_used (cal w) \<and> cal w' = cal_schedule e 0 c (cal w)"
    and schedule_with_context: "valid w \<Longrightarrow> 0 \<le> d \<Longrightarrow>
      valid (sim_schedule_with_context S x d c w) \<and>
      (\<exists>e. e \<notin> cal_used (cal w) \<and>
        cal (sim_schedule_with_context S x d c w) = cal_schedule e d c (cal w))"
    and schedule_destroy: "valid w \<Longrightarrow> sim_schedule_destroy S c w = (e, w') \<Longrightarrow>
      valid w' \<and> e \<notin> cal_used (cal w) \<and> cal w' = cal_schedule_destroy e c (cal w)"
    and cancel: "valid w \<Longrightarrow>
      valid (sim_cancel S e w) \<and> cal (sim_cancel S e w) = cal_cancel e (cal w)"
    and pending: "valid w \<Longrightarrow> sim_pending S e w \<longleftrightarrow> cal_pending e (cal w)"
    and stop: "valid w \<Longrightarrow> valid (sim_stop S w) \<and> cal (sim_stop S w) = (cal w)\<lparr>cal_stopped := True\<rparr>"
    and next_None: "valid w \<Longrightarrow> sim_next S w = None \<longleftrightarrow> cal_next (cal w) = None"
    and next_Some: "valid w \<Longrightarrow> sim_next S w = Some (c, w') \<Longrightarrow>
      valid w' \<and> cal_next (cal w) = Some (c, cal w')"
    and next_destroy_None: "valid w \<Longrightarrow> sim_next_destroy S w = None \<longleftrightarrow> cal_next_destroy (cal w) = None"
    and next_destroy_Some: "valid w \<Longrightarrow> sim_next_destroy S w = Some (c, w') \<Longrightarrow>
      valid w' \<and> cal_next_destroy (cal w) = Some (c, cal w')"
begin

lemma schedule_ex:
  assumes "valid w" and "0 \<le> d"
  obtains e w' where "sim_schedule S d c w = (e, w')" and "valid w'" and "e \<notin> cal_used (cal w)"
    and "cal w' = cal_schedule e d c (cal w)"
  using schedule[OF assms] by (cases "sim_schedule S d c w") blast

lemma schedule_now_ex:
  assumes "valid w"
  obtains e w' where "sim_schedule_now S c w = (e, w')" and "valid w'" and "e \<notin> cal_used (cal w)"
    and "cal w' = cal_schedule e 0 c (cal w)"
  using schedule_now[OF assms] by (cases "sim_schedule_now S c w") blast

lemma schedule_destroy_ex:
  assumes "valid w"
  obtains e w' where "sim_schedule_destroy S c w = (e, w')" and "valid w'" and "e \<notin> cal_used (cal w)"
    and "cal w' = cal_schedule_destroy e c (cal w)"
  using schedule_destroy[OF assms] by (cases "sim_schedule_destroy S c w") blast

text \<open>\<open>EventId::Cancel\<close> guarded by \<open>EventId::IsPending\<close>, as the code always calls it.\<close>

lemma cancel_if_pending:
  assumes "valid w"
  shows "valid (if is_pending S i w then cancel_event S i w else w)"
    and "cal (if is_pending S i w then cancel_event S i w else w) =
      (case i of None \<Rightarrow> cal w | Some e \<Rightarrow> cal_cancel e (cal w))"
proof -
  show "valid (if is_pending S i w then cancel_event S i w else w)"
    using assms cancel by (auto simp: is_pending_def cancel_event_def split: option.splits)
  show "cal (if is_pending S i w then cancel_event S i w else w) =
      (case i of None \<Rightarrow> cal w | Some e \<Rightarrow> cal_cancel e (cal w))"
  proof (cases i)
    case None
    then show ?thesis by (simp add: is_pending_def)
  next
    case (Some e)
    have "cal_cancel e (cal w) = cal w" if "\<not> cal_pending e (cal w)"
      using that by (auto simp: cal_cancel_def cal_pending_def filter_id_conv image_iff
        intro!: calendar.equality)
    then show ?thesis
      using Some assms cancel pending by (auto simp: is_pending_def cancel_event_def)
  qed
qed

text \<open>A property of the calendar that only grows with identifiers that are new can join the validity.\<close>

lemma restrict_valid:
  assumes J: "\<And>k k'. J k \<Longrightarrow> fresh_ids k k' \<Longrightarrow> J k'"
  shows "event_simulator S cal (\<lambda>w. valid w \<and> J (cal w))"
proof (unfold_locales, goal_cases)
  case (3 w d c e w')
  then show ?case using schedule[of w d c e w'] J[OF _ fresh_ids_simps(2)] by simp
next
  case (4 w c e w')
  then show ?case using schedule_now[of w c e w'] J[OF _ fresh_ids_simps(2)] by simp
next
  case (5 w d x c)
  then have "valid w" "J (cal w)" by simp_all
  from schedule_with_context[OF this(1) 5(2), of x c] this(2) J[OF _ fresh_ids_simps(2)] show ?case by auto
next
  case (6 w c e w')
  then show ?case using schedule_destroy[of w c e w'] J[OF _ fresh_ids_simps(3)] by simp
next
  case (7 w e)
  then show ?case using cancel[of w e] J[OF _ fresh_ids_simps(4)] by simp
next
  case (9 w)
  then show ?case using stop[of w] J[OF _ fresh_ids_simps(5)] by simp
next
  case (11 w c w')
  then show ?case using next_Some[of w c w'] J[OF _ fresh_ids_next] by blast
next
  case (13 w c w')
  then show ?case using next_destroy_Some[of w c w'] J[OF _ fresh_ids_next_destroy] by blast
qed (simp_all add: cal_ok now pending next_None next_destroy_None)

lemma next_time:
  assumes "valid w" and "sim_next S w = Some (c, w')"
  shows "sim_now S w \<le> sim_now S w'"
  using assms next_Some[OF assms] cal_next_now[OF cal_ok] by (simp add: now)

end

end
