(* ===== verification/Platform.thy ===== *)
theory Platform
  imports Simulator
begin

text \<open>
  The rest of the gateway's environment: the POSIX socket calls, as a record of functions like
  the simulator's, with the contract that they leave the calendar alone. At the end of the theory
  a reference platform implements both interfaces; the witnesses of the development run on it.
\<close>

section \<open>Sockets\<close>

text \<open>
  \<open>os_pton\<close> is the result of \<open>inet_pton\<close> on an address, \<open>os_connect\<close> takes the address in
  the form in which \<open>inet_pton\<close> got it. \<open>os_send\<close> returns the result of \<open>send\<close>.
\<close>

record 'w os_ops =
  os_socket :: "'w \<Rightarrow> int \<times> 'w"
  os_pton :: "string \<Rightarrow> int"
  os_connect :: "int \<Rightarrow> string \<Rightarrow> u16 \<Rightarrow> 'w \<Rightarrow> int \<times> 'w"
  os_send :: "int \<Rightarrow> string \<Rightarrow> 'w \<Rightarrow> int \<times> 'w"
  os_close :: "int \<Rightarrow> 'w \<Rightarrow> 'w"

locale gateway_platform = event_simulator S cal valid
  for S :: "('x callback, 'w) sim_ops" and cal :: "'w \<Rightarrow> 'x callback calendar" and valid :: "'w \<Rightarrow> bool" +
  fixes P :: "'w os_ops"
  assumes os_socket: "valid w \<Longrightarrow> os_socket P w = (r, w') \<Longrightarrow> valid w' \<and> cal w' = cal w"
    and os_connect: "valid w \<Longrightarrow> os_connect P s a p w = (r, w') \<Longrightarrow> valid w' \<and> cal w' = cal w"
    and os_send: "valid w \<Longrightarrow> os_send P s m w = (r, w') \<Longrightarrow> valid w' \<and> cal w' = cal w"
    and os_close: "valid w \<Longrightarrow> valid (os_close P s w) \<and> cal (os_close P s w) = cal w"

context gateway_platform begin

lemma restrict_platform:
  assumes J: "\<And>k k'. J k \<Longrightarrow> fresh_ids k k' \<Longrightarrow> J k'"
  shows "gateway_platform S cal (\<lambda>w. valid w \<and> J (cal w)) P"
proof (intro gateway_platform.intro gateway_platform_axioms.intro)
  show "event_simulator S cal (\<lambda>w. valid w \<and> J (cal w))" by (rule restrict_valid[OF J])
  fix w r w' s a p m
  show "valid w \<and> J (cal w) \<Longrightarrow> os_socket P w = (r, w') \<Longrightarrow> (valid w' \<and> J (cal w')) \<and> cal w' = cal w"
    using os_socket[of w r w'] by auto
  show "valid w \<and> J (cal w) \<Longrightarrow> os_connect P s a p w = (r, w') \<Longrightarrow>
      (valid w' \<and> J (cal w')) \<and> cal w' = cal w"
    using os_connect[of w s a p r w'] by auto
  show "valid w \<and> J (cal w) \<Longrightarrow> os_send P s m w = (r, w') \<Longrightarrow> (valid w' \<and> J (cal w')) \<and> cal w' = cal w"
    using os_send[of w s m r w'] by auto
  show "valid w \<and> J (cal w) \<Longrightarrow>
      (valid (os_close P s w) \<and> J (cal (os_close P s w))) \<and> cal (os_close P s w) = cal w"
    using os_close[of w s] by auto
qed

end

section \<open>A reference platform\<close>

text \<open>
  Event identifiers count up from 0, and the pending events are a sorted list. The sockets accept
  every connection and every message, which they record.
\<close>

record 'c ref_world =
  rw_now :: time
  rw_uid :: nat
  rw_events :: "'c event list"
  rw_destroy :: "(event_id \<times> 'c) list"
  rw_stopped :: bool
  rw_sent :: "string list"
  rw_closed :: bool
  rw_packets :: "(time \<times> u32) list"

definition ref_init :: "time \<Rightarrow> 'c ref_world" where
  "ref_init t = \<lparr>rw_now = t, rw_uid = 0, rw_events = [], rw_destroy = [], rw_stopped = False,
     rw_sent = [], rw_closed = False, rw_packets = []\<rparr>"

definition ref_insert :: "time \<Rightarrow> 'c \<Rightarrow> 'c ref_world \<Rightarrow> event_id \<times> 'c ref_world" where
  "ref_insert d c w =
     (rw_uid w, w\<lparr>rw_events := place (rw_uid w, rw_now w + d, c) (rw_events w), rw_uid := Suc (rw_uid w)\<rparr>)"

definition ref_sim :: "('c, 'c ref_world) sim_ops" where
  "ref_sim = \<lparr>
     sim_now = rw_now,
     sim_context = (\<lambda>w. 0),
     sim_schedule = ref_insert,
     sim_schedule_now = ref_insert 0,
     sim_schedule_with_context = (\<lambda>x d c w. snd (ref_insert d c w)),
     sim_schedule_destroy = (\<lambda>c w.
       (rw_uid w, w\<lparr>rw_destroy := rw_destroy w @ [(rw_uid w, c)], rw_uid := Suc (rw_uid w)\<rparr>)),
     sim_cancel = (\<lambda>e w. w\<lparr>rw_events := filter (\<lambda>v. ev_id v \<noteq> e) (rw_events w),
       rw_destroy := filter (\<lambda>v. fst v \<noteq> e) (rw_destroy w)\<rparr>),
     sim_pending = (\<lambda>e w. e \<in> set (map ev_id (rw_events w) @ map fst (rw_destroy w))),
     sim_stop = (\<lambda>w. w\<lparr>rw_stopped := True\<rparr>),
     sim_next = (\<lambda>w. if rw_stopped w then None else
       case rw_events w of [] \<Rightarrow> None
       | v # vs \<Rightarrow> Some (ev_call v, w\<lparr>rw_now := ev_time v, rw_events := vs\<rparr>)),
     sim_next_destroy = (\<lambda>w. case rw_destroy w of [] \<Rightarrow> None
       | v # vs \<Rightarrow> Some (snd v, w\<lparr>rw_destroy := vs\<rparr>)) \<rparr>"

definition ref_os :: "'c ref_world os_ops" where
  "ref_os = \<lparr>
     os_socket = (\<lambda>w. (3, w)),
     os_pton = (\<lambda>a. if a = ''127.0.0.1'' then 1 else 0),
     os_connect = (\<lambda>s a p w. (0, w)),
     os_send = (\<lambda>s m w. (int (length m), w\<lparr>rw_sent := rw_sent w @ [m]\<rparr>)),
     os_close = (\<lambda>s w. w\<lparr>rw_closed := True\<rparr>) \<rparr>"

definition ref_cal :: "'c ref_world \<Rightarrow> 'c calendar" where
  "ref_cal w = \<lparr>cal_now = rw_now w, cal_events = rw_events w, cal_destroy = rw_destroy w,
     cal_used = {..<rw_uid w}, cal_stopped = rw_stopped w\<rparr>"

definition ref_valid :: "'c ref_world \<Rightarrow> bool" where
  "ref_valid w = cal_ok (ref_cal w)"

lemma ref_valid_init [simp]: "ref_valid (ref_init t)"
  by (simp add: ref_valid_def ref_cal_def ref_init_def cal_ok_iff)

lemma ref_cal_insert:
  assumes "ref_insert d c w = (e, w')"
  shows "ref_cal w' = cal_schedule e d c (ref_cal w)" and "e \<notin> cal_used (ref_cal w)"
  using assms by (auto simp: ref_insert_def ref_cal_def cal_schedule_def lessThan_Suc)

lemma ref_valid_insert: "ref_valid w \<Longrightarrow> 0 \<le> d \<Longrightarrow> ref_insert d c w = (e, w') \<Longrightarrow> ref_valid w'"
  using ref_cal_insert[of d c w e w'] by (simp add: ref_valid_def cal_ok_schedule)

text \<open>Running the reference platform by simplification.\<close>

lemma ref_sim_simps [ref_eval]:
  "sim_now ref_sim = rw_now"
  "sim_context ref_sim = (\<lambda>w. 0)"
  "sim_schedule ref_sim = ref_insert"
  "sim_schedule_now ref_sim = ref_insert 0"
  "sim_schedule_with_context ref_sim = (\<lambda>x d c w. snd (ref_insert d c w))"
  "sim_schedule_destroy ref_sim c w =
     (rw_uid w, w\<lparr>rw_destroy := rw_destroy w @ [(rw_uid w, c)], rw_uid := Suc (rw_uid w)\<rparr>)"
  "sim_stop ref_sim w = w\<lparr>rw_stopped := True\<rparr>"
  "sim_cancel ref_sim e w = w\<lparr>rw_events := filter (\<lambda>v. ev_id v \<noteq> e) (rw_events w),
     rw_destroy := filter (\<lambda>v. fst v \<noteq> e) (rw_destroy w)\<rparr>"
  "sim_pending ref_sim e w = (e \<in> set (map ev_id (rw_events w) @ map fst (rw_destroy w)))"
  "sim_next ref_sim w = (if rw_stopped w then None else
     case rw_events w of [] \<Rightarrow> None
     | v # vs \<Rightarrow> Some (ev_call v, w\<lparr>rw_now := ev_time v, rw_events := vs\<rparr>))"
  "sim_next_destroy ref_sim w = (case rw_destroy w of [] \<Rightarrow> None
     | v # vs \<Rightarrow> Some (snd v, w\<lparr>rw_destroy := vs\<rparr>))"
  by (simp_all add: ref_sim_def)

lemma ref_os_simps [ref_eval]:
  "os_socket ref_os w = (3, w)"
  "os_pton ref_os a = (if a = ''127.0.0.1'' then 1 else 0)"
  "os_connect ref_os s a p w = (0, w)"
  "os_send ref_os s m w = (int (length m), w\<lparr>rw_sent := rw_sent w @ [m]\<rparr>)"
  "os_close ref_os s w = w\<lparr>rw_closed := True\<rparr>"
  by (simp_all add: ref_os_def)

declare ref_insert_def [ref_eval] ref_init_def [ref_eval] place_def [ref_eval]
  is_pending_def [ref_eval] cancel_event_def [ref_eval]
  Seconds_def [ref_eval] MilliSeconds_def [ref_eval] NanoSeconds_def [ref_eval]
  FemtoSeconds_def [ref_eval]

interpretation ref: event_simulator ref_sim ref_cal ref_valid
proof
  fix w :: "'a ref_world" and d e c w' x
  note defs = ref_sim_def ref_valid_def
  show "ref_valid w \<Longrightarrow> cal_ok (ref_cal w)" by (simp add: ref_valid_def)
  show "sim_now ref_sim w = cal_now (ref_cal w)" by (simp add: ref_sim_def ref_cal_def)
  show "ref_valid w \<Longrightarrow> 0 \<le> d \<Longrightarrow> sim_schedule ref_sim d c w = (e, w') \<Longrightarrow>
      ref_valid w' \<and> e \<notin> cal_used (ref_cal w) \<and> ref_cal w' = cal_schedule e d c (ref_cal w)"
    using ref_valid_insert ref_cal_insert by (fastforce simp: ref_sim_def)
  show "ref_valid w \<Longrightarrow> sim_schedule_now ref_sim c w = (e, w') \<Longrightarrow>
      ref_valid w' \<and> e \<notin> cal_used (ref_cal w) \<and> ref_cal w' = cal_schedule e 0 c (ref_cal w)"
    using ref_valid_insert[of w 0] ref_cal_insert by (fastforce simp: ref_sim_def)
  show "ref_valid w \<Longrightarrow> 0 \<le> d \<Longrightarrow>
      ref_valid (sim_schedule_with_context ref_sim x d c w) \<and>
      (\<exists>e. e \<notin> cal_used (ref_cal w) \<and>
        ref_cal (sim_schedule_with_context ref_sim x d c w) = cal_schedule e d c (ref_cal w))"
    using ref_valid_insert ref_cal_insert by (cases "ref_insert d c w") (fastforce simp: ref_sim_def)
  show "ref_valid w \<Longrightarrow> sim_schedule_destroy ref_sim c w = (e, w') \<Longrightarrow>
      ref_valid w' \<and> e \<notin> cal_used (ref_cal w) \<and> ref_cal w' = cal_schedule_destroy e c (ref_cal w)"
    using cal_ok_schedule_destroy[of "ref_cal w" "rw_uid w" c]
    by (auto simp: ref_sim_def ref_valid_def ref_cal_def cal_schedule_destroy_def lessThan_Suc)
  show "ref_valid w \<Longrightarrow> ref_valid (sim_cancel ref_sim e w) \<and>
      ref_cal (sim_cancel ref_sim e w) = cal_cancel e (ref_cal w)"
    using cal_ok_cancel[of "ref_cal w" e]
    by (simp add: ref_sim_def ref_valid_def ref_cal_def cal_cancel_def)
  show "sim_pending ref_sim e w \<longleftrightarrow> cal_pending e (ref_cal w)"
    by (simp add: ref_sim_def cal_pending_def ref_cal_def)
  show "ref_valid w \<Longrightarrow> ref_valid (sim_stop ref_sim w) \<and>
      ref_cal (sim_stop ref_sim w) = (ref_cal w)\<lparr>cal_stopped := True\<rparr>"
    by (simp add: ref_sim_def ref_valid_def ref_cal_def cal_ok_iff)
  show "sim_next ref_sim w = None \<longleftrightarrow> cal_next (ref_cal w) = None"
    by (simp add: ref_sim_def ref_cal_def cal_next_def split: list.splits)
  show "sim_next_destroy ref_sim w = None \<longleftrightarrow> cal_next_destroy (ref_cal w) = None"
    by (simp add: ref_sim_def ref_cal_def cal_next_destroy_def split: list.splits)
  have n: "sim_next ref_sim w = Some (c, w') \<Longrightarrow> cal_next (ref_cal w) = Some (c, ref_cal w')"
    by (auto simp: ref_sim_def ref_cal_def cal_next_def split: if_splits list.splits)
  then show "ref_valid w \<Longrightarrow> sim_next ref_sim w = Some (c, w') \<Longrightarrow>
      ref_valid w' \<and> cal_next (ref_cal w) = Some (c, ref_cal w')"
    using cal_ok_next[of "ref_cal w"] by (simp add: ref_valid_def)
  have d: "sim_next_destroy ref_sim w = Some (c, w') \<Longrightarrow>
      cal_next_destroy (ref_cal w) = Some (c, ref_cal w')"
    by (auto simp: ref_sim_def ref_cal_def cal_next_destroy_def split: list.splits)
  then show "ref_valid w \<Longrightarrow> sim_next_destroy ref_sim w = Some (c, w') \<Longrightarrow>
      ref_valid w' \<and> cal_next_destroy (ref_cal w) = Some (c, ref_cal w')"
    using cal_ok_next_destroy[of "ref_cal w"] by (simp add: ref_valid_def)
qed

interpretation ref_gw: gateway_platform ref_sim ref_cal ref_valid ref_os
  by unfold_locales (auto simp: ref_os_def ref_valid_def ref_cal_def)

end
