(* ===== verification/Gateway.thy ===== *)
theory Gateway
  imports Wire_Protocol Platform
begin

text \<open>
  The class \<open>Gateway\<close> of \<open>model/gateway.h\<close> and \<open>model/gateway.cc\<close>: its members as a record,
  its member functions as functions from the gateway and the platform's state to the new ones.
  The receiving thread is in the theory \<open>Gateway_System\<close>.
\<close>

section \<open>State\<close>

datatype gw_state = CREATED | CONNECTED | STOPPING

text \<open>The states in the order in which a gateway passes through them.\<close>

instantiation gw_state :: linorder
begin

fun state_rank :: "gw_state \<Rightarrow> nat" where
  "state_rank CREATED = 0"
| "state_rank CONNECTED = 1"
| "state_rank STOPPING = 2"

definition less_eq_gw_state :: "gw_state \<Rightarrow> gw_state \<Rightarrow> bool" where
  "less_eq_gw_state a b \<longleftrightarrow> state_rank a \<le> state_rank b"

definition less_gw_state :: "gw_state \<Rightarrow> gw_state \<Rightarrow> bool" where
  "less_gw_state a b \<longleftrightarrow> state_rank a < state_rank b"

instance
proof
  fix a b :: gw_state
  show "a \<le> b \<Longrightarrow> b \<le> a \<Longrightarrow> a = b"
    by (cases a; cases b) (simp_all add: less_eq_gw_state_def)
qed (auto simp: less_eq_gw_state_def less_gw_state_def)

end

lemma le_STOPPING [simp]: "(s :: gw_state) \<le> STOPPING"
  by (cases s) (simp_all add: less_eq_gw_state_def)

lemma STOPPING_le [simp]: "STOPPING \<le> s \<longleftrightarrow> s = STOPPING"
  by (cases s) (simp_all add: less_eq_gw_state_def)

text \<open>
  The members of the class. \<open>m_socket\<close> is \<open>None\<close> until \<open>Connect\<close> assigns it (the constructor
  leaves it uninitialised); \<open>m_thread\<close> is \<open>m_thread.joinable()\<close>; the mutex has no value, its
  critical sections are atomic steps of the model.
\<close>

record gateway =
  m_context :: u32
  m_eventWait :: "event_id option"
  m_eventDestroy :: "event_id option"
  m_state :: gw_state
  m_timeStart :: time
  m_timePause :: time
  m_socket :: "int option"
  m_thread :: bool
  m_messageQueue :: "string list"
  m_delimiterField :: string
  m_delimiterMessage :: string
  m_messageBuffer :: string
  m_data :: "string list"

section \<open>Public member functions\<close>

definition Gateway_new ::
    "('c, 'w) sim_ops \<Rightarrow> u32 \<Rightarrow> string \<Rightarrow> string \<Rightarrow> 'w \<Rightarrow> gateway res" where
  "Gateway_new S dataSize delimiterField delimiterMessage w =
     (if delimiterField = [] then Inl (Fatal ''field delimiter cannot be empty'')
      else if delimiterMessage = [] then Inl (Fatal ''message delimiter cannot be empty'')
      else if find_sub delimiterMessage delimiterField \<noteq> None
        then Inl (Fatal ''message delimiter cannot be a substring of the field delimiter'')
      else Inr \<lparr>
        m_context = sim_context S w,
        m_eventWait = None,
        m_eventDestroy = None,
        m_state = CREATED,
        m_timeStart = Seconds (-1),
        m_timePause = Seconds 0,
        m_socket = None,
        m_thread = False,
        m_messageQueue = [],
        m_delimiterField = delimiterField,
        m_delimiterMessage = delimiterMessage,
        m_messageBuffer = [],
        m_data = replicate (unat dataSize) [] \<rparr>)"

definition Connect ::
    "('x callback, 'w) sim_ops \<Rightarrow> 'w os_ops \<Rightarrow> string \<Rightarrow> u16 \<Rightarrow> gateway \<times> 'w \<Rightarrow> (gateway \<times> 'w) res" where
  "Connect S P serverAddress serverPort = (\<lambda>(g, w).
     if m_state g \<noteq> CREATED then Inl (Fatal ''Gateway::Connect was called multiple times'')
     else
       (let (sock, w1) = os_socket P w in
        if sock < 0 then Inl (Fatal ''Gateway::Connect failed to create a socket'')
        else if os_pton P serverAddress \<le> 0
          then Inl (Fatal ''Gateway::Connect failed to resolve the address'')
        else
          (let (rc, w2) = os_connect P sock serverAddress serverPort w1 in
           if rc < 0 then Inl (Fatal ''Gateway::Connect failed to connect'')
           else
             (let (ed, w3) = sim_schedule_destroy S GatewayStop w2;
                  (ew, w4) = sim_schedule_now S GatewayWaitForNextUpdate w3
              in Inr (g\<lparr>m_socket := Some sock, m_state := CONNECTED, m_eventDestroy := Some ed,
                        m_thread := True, m_eventWait := Some ew\<rparr>, w4)))))"

definition SetValue :: "u32 \<Rightarrow> string \<Rightarrow> gateway \<Rightarrow> gateway res" where
  "SetValue index value g =
     (if length (m_data g) \<le> unat index
        then Inl (Fatal ''Gateway::SetValue called with an index out of range'')
      else if find_sub (m_delimiterField g) value \<noteq> None
        then Inl (Fatal ''Gateway::SetValue called with the protocol field delimiter'')
      else if find_sub (m_delimiterMessage g) value \<noteq> None
        then Inl (Fatal ''Gateway::SetValue called with the protocol message delimiter'')
      else Inr (g\<lparr>m_data := (m_data g)[unat index := value]\<rparr>))"

text \<open>A call of \<open>Connect\<close> that returns.\<close>

lemma Connect_InrD:
  assumes "Connect S P a p (g, w) = Inr (g', w')"
  shows "\<exists>sock w1 rc w2 ed w3 ew.
    m_state g = CREATED \<and> os_socket P w = (sock, w1) \<and> 0 \<le> sock \<and> 0 < os_pton P a \<and>
    os_connect P sock a p w1 = (rc, w2) \<and> 0 \<le> rc \<and>
    sim_schedule_destroy S GatewayStop w2 = (ed, w3) \<and>
    sim_schedule_now S GatewayWaitForNextUpdate w3 = (ew, w') \<and>
    g' = g\<lparr>m_socket := Some sock, m_state := CONNECTED, m_eventDestroy := Some ed,
            m_thread := True, m_eventWait := Some ew\<rparr>"
  using assms by (auto simp: Connect_def Let_def not_less not_le split: if_splits prod.splits)

text \<open>A failed \<open>send\<close> is only logged, so its result does not matter.\<close>

definition SendResponse :: "'w os_ops \<Rightarrow> gateway \<times> 'w \<Rightarrow> (gateway \<times> 'w) res" where
  "SendResponse P = (\<lambda>(g, w).
     if m_state g \<noteq> CONNECTED
       then Inl (Fatal ''Gateway::SendResponse called without an active connection'')
     else case m_socket g of
       None \<Rightarrow> Inl Undefined
     | Some sock \<Rightarrow>
         (let (sent, w') = os_send P sock
            (response_message (m_delimiterField g) (m_delimiterMessage g) (m_data g)) w
          in Inr (g, w')))"

section \<open>Private member functions\<close>

text \<open>
  \<open>Stop\<close> in two parts, before and after \<open>m_thread.join()\<close>, at which the caller waits for the
  receiving thread. The first part yields the local variable \<open>connected\<close>.
\<close>

definition Stop_signal :: "gateway \<Rightarrow> bool \<times> gateway" where
  "Stop_signal g = (m_state g = CONNECTED, g\<lparr>m_state := STOPPING\<rparr>)"

definition Stop_finish ::
    "('x callback, 'w) sim_ops \<Rightarrow> 'w os_ops \<Rightarrow> bool \<Rightarrow> gateway \<times> 'w \<Rightarrow> gateway \<times> 'w" where
  "Stop_finish S P connected = (\<lambda>(g, w).
     (let (g1, w1) =
        (if connected
         then (g\<lparr>m_thread := False\<rparr>,
               case m_socket g of None \<Rightarrow> w | Some sock \<Rightarrow> os_close P sock w)
         else (g, w));
        w2 = (if is_pending S (m_eventWait g1) w1 then cancel_event S (m_eventWait g1) w1 else w1);
        w3 = (if is_pending S (m_eventDestroy g1) w2 then cancel_event S (m_eventDestroy g1) w2 else w2)
      in (g1, w3)))"

text \<open>The whole function, for a thread that has ended.\<close>

definition Gateway_Stop ::
    "('x callback, 'w) sim_ops \<Rightarrow> 'w os_ops \<Rightarrow> gateway \<times> 'w \<Rightarrow> gateway \<times> 'w" where
  "Gateway_Stop S P = (\<lambda>(g, w).
     let (connected, g1) = Stop_signal g in Stop_finish S P connected (g1, w))"

definition WaitForNextUpdate ::
    "('x callback, 'w) sim_ops \<Rightarrow> gateway \<times> 'w \<Rightarrow> gateway \<times> 'w" where
  "WaitForNextUpdate S = (\<lambda>(g, w).
     if m_state g \<noteq> STOPPING then
       (let w1 = (if is_pending S (m_eventWait g) w then cancel_event S (m_eventWait g) w else w);
            (e, w2) = sim_schedule_now S GatewayWaitForNextUpdate w1
        in (g\<lparr>m_eventWait := Some e\<rparr>, w2))
     else (g, w))"

text \<open>
  The \<open>try\<close> block of \<open>ForwardUp\<close>: the exceptions of \<open>at\<close>, \<open>stoi\<close> and \<open>stol\<close> end in
  the same fatal error; the sum of the two times can leave the 64-bit range.
\<close>

definition message_time :: "string list \<Rightarrow> time res" where
  "message_time values =
     (case values of
        seconds # nanoseconds # _ \<Rightarrow>
          (case stoi seconds of
             Inl e \<Rightarrow> Inl (Fatal ''received invalid message header'')
           | Inr s \<Rightarrow>
               (case stol nanoseconds of
                  Inl e \<Rightarrow> Inl (Fatal ''received invalid message header'')
                | Inr n \<Rightarrow> time_checked (Seconds s + NanoSeconds n)))
      | _ \<Rightarrow> Inl (Fatal ''received invalid message header''))"

text \<open>The three branches of \<open>ForwardUp\<close> on the time stamp.\<close>

definition process_message ::
    "('x callback, 'w) sim_ops \<Rightarrow> time \<Rightarrow> string list \<Rightarrow> gateway \<times> 'w \<Rightarrow> (gateway \<times> 'w) res" where
  "process_message S timestamp values = (\<lambda>(g, w).
     if timestamp < 0 then Inr (g, sim_stop S w)
     else if m_timeStart g < 0 then
       (let (e, w1) = sim_schedule_now S (GatewayDoInitialize values) w
        in Inr (g\<lparr>m_timeStart := timestamp\<rparr>, w1))
     else
       (let w1 = (if is_pending S (m_eventWait g) w then cancel_event S (m_eventWait g) w else w)
        in bind_res (time_checked (timestamp - m_timeStart g)) (\<lambda>pause.
           bind_res (time_checked (pause - sim_now S w1)) (\<lambda>timeDelta.
             if timeDelta < 0 then Inl (Fatal ''received timestamps were not increasing values'')
             else
               (let (e, w2) = sim_schedule S timeDelta (GatewayHandleUpdate values) w1
                in Inr (g\<lparr>m_timePause := pause\<rparr>, w2))))))"

definition ForwardUp ::
    "('x callback, 'w) sim_ops \<Rightarrow> gateway \<times> 'w \<Rightarrow> (gateway \<times> 'w) res" where
  "ForwardUp S = (\<lambda>(g, w).
     case m_messageQueue g of
       [] \<Rightarrow> Inl (Fatal ''Gateway::ForwardUp called without any queued messages'')
     | message # queue \<Rightarrow>
         (case split_fields (m_delimiterField g) message of
            None \<Rightarrow> Inl Diverges
          | Some values \<Rightarrow>
              bind_res (message_time values) (\<lambda>timestamp.
                process_message S timestamp (drop 2 values) (g\<lparr>m_messageQueue := queue\<rparr>, w))))"

text \<open>
  \<open>HandleUpdate\<close> ends with the virtual call \<open>DoUpdate(data)\<close>, which the derived class
  implements: the argument \<open>do_update\<close>, with the derived object's own state of type \<open>'u\<close>.
\<close>

definition HandleUpdate ::
    "('x callback, 'w) sim_ops \<Rightarrow>
     (string list \<Rightarrow> 'u \<times> gateway \<times> 'w \<Rightarrow> ('u \<times> gateway \<times> 'w) res) \<Rightarrow>
     string list \<Rightarrow> 'u \<times> gateway \<times> 'w \<Rightarrow> ('u \<times> gateway \<times> 'w) res" where
  "HandleUpdate S do_update data = (\<lambda>(u, g, w).
     let (g1, w1) =
       (if sim_now S w = m_timePause g
        then (let (e, w') = sim_schedule_now S GatewayWaitForNextUpdate w
              in (g\<lparr>m_eventWait := Some e\<rparr>, w'))
        else (g, w))
     in do_update data (u, g1, w1))"

end
