(* ===== verification/Gateway_System.thy ===== *)
theory Gateway_System
  imports Gateway
begin

text \<open>
  The gateway at run time: the receiving thread \<open>Gateway::RunThread\<close> next to the main thread,
  which executes the simulator's events. Each thread moves in atomic steps, and any order of the
  steps of the two is possible.
\<close>

section \<open>The derived class and the rest of the simulation\<close>

text \<open>
  \<open>do_initialize\<close> and \<open>do_update\<close> are the pure virtual functions of the class; \<open>other_event\<close>
  executes an event that is not the gateway's own. \<open>'u\<close> is the state of all of these.
\<close>

record ('x, 'u, 'w) gw_host =
  do_initialize :: "string list \<Rightarrow> 'u \<times> gateway \<times> 'w \<Rightarrow> ('u \<times> gateway \<times> 'w) res"
  do_update :: "string list \<Rightarrow> 'u \<times> gateway \<times> 'w \<Rightarrow> ('u \<times> gateway \<times> 'w) res"
  other_event :: "'x callback \<Rightarrow> 'u \<times> gateway \<times> 'w \<Rightarrow> ('u \<times> gateway \<times> 'w) res"

text \<open>The event loop's call of one event, other than \<open>Gateway::Stop\<close>, which can block.\<close>

definition dispatch ::
    "('x callback, 'w) sim_ops \<Rightarrow> ('x, 'u, 'w) gw_host \<Rightarrow> 'x callback \<Rightarrow>
     'u \<times> gateway \<times> 'w \<Rightarrow> ('u \<times> gateway \<times> 'w) res" where
  "dispatch S H c = (\<lambda>(u, g, w).
     case c of
       GatewayForwardUp \<Rightarrow> bind_res (ForwardUp S (g, w)) (\<lambda>gw. Inr (u, gw))
     | GatewayWaitForNextUpdate \<Rightarrow> Inr (u, WaitForNextUpdate S (g, w))
     | GatewayHandleUpdate data \<Rightarrow> HandleUpdate S (do_update H) data (u, g, w)
     | GatewayDoInitialize data \<Rightarrow> do_initialize H data (u, g, w)
     | _ \<Rightarrow> other_event H c (u, g, w))"

section \<open>State\<close>

text \<open>
  Where the receiving thread is: at the test of the outer loop, about to search
  \<open>receivedData\<close>, about to call \<open>recv\<close>, after leaving the inner loop without a message, about
  to push a message, about to schedule \<open>ForwardUp\<close>, and ended (with the data it drops).
\<close>

datatype thread_pc =
    T_Loop
  | T_Find string
  | T_Recv string
  | T_Lost string
  | T_Push string
  | T_Forward
  | T_Done string

text \<open>
  Where the main thread is: in \<open>Simulator::Run\<close>, in \<open>Simulator::Destroy\<close>, waiting in
  \<open>m_thread.join()\<close> (called from \<open>Destroy\<close> or not), or ended by a fault.
\<close>

datatype main_pc = Main_Run | Main_Destroy | Main_Join bool | Main_Failed fault

text \<open>The outcomes of \<open>recv\<close>: data, end of the connection, error.\<close>

datatype recv_result = Received string | Closed | Failed

text \<open>\<open>s_received\<close> and \<open>s_forwarded\<close> record all bytes received and all messages processed.\<close>

record ('u, 'w) gw_sys =
  s_user :: 'u
  s_gw :: gateway
  s_world :: 'w
  s_thread :: thread_pc
  s_main :: main_pc
  s_received :: string
  s_forwarded :: "string list"

definition BUFFER_SIZE :: nat where
  "BUFFER_SIZE = 4096"

definition recv_ok :: "recv_result \<Rightarrow> bool" where
  "recv_ok r = (case r of Received bs \<Rightarrow> bs \<noteq> [] \<and> length bs \<le> BUFFER_SIZE | _ \<Rightarrow> True)"

section \<open>The receiving thread\<close>

text \<open>
  One step of \<open>RunThread\<close>; \<open>r\<close> is what \<open>recv\<close> returns if this is the step that calls it.
  There is no step after the end of the function.
\<close>

definition thread_step ::
    "('x callback, 'w) sim_ops \<Rightarrow> recv_result \<Rightarrow> ('u, 'w) gw_sys \<Rightarrow> ('u, 'w) gw_sys option" where
  "thread_step S r s =
     (let g = s_gw s in
      case s_thread s of
        T_Loop \<Rightarrow>
          Some (if m_state g = CONNECTED then s\<lparr>s_thread := T_Find (m_messageBuffer g)\<rparr>
                else s\<lparr>s_thread := T_Done (m_messageBuffer g)\<rparr>)
      | T_Find receivedData \<Rightarrow>
          (case find_sub (m_delimiterMessage g) receivedData of
             None \<Rightarrow> Some (s\<lparr>s_thread := T_Recv receivedData\<rparr>)
           | Some messageSize \<Rightarrow>
               Some (s\<lparr>s_gw := g\<lparr>m_messageBuffer :=
                         drop (messageSize + length (m_delimiterMessage g)) receivedData\<rparr>,
                       s_thread := T_Push (take messageSize receivedData)\<rparr>))
      | T_Recv receivedData \<Rightarrow>
          (case r of
             Received bs \<Rightarrow>
               Some (s\<lparr>s_thread := T_Find (receivedData @ bs), s_received := s_received s @ bs\<rparr>)
           | _ \<Rightarrow> Some (s\<lparr>s_thread := T_Lost receivedData\<rparr>))
      | T_Lost receivedData \<Rightarrow>
          Some (s\<lparr>s_world := sim_schedule_with_context S (m_context g) 0 GatewayStop (s_world s),
                  s_thread := T_Done receivedData\<rparr>)
      | T_Push receivedMessage \<Rightarrow>
          Some (s\<lparr>s_gw := g\<lparr>m_messageQueue := m_messageQueue g @ [receivedMessage]\<rparr>,
                  s_thread := T_Forward\<rparr>)
      | T_Forward \<Rightarrow>
          Some (s\<lparr>s_world := sim_schedule_with_context S (m_context g) 0 GatewayForwardUp (s_world s),
                  s_thread := T_Loop\<rparr>)
      | T_Done _ \<Rightarrow> None)"

section \<open>The main thread\<close>

text \<open>
  \<open>Gateway::Stop\<close>, called in the event loop: it runs to its end unless it has to join the
  receiving thread; then it waits, and \<open>main_join\<close> below is its second half.
\<close>

definition main_stop ::
    "('x callback, 'w) sim_ops \<Rightarrow> 'w os_ops \<Rightarrow> ('u, 'w) gw_sys \<Rightarrow> ('u, 'w) gw_sys" where
  "main_stop S P s =
     (let (connected, g1) = Stop_signal (s_gw s) in
      if connected \<and> m_thread g1
      then s\<lparr>s_gw := g1, s_main := Main_Join (s_main s = Main_Destroy)\<rparr>
      else (let (g2, w2) = Stop_finish S P connected (g1, s_world s)
            in s\<lparr>s_gw := g2, s_world := w2\<rparr>))"

definition main_join ::
    "('x callback, 'w) sim_ops \<Rightarrow> 'w os_ops \<Rightarrow> bool \<Rightarrow> ('u, 'w) gw_sys \<Rightarrow> ('u, 'w) gw_sys" where
  "main_join S P destroying s =
     (let (g2, w2) = Stop_finish S P True (s_gw s, s_world s)
      in s\<lparr>s_gw := g2, s_world := w2, s_main := (if destroying then Main_Destroy else Main_Run)\<rparr>)"

definition main_event ::
    "('x callback, 'w) sim_ops \<Rightarrow> 'w os_ops \<Rightarrow> ('x, 'u, 'w) gw_host \<Rightarrow> 'x callback \<Rightarrow>
     ('u, 'w) gw_sys \<Rightarrow> ('u, 'w) gw_sys" where
  "main_event S P H c s =
     (if c = GatewayStop then main_stop S P s
      else case dispatch S H c (s_user s, s_gw s, s_world s) of
        Inl f \<Rightarrow> s\<lparr>s_main := Main_Failed f\<rparr>
      | Inr (u, g, w) \<Rightarrow>
          s\<lparr>s_user := u, s_gw := g, s_world := w,
            s_forwarded := s_forwarded s @
              (if c = GatewayForwardUp then take 1 (m_messageQueue (s_gw s)) else [])\<rparr>)"

section \<open>The interleaving\<close>

datatype gw_label = L_Thread | L_Recv recv_result | L_Event | L_End | L_Join

inductive gw_step ::
    "('x callback, 'w) sim_ops \<Rightarrow> 'w os_ops \<Rightarrow> ('x, 'u, 'w) gw_host \<Rightarrow>
     ('u, 'w) gw_sys \<Rightarrow> gw_label \<Rightarrow> ('u, 'w) gw_sys \<Rightarrow> bool"
  for S P H where
  thread: "\<forall>d. s_thread s \<noteq> T_Recv d \<Longrightarrow> thread_step S Closed s = Some s' \<Longrightarrow>
    \<forall>f. s_main s \<noteq> Main_Failed f \<Longrightarrow> gw_step S P H s L_Thread s'"
| recv: "s_thread s = T_Recv d \<Longrightarrow> recv_ok r \<Longrightarrow> thread_step S r s = Some s' \<Longrightarrow>
    \<forall>f. s_main s \<noteq> Main_Failed f \<Longrightarrow> gw_step S P H s (L_Recv r) s'"
| run: "s_main s = Main_Run \<Longrightarrow> sim_next S (s_world s) = Some (c, w) \<Longrightarrow>
    gw_step S P H s L_Event (main_event S P H c (s\<lparr>s_world := w\<rparr>))"
| run_end: "s_main s = Main_Run \<Longrightarrow> sim_next S (s_world s) = None \<Longrightarrow>
    gw_step S P H s L_End (s\<lparr>s_main := Main_Destroy\<rparr>)"
| destroy: "s_main s = Main_Destroy \<Longrightarrow> sim_next_destroy S (s_world s) = Some (c, w) \<Longrightarrow>
    gw_step S P H s L_Event (main_event S P H c (s\<lparr>s_world := w\<rparr>))"
| join: "s_main s = Main_Join b \<Longrightarrow> s_thread s = T_Done d \<Longrightarrow>
    gw_step S P H s L_Join (main_join S P b s)"

text \<open>The step relation is executable: a label determines at most one step.\<close>

definition main_alive :: "('u, 'w) gw_sys \<Rightarrow> bool" where
  "main_alive s = (case s_main s of Main_Failed _ \<Rightarrow> False | _ \<Rightarrow> True)"

definition gw_exec ::
    "('x callback, 'w) sim_ops \<Rightarrow> 'w os_ops \<Rightarrow> ('x, 'u, 'w) gw_host \<Rightarrow> gw_label \<Rightarrow>
     ('u, 'w) gw_sys \<Rightarrow> ('u, 'w) gw_sys option" where
  "gw_exec S P H l s =
     (case l of
        L_Thread \<Rightarrow>
          (case s_thread s of
             T_Recv _ \<Rightarrow> None
           | _ \<Rightarrow> if main_alive s then thread_step S Closed s else None)
      | L_Recv r \<Rightarrow>
          (case s_thread s of
             T_Recv _ \<Rightarrow> if recv_ok r \<and> main_alive s then thread_step S r s else None
           | _ \<Rightarrow> None)
      | L_Event \<Rightarrow>
          (case s_main s of
             Main_Run \<Rightarrow>
               map_option (\<lambda>(c, w). main_event S P H c (s\<lparr>s_world := w\<rparr>)) (sim_next S (s_world s))
           | Main_Destroy \<Rightarrow>
               map_option (\<lambda>(c, w). main_event S P H c (s\<lparr>s_world := w\<rparr>)) (sim_next_destroy S (s_world s))
           | _ \<Rightarrow> None)
      | L_End \<Rightarrow>
          (if s_main s = Main_Run \<and> sim_next S (s_world s) = None
           then Some (s\<lparr>s_main := Main_Destroy\<rparr>) else None)
      | L_Join \<Rightarrow>
          (case (s_main s, s_thread s) of
             (Main_Join b, T_Done _) \<Rightarrow> Some (main_join S P b s)
           | _ \<Rightarrow> None))"

lemma main_alive_iff: "main_alive s \<longleftrightarrow> (\<forall>f. s_main s \<noteq> Main_Failed f)"
  by (auto simp: main_alive_def split: main_pc.splits)

lemma gw_exec_step: "gw_exec S P H l s = Some s' \<Longrightarrow> gw_step S P H s l s'"
  by (auto simp: gw_exec_def main_alive_iff split: gw_label.splits thread_pc.splits main_pc.splits if_splits
      intro: gw_step.intros)

lemma gw_step_exec: "gw_step S P H s l s' \<Longrightarrow> gw_exec S P H l s = Some s'"
  by (induction rule: gw_step.induct)
    (auto simp: gw_exec_def main_alive_iff split: thread_pc.splits)

fun gw_execs ::
    "('x callback, 'w) sim_ops \<Rightarrow> 'w os_ops \<Rightarrow> ('x, 'u, 'w) gw_host \<Rightarrow> gw_label list \<Rightarrow>
     ('u, 'w) gw_sys \<Rightarrow> ('u, 'w) gw_sys option" where
  "gw_execs S P H [] s = Some s"
| "gw_execs S P H (l # ls) s =
     (case gw_exec S P H l s of None \<Rightarrow> None | Some s' \<Rightarrow> gw_execs S P H ls s')"

lemma gw_execs_append:
  "gw_execs S P H (ls @ ls') s =
     (case gw_execs S P H ls s of None \<Rightarrow> None | Some s' \<Rightarrow> gw_execs S P H ls' s')"
  by (induction ls arbitrary: s) (simp_all split: option.splits)

text \<open>
  The start: a gateway made by the constructor, with any values set, on which \<open>Connect\<close>
  succeeded. Before \<open>Connect\<close> nothing of the gateway is scheduled.
\<close>

definition gw_initial ::
    "('x callback, 'w) sim_ops \<Rightarrow> ('w \<Rightarrow> 'x callback calendar) \<Rightarrow> ('u \<Rightarrow> 'w \<Rightarrow> bool) \<Rightarrow> 'w os_ops \<Rightarrow>
     ('u, 'w) gw_sys \<Rightarrow> bool" where
  "gw_initial S cal valid P s \<longleftrightarrow>
     (\<exists>n df dm wn g0 ds w0 addr port.
        Gateway_new S n df dm wn = Inr g0 \<and> valid (s_user s) w0 \<and>
        (\<forall>v \<in> set (cal_events (cal w0)). \<not> gateway_callback (ev_call v)) \<and>
        (\<forall>v \<in> set (cal_destroy (cal w0)). \<not> gateway_callback (snd v)) \<and>
        Connect S P addr port (g0\<lparr>m_data := ds\<rparr>, w0) = Inr (s_gw s, s_world s)) \<and>
     s_thread s = T_Loop \<and> s_main s = Main_Run \<and> s_received s = [] \<and> s_forwarded s = []"

inductive gw_reachable ::
    "('x callback, 'w) sim_ops \<Rightarrow> ('w \<Rightarrow> 'x callback calendar) \<Rightarrow> ('u \<Rightarrow> 'w \<Rightarrow> bool) \<Rightarrow> 'w os_ops \<Rightarrow>
     ('x, 'u, 'w) gw_host \<Rightarrow> ('u, 'w) gw_sys \<Rightarrow> ('u, 'w) gw_sys \<Rightarrow> bool"
  for S cal valid P H where
  start: "gw_initial S cal valid P s \<Longrightarrow> gw_reachable S cal valid P H s s"
| step: "gw_reachable S cal valid P H s0 s \<Longrightarrow> gw_step S P H s l s' \<Longrightarrow>
    gw_reachable S cal valid P H s0 s'"

lemma gw_execs_reachable:
  "gw_reachable S cal valid P H s0 s \<Longrightarrow> gw_execs S P H ls s = Some s' \<Longrightarrow>
   gw_reachable S cal valid P H s0 s'"
proof (induction ls arbitrary: s)
  case (Cons l ls)
  then obtain s1 where "gw_exec S P H l s = Some s1" "gw_execs S P H ls s1 = Some s'"
    by (auto split: option.splits)
  with Cons gw_reachable.step[OF _ gw_exec_step] show ?case by blast
qed simp

section \<open>The contract of the derived class\<close>

text \<open>
  What C++ guarantees of code outside the class: it cannot touch the private members, except the
  response values through \<open>SetValue\<close>, and cannot schedule or cancel the private member
  functions; it may schedule, cancel and use anything of its own.
\<close>

abbreviation keeps_gateway :: "'x callback calendar \<Rightarrow> 'x callback calendar \<Rightarrow> bool" where
  "keeps_gateway \<equiv> keeps_events gateway_callback"

text \<open>
  \<open>valid u\<close> is the validity of the platform while the derived object is in the state \<open>u\<close>: it can
  relate the object to the calendar, for example by the event identifiers that the object holds,
  as long as the operations of the simulator and of the sockets keep it.
\<close>

locale gateway_host =
  fixes S :: "('x callback, 'w) sim_ops" and cal :: "'w \<Rightarrow> 'x callback calendar"
    and valid :: "'u \<Rightarrow> 'w \<Rightarrow> bool" and P :: "'w os_ops" and H :: "('x, 'u, 'w) gw_host"
  assumes platform: "gateway_platform S cal (valid u) P"
    and do_initialize: "valid u w \<Longrightarrow> do_initialize H data (u, g, w) = Inr (u', g', w') \<Longrightarrow>
      valid u' w' \<and> keeps_gateway (cal w) (cal w') \<and> (\<exists>ds. g' = g\<lparr>m_data := ds\<rparr>)"
    and do_update: "valid u w \<Longrightarrow> do_update H data (u, g, w) = Inr (u', g', w') \<Longrightarrow>
      valid u' w' \<and> keeps_gateway (cal w) (cal w') \<and> (\<exists>ds. g' = g\<lparr>m_data := ds\<rparr>)"
    and other_event: "valid u w \<Longrightarrow> \<not> gateway_callback c \<Longrightarrow>
      other_event H c (u, g, w) = Inr (u', g', w') \<Longrightarrow>
      valid u' w' \<and> keeps_gateway (cal w) (cal w') \<and> (\<exists>ds. g' = g\<lparr>m_data := ds\<rparr>)"
begin

text \<open>The contract of the simulator, for every state of the derived object.\<close>

lemma simulator: "event_simulator S cal (valid u)"
  using platform by (rule gateway_platform.axioms(1))

lemmas sim_ok = event_simulator.cal_ok[OF simulator]
lemmas sim_time = event_simulator.now[OF simulator]
lemmas sim_scheduled_now = event_simulator.schedule_now[OF simulator]
lemmas sim_scheduled_context = event_simulator.schedule_with_context[OF simulator]
lemmas sim_scheduled_destroy = event_simulator.schedule_destroy[OF simulator]
lemmas sim_next_event = event_simulator.next_Some[OF simulator]
lemmas sim_no_event = event_simulator.next_None[OF simulator]

end

end
