(* ===== verification/Simple_Server.thy ===== *)
theory Simple_Server
  imports Gateway_System
begin

text \<open>
  The server of \<open>examples/simple-gateway-server.cc\<close>, the leader of the co-simulation: the
  message that it builds for a time step, the movement of the vehicles, and its message loop. The
  accepted socket and the random numbers of the C library are a record of functions.
\<close>

section \<open>Messages\<close>

record server_state =
  xVelocity :: "u16 list"
  xPosition :: "u16 list"
  broadcast :: "u16 list"

definition server_init :: "u16 \<Rightarrow> server_state" where
  "server_init numberOfNodes =
     \<lparr>xVelocity = replicate (unat numberOfNodes) 0, xPosition = replicate (unat numberOfNodes) 0,
      broadcast = replicate (unat numberOfNodes) 0\<rparr>"

definition append_number :: "string \<Rightarrow> u16 \<Rightarrow> string" where
  "append_number message x = message @ '' '' @ to_string (unat x)"

text \<open>The loop that appends the vehicles to \<open>message\<close>; \<open>ns\<close> are the remaining loop counters.\<close>

fun append_vehicles :: "server_state \<Rightarrow> nat list \<Rightarrow> string \<Rightarrow> string" where
  "append_vehicles st [] message = message"
| "append_vehicles st (n # ns) message =
     (let position = append_number message (xPosition st ! n) @ '' '' @ to_string n @ '' 0'';
          velocity = append_number position (xVelocity st ! n) @ '' 0 0''
      in append_vehicles st ns (append_number velocity (broadcast st ! n)))"

text \<open>The message of a time step, with and without its end.\<close>

definition server_body :: "u16 \<Rightarrow> u32 \<Rightarrow> server_state \<Rightarrow> string" where
  "server_body numberOfNodes timeNow st =
     append_vehicles st [0..<unat numberOfNodes] (to_string (unat timeNow) @ '' 0'')"

definition server_message :: "u16 \<Rightarrow> u32 \<Rightarrow> server_state \<Rightarrow> string" where
  "server_message numberOfNodes timeNow st =
     server_body numberOfNodes timeNow st @ [CHR 0x0D, CHR 0x0A]"

definition terminate_message :: string where
  "terminate_message = ''-1 0'' @ [CHR 0x0D, CHR 0x0A]"

section \<open>The movement\<close>

text \<open>
  \<open>srv_rand\<close> is \<open>std::rand\<close>. A result of \<open>send\<close> below zero is an error; \<open>recv\<close> is as in
  the gateway.
\<close>

record 'w server_ops =
  srv_rand :: "'w \<Rightarrow> nat \<times> 'w"
  srv_send :: "string \<Rightarrow> 'w \<Rightarrow> int \<times> 'w"
  srv_recv :: "'w \<Rightarrow> recv_result \<times> 'w"

text \<open>
  One turn of the movement loop. The remainder is taken of an \<open>int\<close>, and a zero divisor is
  undefined; the sums are stored in 16 bits. The second random number is only drawn on a
  multiple of 5.
\<close>

definition move_vehicle ::
    "'w server_ops \<Rightarrow> u16 \<Rightarrow> u32 \<Rightarrow> nat \<Rightarrow> server_state \<times> 'w \<Rightarrow> (server_state \<times> 'w) res" where
  "move_vehicle R positionDeltaX i n = (\<lambda>(st, w).
     (let (r, w1) = srv_rand R w in
      if positionDeltaX = 0 then Inl Undefined
      else
        (let v = word_of_nat (r mod unat positionDeltaX + 1) :: u16;
             x = xPosition st ! n + v;
             (b, w2) =
               (if i mod 5 = 0
                then (let (r', w') = srv_rand R w1 in (if r' mod 2 = 0 then 1 else 0, w'))
                else (0, w1))
         in Inr (st\<lparr>xVelocity := (xVelocity st)[n := v], xPosition := (xPosition st)[n := x],
                     broadcast := (broadcast st)[n := b]\<rparr>, w2))))"

fun move_vehicles ::
    "'w server_ops \<Rightarrow> u16 \<Rightarrow> u32 \<Rightarrow> nat list \<Rightarrow> server_state \<times> 'w \<Rightarrow> (server_state \<times> 'w) res" where
  "move_vehicles R delta i [] s = Inr s"
| "move_vehicles R delta i (n # ns) s =
     bind_res (move_vehicle R delta i n s) (move_vehicles R delta i ns)"

section \<open>The loop\<close>

record server_config =
  timeStart :: u32
  timeDelta :: u32
  iterations :: u32
  numberOfNodes :: u16
  positionDeltaX :: u16

definition server_defaults :: server_config where
  "server_defaults = \<lparr>timeStart = 0, timeDelta = 1, iterations = 20, numberOfNodes = 3, positionDeltaX = 25\<rparr>"

definition server_time :: "server_config \<Rightarrow> u32 \<Rightarrow> u32" where
  "server_time cfg i = timeStart cfg + timeDelta cfg * i"

text \<open>
  The turn of the loop after \<open>recv\<close> has returned: the result says whether the loop goes on. A
  connection that the client closed ends the loop. Whatever bytes have come count as the response.
\<close>

definition server_after ::
    "'w server_ops \<Rightarrow> server_config \<Rightarrow> u32 \<Rightarrow> recv_result \<Rightarrow> server_state \<times> 'w \<Rightarrow>
     (bool \<times> server_state \<times> 'w) res" where
  "server_after R cfg i response = (\<lambda>(st, w).
     case response of
       Failed \<Rightarrow> Inl (Fatal ''failed to receive response'')
     | Closed \<Rightarrow> Inr (False, st, w)
     | Received _ \<Rightarrow>
         (if i = iterations cfg - 1 then
            (let (sent, w1) = srv_send R terminate_message w in
             if sent = -1 then Inl (Fatal ''failed to send a message'') else Inr (True, st, w1))
          else
            bind_res (move_vehicles R (positionDeltaX cfg) i [0..<unat (numberOfNodes cfg)] (st, w))
              (\<lambda>s. Inr (True, s))))"

text \<open>One turn of the loop.\<close>

definition server_turn ::
    "'w server_ops \<Rightarrow> server_config \<Rightarrow> u32 \<Rightarrow> server_state \<times> 'w \<Rightarrow> (bool \<times> server_state \<times> 'w) res" where
  "server_turn R cfg i = (\<lambda>(st, w).
     (let (sent, w1) = srv_send R (server_message (numberOfNodes cfg) (server_time cfg i) st) w in
      if sent = -1 then Inl (Fatal ''failed to send a message'')
      else (let (response, w2) = srv_recv R w1 in server_after R cfg i response (st, w2))))"

lemma counter_step: "\<not> n \<le> i \<Longrightarrow> unat n - unat (i + 1) < unat n - unat i" for n i :: u32
proof -
  assume "\<not> n \<le> i"
  then have i: "unat i < unat n" by (simp add: word_le_nat_alt)
  then have "unat i + 1 < 2 ^ 32" using unsigned_less[of n, where ?'a = nat] by simp
  then have "unat (i + 1) = unat i + 1" by (simp add: unat_word_ariths)
  with i show ?thesis by simp
qed

text \<open>The loop from the counter \<open>i\<close> on; the counter stops it, so the recursion ends.\<close>

function server_loop ::
    "'w server_ops \<Rightarrow> server_config \<Rightarrow> u32 \<Rightarrow> server_state \<times> 'w \<Rightarrow> (server_state \<times> 'w) res" where
  "server_loop R cfg i s =
     (if iterations cfg \<le> i then Inr s
      else bind_res (server_turn R cfg i s) (\<lambda>(more, s').
        if more then server_loop R cfg (i + 1) s' else Inr s'))"
  by pat_completeness auto

termination
  by (relation "measure (\<lambda>(R, cfg, i, s). unat (iterations cfg) - unat i)") (auto intro: counter_step)

declare server_loop.simps [simp del]

definition server_main ::
    "'w server_ops \<Rightarrow> server_config \<Rightarrow> 'w \<Rightarrow> (server_state \<times> 'w) res" where
  "server_main R cfg w = server_loop R cfg 0 (server_init (numberOfNodes cfg), w)"

section \<open>Lemmas\<close>

text \<open>The fields of a message.\<close>

definition vehicle_fields :: "server_state \<Rightarrow> nat \<Rightarrow> string list" where
  "vehicle_fields st n =
     [to_string (unat (xPosition st ! n)), to_string n, ''0'',
      to_string (unat (xVelocity st ! n)), ''0'', ''0'',
      to_string (unat (broadcast st ! n))]"

definition server_data :: "u16 \<Rightarrow> server_state \<Rightarrow> string list" where
  "server_data nodes st = concat (map (vehicle_fields st) [0..<unat nodes])"

definition server_fields :: "u16 \<Rightarrow> u32 \<Rightarrow> server_state \<Rightarrow> string list" where
  "server_fields nodes timeNow st = to_string (unat timeNow) # ''0'' # server_data nodes st"

lemma append_vehicles_eq:
  "append_vehicles st ns message =
     message @ concat (map (\<lambda>f. '' '' @ f) (concat (map (vehicle_fields st) ns)))"
  by (induction ns arbitrary: message) (simp_all add: append_number_def vehicle_fields_def Let_def)

lemma server_body_join: "server_body nodes timeNow st = join '' '' (server_fields nodes timeNow st)"
  by (simp add: server_body_def server_fields_def server_data_def append_vehicles_eq join_concat)

lemma to_string_0: "to_string 0 = ''0''"
  by code_simp

lemma server_fields_numbers: "f \<in> set (server_fields nodes timeNow st) \<Longrightarrow> \<exists>n. f = to_string n"
  by (auto simp: server_fields_def server_data_def vehicle_fields_def simp flip: to_string_0)

lemma server_data_length: "length (server_data nodes st) = 7 * unat nodes"
  by (simp add: server_data_def length_concat comp_def vehicle_fields_def sum_list_triv)

end
