(* ===== verification/Server_Run.thy ===== *)
theory Server_Run
  imports Simple_Server
begin

text \<open>
  A whole run of the server of \<open>examples/simple-gateway-server.cc\<close>: how the vehicles move, and what
  is sent over the connection when the client answers every message.
\<close>

section \<open>The movement of the vehicles\<close>

definition server_sized :: "u16 \<Rightarrow> server_state \<Rightarrow> bool" where
  "server_sized nodes st \<longleftrightarrow> length (xVelocity st) = unat nodes \<and> length (xPosition st) = unat nodes \<and>
     length (broadcast st) = unat nodes"

lemma server_init_sized [simp]: "server_sized nodes (server_init nodes)"
  by (simp add: server_sized_def server_init_def)

text \<open>Vehicle \<open>k\<close> in the turn \<open>i\<close> of the loop, from \<open>st\<close> to \<open>st'\<close>.\<close>

definition vehicle_moved :: "u16 \<Rightarrow> u32 \<Rightarrow> server_state \<Rightarrow> server_state \<Rightarrow> nat \<Rightarrow> bool" where
  "vehicle_moved delta i st st' k \<longleftrightarrow>
     1 \<le> xVelocity st' ! k \<and> xVelocity st' ! k \<le> delta \<and>
     xPosition st' ! k = xPosition st ! k + xVelocity st' ! k \<and>
     broadcast st' ! k \<le> 1 \<and> (i mod 5 \<noteq> 0 \<longrightarrow> broadcast st' ! k = 0)"

lemma random_velocity:
  fixes delta :: u16
  assumes "delta \<noteq> 0"
  shows "1 \<le> (word_of_nat (r mod unat delta + 1) :: u16) \<and> (word_of_nat (r mod unat delta + 1) :: u16) \<le> delta"
proof -
  define v where "v = r mod unat delta + 1"
  have "0 < unat delta" using assms by (simp add: unat_gt_0)
  then have le: "1 \<le> v" "v \<le> unat delta" by (simp_all add: v_def Suc_le_eq)
  then have "v < 2 ^ 16" using unsigned_less[of delta, where ?'a = nat] by simp
  then have "unat (word_of_nat v :: u16) = v" by (simp add: unat_of_nat take_bit_eq_mod)
  with le show ?thesis unfolding v_def[symmetric] by (simp add: word_le_nat_alt)
qed

lemma move_vehicle_Inr:
  assumes "delta \<noteq> 0" and "server_sized nodes st" and "n < unat nodes"
  shows "\<exists>st' w'. move_vehicle R delta i n (st, w) = Inr (st', w') \<and> server_sized nodes st' \<and>
    vehicle_moved delta i st st' n \<and>
    (\<forall>k. k \<noteq> n \<longrightarrow> xVelocity st' ! k = xVelocity st ! k \<and> xPosition st' ! k = xPosition st ! k \<and>
       broadcast st' ! k = broadcast st ! k)"
proof -
  obtain r w1 where r: "srv_rand R w = (r, w1)" by fastforce
  obtain r' w2 where r': "srv_rand R w1 = (r', w2)" by fastforce
  show ?thesis
    using assms random_velocity[OF assms(1), of r]
    by (auto simp: move_vehicle_def r r' Let_def server_sized_def vehicle_moved_def)
qed

lemma vehicle_moved_cong:
  assumes "xVelocity st1 ! k = xVelocity st2 ! k" "xPosition st1 ! k = xPosition st2 ! k"
    "broadcast st1 ! k = broadcast st2 ! k"
  shows "vehicle_moved delta i st st1 k = vehicle_moved delta i st st2 k"
    and "vehicle_moved delta i st1 st k = vehicle_moved delta i st2 st k"
  using assms by (simp_all add: vehicle_moved_def)

lemma move_vehicles_Inr:
  assumes "delta \<noteq> 0" and "server_sized nodes st" and "\<forall>n \<in> set ns. n < unat nodes" and "distinct ns"
  shows "\<exists>st' w'. move_vehicles R delta i ns (st, w) = Inr (st', w') \<and> server_sized nodes st' \<and>
    (\<forall>k \<in> set ns. vehicle_moved delta i st st' k) \<and>
    (\<forall>k. k \<notin> set ns \<longrightarrow> xVelocity st' ! k = xVelocity st ! k \<and> xPosition st' ! k = xPosition st ! k \<and>
       broadcast st' ! k = broadcast st ! k)"
  using assms(2-)
proof (induction ns arbitrary: st w)
  case (Cons n ns)
  from move_vehicle_Inr[OF assms(1) Cons.prems(1), of n R i w] Cons.prems(2) obtain st1 w1 where
    s1: "move_vehicle R delta i n (st, w) = Inr (st1, w1)" "server_sized nodes st1"
    "vehicle_moved delta i st st1 n"
    "\<forall>k. k \<noteq> n \<longrightarrow> xVelocity st1 ! k = xVelocity st ! k \<and> xPosition st1 ! k = xPosition st ! k \<and>
       broadcast st1 ! k = broadcast st ! k" by auto
  from Cons.IH[OF s1(2), of w1] Cons.prems obtain st' w' where
    s': "move_vehicles R delta i ns (st1, w1) = Inr (st', w')" "server_sized nodes st'"
    "\<forall>k \<in> set ns. vehicle_moved delta i st1 st' k"
    "\<forall>k. k \<notin> set ns \<longrightarrow> xVelocity st' ! k = xVelocity st1 ! k \<and> xPosition st' ! k = xPosition st1 ! k \<and>
       broadcast st' ! k = broadcast st1 ! k" by auto
  have "vehicle_moved delta i st st' k" if k: "k \<in> set (n # ns)" for k
  proof (cases "k = n")
    case True
    then have "k \<notin> set ns" using Cons.prems(3) by auto
    with s'(4) s1(3) True vehicle_moved_cong(1)[of st' k st1] show ?thesis by simp
  next
    case False
    with s'(3) k s1(4) vehicle_moved_cong(2)[of st k st1] show ?thesis by simp
  qed
  moreover have "xVelocity st' ! k = xVelocity st ! k \<and> xPosition st' ! k = xPosition st ! k \<and>
      broadcast st' ! k = broadcast st ! k" if "k \<notin> set (n # ns)" for k
    using that s'(4) s1(4) by simp
  ultimately show ?case using s1(1) s'(1,2) by simp
qed simp

section \<open>The loop with a client that answers\<close>

text \<open>
  \<open>sent\<close> is what has been given to \<open>send\<close>: the connection takes every message, and the random
  numbers do not touch it.
\<close>

locale server_link =
  fixes R :: "'w server_ops" and sent :: "'w \<Rightarrow> string list"
  assumes rand: "srv_rand R w = (r, w') \<Longrightarrow> sent w' = sent w"
    and send: "srv_send R m w = (k, w') \<Longrightarrow> k \<noteq> -1 \<and> sent w' = sent w @ [m]"
begin

lemma move_vehicle_sent: "move_vehicle R delta i n (st, w) = Inr (st', w') \<Longrightarrow> sent w' = sent w"
  by (auto simp: move_vehicle_def Let_def dest!: rand split: if_splits prod.splits)

lemma move_vehicles_sent: "move_vehicles R delta i ns (st, w) = Inr (st', w') \<Longrightarrow> sent w' = sent w"
proof (induction ns arbitrary: st w)
  case (Cons n ns)
  then obtain st1 w1 where "move_vehicle R delta i n (st, w) = Inr (st1, w1)"
    "move_vehicles R delta i ns (st1, w1) = Inr (st', w')" by auto
  with Cons.IH move_vehicle_sent show ?case by metis
qed simp

lemma server_after_Inr:
  assumes "positionDeltaX cfg \<noteq> 0" and "server_sized (numberOfNodes cfg) st"
  shows "\<exists>st' w'. server_after R cfg i (Received bytes) (st, w) = Inr (True, st', w') \<and>
    server_sized (numberOfNodes cfg) st' \<and>
    sent w' = sent w @ (if i = iterations cfg - 1 then [terminate_message] else []) \<and>
    (i \<noteq> iterations cfg - 1 \<longrightarrow>
      (\<forall>k < unat (numberOfNodes cfg). vehicle_moved (positionDeltaX cfg) i st st' k))"
proof (cases "i = iterations cfg - 1")
  case True
  obtain k w' where t: "srv_send R terminate_message w = (k, w')" by fastforce
  show ?thesis
    using send[OF t] assms(2) by (simp add: server_after_def t True[symmetric])
next
  case False
  have ns: "\<forall>n \<in> set [0..<unat (numberOfNodes cfg)]. n < unat (numberOfNodes cfg)" by simp
  from move_vehicles_Inr[OF assms ns, of R i w] obtain st' w' where
    m: "move_vehicles R (positionDeltaX cfg) i [0..<unat (numberOfNodes cfg)] (st, w) = Inr (st', w')"
    "server_sized (numberOfNodes cfg) st'"
    "\<forall>k < unat (numberOfNodes cfg). vehicle_moved (positionDeltaX cfg) i st st' k" by auto
  show ?thesis
    using False m move_vehicles_sent[OF m(1)] by (simp add: server_after_def)
qed

end

text \<open>The client answers every message.\<close>

locale server_client = server_link R sent
  for R :: "'w server_ops" and sent :: "'w \<Rightarrow> string list" +
  assumes recv: "srv_recv R w = (x, w') \<Longrightarrow> (\<exists>bytes. x = Received bytes) \<and> sent w' = sent w"
begin

lemma server_turn_Inr:
  assumes "positionDeltaX cfg \<noteq> 0" and "server_sized (numberOfNodes cfg) st"
  shows "\<exists>st' w'. server_turn R cfg i (st, w) = Inr (True, st', w') \<and>
    server_sized (numberOfNodes cfg) st' \<and>
    sent w' = sent w @ server_message (numberOfNodes cfg) (server_time cfg i) st #
      (if i = iterations cfg - 1 then [terminate_message] else []) \<and>
    (i \<noteq> iterations cfg - 1 \<longrightarrow>
      (\<forall>k < unat (numberOfNodes cfg). vehicle_moved (positionDeltaX cfg) i st st' k))"
proof -
  obtain k1 w1 where s: "srv_send R (server_message (numberOfNodes cfg) (server_time cfg i) st) w = (k1, w1)"
    by fastforce
  obtain x w2 where r: "srv_recv R w1 = (x, w2)" by fastforce
  from recv[OF r] obtain bytes where x: "srv_recv R w1 = (Received bytes, w2)" "sent w2 = sent w1"
    using r by blast
  from server_after_Inr[OF assms, of i bytes w2] show ?thesis
    using send[OF s] x(2) by (auto simp: server_turn_def s x(1))
qed

end

text \<open>The messages of the turns from \<open>j\<close> on, with the states that they are made of.\<close>

definition turn_messages :: "server_config \<Rightarrow> nat \<Rightarrow> server_state list \<Rightarrow> string list" where
  "turn_messages cfg j sts =
     map (\<lambda>(i, st). server_message (numberOfNodes cfg) (server_time cfg (of_nat i)) st) (enumerate j sts)"

definition turn_states :: "server_config \<Rightarrow> nat \<Rightarrow> server_state list \<Rightarrow> bool" where
  "turn_states cfg j sts \<longleftrightarrow>
     (\<forall>i. Suc i < length sts \<longrightarrow>
        (\<forall>k < unat (numberOfNodes cfg).
           vehicle_moved (positionDeltaX cfg) (of_nat (j + i)) (sts ! i) (sts ! Suc i) k))"

lemma turn_states_Cons:
  assumes "turn_states cfg (Suc j) (st' # sts)"
    and "\<forall>k < unat (numberOfNodes cfg). vehicle_moved (positionDeltaX cfg) (of_nat j) st st' k"
  shows "turn_states cfg j (st # st' # sts)"
  unfolding turn_states_def
proof (intro allI impI)
  fix i k
  assume "Suc i < length (st # st' # sts)" and k: "k < unat (numberOfNodes cfg)"
  with assms show "vehicle_moved (positionDeltaX cfg) (of_nat (j + i)) ((st # st' # sts) ! i) ((st # st' # sts) ! Suc i) k"
    by (cases i) (auto simp: turn_states_def)
qed

text \<open>
  The server after \<open>n\<close> turns of its loop from the counter \<open>i\<close> on: its vehicles and the rest of the
  program (\<open>None\<close> if one of the turns ends the loop or the program).
\<close>

fun server_turns ::
    "'w server_ops \<Rightarrow> server_config \<Rightarrow> u32 \<Rightarrow> nat \<Rightarrow> server_state \<times> 'w \<Rightarrow> (server_state \<times> 'w) option" where
  "server_turns R cfg i 0 s = Some s"
| "server_turns R cfg i (Suc n) s =
     (case server_turn R cfg i s of
        Inl _ \<Rightarrow> None
      | Inr (again, s') \<Rightarrow> if again then server_turns R cfg (i + 1) n s' else None)"

text \<open>\<open>sts\<close> are the states of the server at the beginning of each turn from \<open>i\<close> on.\<close>

definition states_of_turns ::
    "'w server_ops \<Rightarrow> server_config \<Rightarrow> u32 \<Rightarrow> server_state \<times> 'w \<Rightarrow> server_state list \<Rightarrow> bool" where
  "states_of_turns R cfg i s sts \<longleftrightarrow>
     (\<forall>k < length sts. \<exists>w. server_turns R cfg i k s = Some (sts ! k, w))"

lemma states_of_turns_Cons:
  assumes "server_turn R cfg i (st, w) = Inr (True, s')" and "states_of_turns R cfg (i + 1) s' sts"
  shows "states_of_turns R cfg i (st, w) (st # sts)"
  unfolding states_of_turns_def
proof (intro allI impI)
  fix k
  assume "k < length (st # sts)"
  with assms show "\<exists>w'. server_turns R cfg i k (st, w) = Some ((st # sts) ! k, w')"
    by (cases k) (auto simp: states_of_turns_def)
qed

context server_client begin

lemma server_loop_Inr:
  assumes "positionDeltaX cfg \<noteq> 0" and "server_sized (numberOfNodes cfg) st"
    and "unat i + n = unat (iterations cfg)"
  shows "\<exists>sts st' w'. server_loop R cfg i (st, w) = Inr (st', w') \<and> length sts = n \<and>
    (sts \<noteq> [] \<longrightarrow> hd sts = st) \<and> turn_states cfg (unat i) sts \<and>
    sent w' = sent w @ turn_messages cfg (unat i) sts @ (if n = 0 then [] else [terminate_message]) \<and>
    states_of_turns R cfg i (st, w) sts \<and> server_turns R cfg i n (st, w) = Some (st', w')"
  using assms(2,3)
proof (induction n arbitrary: i st w)
  case 0
  then have "iterations cfg \<le> i" by (simp add: word_le_nat_alt)
  then show ?case
    by (simp add: server_loop.simps turn_states_def turn_messages_def states_of_turns_def)
next
  case (Suc n)
  then have lt: "unat i < unat (iterations cfg)" by simp
  then have go: "\<not> iterations cfg \<le> i" by (simp add: word_le_nat_alt)
  have "unat i + 1 < 2 ^ 32" using lt unsigned_less[of "iterations cfg", where ?'a = nat] by simp
  then have i1: "unat (i + 1) = Suc (unat i)" by (simp add: unat_word_ariths)
  have pos: "unat (iterations cfg - 1) = unat (iterations cfg) - 1"
    using lt by (intro unat_minus_one) auto
  have last: "i = iterations cfg - 1 \<longleftrightarrow> n = 0"
    using Suc.prems(2) pos by (auto simp: word_unat_eq_iff)
  from server_turn_Inr[OF assms(1) Suc.prems(1), of i w] obtain st1 w1 where
    t: "server_turn R cfg i (st, w) = Inr (True, st1, w1)" "server_sized (numberOfNodes cfg) st1"
    "sent w1 = sent w @ server_message (numberOfNodes cfg) (server_time cfg i) st #
      (if i = iterations cfg - 1 then [terminate_message] else [])"
    "i \<noteq> iterations cfg - 1 \<longrightarrow>
      (\<forall>k < unat (numberOfNodes cfg). vehicle_moved (positionDeltaX cfg) i st st1 k)" by blast
  from Suc.IH[OF t(2), of "i + 1" w1] Suc.prems(2) i1 obtain sts st' w' where
    l: "server_loop R cfg (i + 1) (st1, w1) = Inr (st', w')" "length sts = n"
    "sts \<noteq> [] \<longrightarrow> hd sts = st1" "turn_states cfg (Suc (unat i)) sts"
    "sent w' = sent w1 @ turn_messages cfg (Suc (unat i)) sts @ (if n = 0 then [] else [terminate_message])"
    "states_of_turns R cfg (i + 1) (st1, w1) sts" "server_turns R cfg (i + 1) n (st1, w1) = Some (st', w')"
    by auto
  have run: "server_loop R cfg i (st, w) = Inr (st', w')"
    by (subst server_loop.simps) (simp add: go t(1) l(1))
  have states: "turn_states cfg (unat i) (st # sts)"
  proof (cases sts)
    case Nil
    then show ?thesis by (simp add: turn_states_def)
  next
    case (Cons x xs)
    with l(2,3) last t(4) have "x = st1" "\<forall>k < unat (numberOfNodes cfg).
        vehicle_moved (positionDeltaX cfg) (of_nat (unat i)) st st1 k" by auto
    with l(4) Cons show ?thesis by (auto intro: turn_states_Cons)
  qed
  have "sent w' = sent w @ turn_messages cfg (unat i) (st # sts) @ [terminate_message]"
    using l(2,5) t(3) last by (cases "n = 0") (auto simp: turn_messages_def)
  with run states l(2,7) t(1) states_of_turns_Cons[OF t(1) l(6)] show ?case
    by (intro exI[of _ "st # sts"]) simp
qed

lemma server_main_Inr:
  assumes "positionDeltaX cfg \<noteq> 0"
  shows "\<exists>sts st' w'. server_main R cfg w = Inr (st', w') \<and> length sts = unat (iterations cfg) \<and>
    (sts \<noteq> [] \<longrightarrow> hd sts = server_init (numberOfNodes cfg)) \<and> turn_states cfg 0 sts \<and>
    sent w' = sent w @ turn_messages cfg 0 sts @ (if iterations cfg = 0 then [] else [terminate_message]) \<and>
    states_of_turns R cfg 0 (server_init (numberOfNodes cfg), w) sts \<and>
    server_turns R cfg 0 (unat (iterations cfg)) (server_init (numberOfNodes cfg), w) = Some (st', w')"
  using server_loop_Inr[OF assms server_init_sized, of 0 "unat (iterations cfg)" w]
  by (auto simp: server_main_def unat_eq_0)

end

text \<open>A client that answers every message, and random numbers from a list.\<close>

definition ref_server :: "(nat list \<times> string list) server_ops" where
  "ref_server =
     \<lparr>srv_rand = (\<lambda>(rs, out). case rs of [] \<Rightarrow> (0, ([], out)) | r # rs' \<Rightarrow> (r, (rs', out))),
      srv_send = (\<lambda>m (rs, out). (int (length m), (rs, out @ [m]))),
      srv_recv = (\<lambda>s. (Received ''0'', s))\<rparr>"

interpretation ref_link: server_link ref_server snd
  by unfold_locales (auto simp: ref_server_def split: list.splits)

interpretation ref_server: server_client ref_server snd
  by unfold_locales (auto simp: ref_server_def split: list.splits)

end
