(* ===== verification/Server_Steps.thy ===== *)
theory Server_Steps
  imports Server_Run
begin

text \<open>
  The message loop of \<open>examples/simple-gateway-server.cc\<close> in atomic steps, between which the gateway
  can run: each step is the code from one call of \<open>send\<close> or \<open>recv\<close> to the next. Driven by a client
  they are the loop of \<open>Simple_Server\<close>.
\<close>

section \<open>Steps\<close>

text \<open>
  At the test of the loop, in \<open>recv\<close>, after the loop, or ended by a fault; the number is the loop
  counter.
\<close>

datatype server_pc = Sv_Send u32 | Sv_Recv u32 | Sv_Done | Sv_Failed fault

text \<open>\<open>response\<close> is what \<open>recv\<close> returns if this is the step that returns from it.\<close>

definition server_step ::
    "'w server_ops \<Rightarrow> server_config \<Rightarrow> recv_result \<Rightarrow> server_pc \<times> server_state \<times> 'w \<Rightarrow>
     (server_pc \<times> server_state \<times> 'w) option" where
  "server_step R cfg response = (\<lambda>(pc, st, w).
     case pc of
       Sv_Send i \<Rightarrow>
         Some (if iterations cfg \<le> i then (Sv_Done, st, w)
           else (let (sent, w1) = srv_send R (server_message (numberOfNodes cfg) (server_time cfg i) st) w in
             if sent = -1 then (Sv_Failed (Fatal ''failed to send a message''), st, w1)
             else (Sv_Recv i, st, w1)))
     | Sv_Recv i \<Rightarrow>
         Some (case server_after R cfg i response (st, w) of
           Inl f \<Rightarrow> (Sv_Failed f, st, w)
         | Inr (again, st', w') \<Rightarrow> (if again then Sv_Send (i + 1) else Sv_Done, st', w'))
     | _ \<Rightarrow> None)"

text \<open>At most \<open>n\<close> steps with the client of \<open>R\<close>.\<close>

fun server_drive ::
    "'w server_ops \<Rightarrow> server_config \<Rightarrow> nat \<Rightarrow> server_pc \<times> server_state \<times> 'w \<Rightarrow> server_pc \<times> server_state \<times> 'w"
where
  "server_drive R cfg 0 s = s"
| "server_drive R cfg (Suc n) (pc, st, w) =
     (let (response, w') = (case pc of Sv_Recv _ \<Rightarrow> srv_recv R w | _ \<Rightarrow> (Closed, w)) in
      case server_step R cfg response (pc, st, w') of
        None \<Rightarrow> (pc, st, w)
      | Some s' \<Rightarrow> server_drive R cfg n s')"

section \<open>The steps are the loop\<close>

text \<open>The result of the function in a final state of the steps.\<close>

definition server_result :: "server_pc \<times> server_state \<times> 'w \<Rightarrow> (server_state \<times> 'w) res option" where
  "server_result = (\<lambda>(pc, st, w).
     case pc of Sv_Done \<Rightarrow> Some (Inr (st, w)) | Sv_Failed f \<Rightarrow> Some (Inl f) | _ \<Rightarrow> None)"

lemma server_drive_final [simp]:
  "server_drive R cfg n (Sv_Done, st, w) = (Sv_Done, st, w)"
  "server_drive R cfg n (Sv_Failed f, st, w) = (Sv_Failed f, st, w)"
  by (cases n; simp add: server_step_def)+

lemma server_drive_turn:
  assumes "\<not> iterations cfg \<le> i"
  shows "(case server_turn R cfg i (st, w) of
      Inl f \<Rightarrow> server_result (server_drive R cfg (Suc (Suc n)) (Sv_Send i, st, w)) = Some (Inl f)
    | Inr (again, st', w') \<Rightarrow> server_drive R cfg (Suc (Suc n)) (Sv_Send i, st, w) =
        server_drive R cfg n (if again then Sv_Send (i + 1) else Sv_Done, st', w'))"
proof -
  obtain k w1 where s: "srv_send R (server_message (numberOfNodes cfg) (server_time cfg i) st) w = (k, w1)"
    by fastforce
  obtain x w2 where r: "srv_recv R w1 = (x, w2)" by fastforce
  show ?thesis
    using assms by (auto simp: server_turn_def server_step_def server_result_def s r split: sum.split)
qed

lemma server_drive_loop:
  "2 * (unat (iterations cfg) - unat i) < n \<Longrightarrow>
   server_result (server_drive R cfg n (Sv_Send i, st, w)) = Some (server_loop R cfg i (st, w))"
proof (induction "unat (iterations cfg) - unat i" arbitrary: i st w n rule: less_induct)
  case less
  obtain m where n: "n = Suc m" using less.prems by (cases n) auto
  show ?case
  proof (cases "iterations cfg \<le> i")
    case True
    then show ?thesis by (simp add: n server_step_def server_result_def server_loop.simps)
  next
    case False
    then have lt: "unat i < unat (iterations cfg)" by (simp add: word_le_nat_alt)
    with less.prems n obtain k where k: "n = Suc (Suc k)" by (cases m) auto
    have i1: "unat (iterations cfg) - unat (i + 1) < unat (iterations cfg) - unat i"
      by (rule counter_step[OF False])
    then have fuel: "2 * (unat (iterations cfg) - unat (i + 1)) < k" using less.prems k by simp
    note turn = server_drive_turn[OF False, where R = R and st = st and w = w and n = k, folded k]
    show ?thesis
    proof (cases "server_turn R cfg i (st, w)")
      case (Inl f)
      with turn False show ?thesis by (simp add: server_loop.simps[of R cfg i])
    next
      case (Inr q)
      obtain again st' w' where q: "q = (again, st', w')" by (cases q)
      from turn Inr q have d: "server_drive R cfg n (Sv_Send i, st, w) =
          server_drive R cfg k (if again then Sv_Send (i + 1) else Sv_Done, st', w')" by simp
      show ?thesis
      proof (cases again)
        case True
        with less.hyps[OF i1 fuel, of st' w'] d Inr q False show ?thesis
          by (simp add: server_loop.simps[of R cfg i])
      next
        case stop: False
        with d Inr q False show ?thesis by (simp add: server_loop.simps[of R cfg i] server_result_def)
      qed
    qed
  qed
qed

text \<open>The atomic steps of the server, driven by any client, compute what its loop computes: after at most
  two steps for each iteration and one for the end of the loop they have the result of the
  whole function, a fault included. So what is proved of the interleaved steps is about this code.\<close>

theorem server_steps_are_the_loop:
  "server_result (server_drive R cfg (Suc (2 * unat (iterations cfg)))
     (Sv_Send 0, server_init (numberOfNodes cfg), w)) = Some (server_main R cfg w)"
  unfolding server_main_def by (rule server_drive_loop) simp

section \<open>What has been sent\<close>

text \<open>
  The server at any step of a run over a connection that takes all messages: the messages of the
  turns that have begun, made of the states \<open>sts\<close>, and the terminate message if \<open>ended\<close>.
\<close>

definition server_inv ::
    "('w \<Rightarrow> string list) \<Rightarrow> server_config \<Rightarrow> server_state list \<Rightarrow> bool \<Rightarrow> server_pc \<times> server_state \<times> 'w \<Rightarrow> bool"
where
  "server_inv sent cfg sts ended = (\<lambda>(pc, st, w).
     sent w = turn_messages cfg 0 sts @ (if ended then [terminate_message] else []) \<and>
     server_sized (numberOfNodes cfg) st \<and> length sts \<le> unat (iterations cfg) \<and>
     (ended \<longrightarrow> length sts = unat (iterations cfg)) \<and>
     (case pc of
        Sv_Send i \<Rightarrow> length sts = unat i \<and> (ended \<longleftrightarrow> i = iterations cfg \<and> i \<noteq> 0)
      | Sv_Recv i \<Rightarrow> length sts = Suc (unat i) \<and> \<not> ended
      | Sv_Done \<Rightarrow> True
      | Sv_Failed _ \<Rightarrow> False))"

lemma turn_messages_snoc:
  "turn_messages cfg 0 (sts @ [st]) =
     turn_messages cfg 0 sts @ [server_message (numberOfNodes cfg) (server_time cfg (of_nat (length sts))) st]"
  by (simp add: turn_messages_def enumerate_append_eq)

context server_link begin

lemma server_step_send:
  assumes inv: "server_inv sent cfg sts ended (Sv_Send i, st, w)"
    and run: "server_step R cfg x (Sv_Send i, st, w) = Some (pc', st', w')"
  shows "if iterations cfg \<le> i
    then pc' = Sv_Done \<and> st' = st \<and> w' = w \<and> server_inv sent cfg sts ended (pc', st', w') \<and>
      length sts = unat (iterations cfg) \<and> (ended \<longleftrightarrow> iterations cfg \<noteq> 0)
    else pc' = Sv_Recv i \<and> server_inv sent cfg (sts @ [st]) False (pc', st', w')"
proof (cases "iterations cfg \<le> i")
  case True
  from inv have "length sts = unat i" "length sts \<le> unat (iterations cfg)"
    and e: "ended \<longleftrightarrow> i = iterations cfg \<and> i \<noteq> 0" by (simp_all add: server_inv_def)
  with True have i: "i = iterations cfg" by (simp add: word_le_nat_alt word_unat_eq_iff)
  with True inv e run show ?thesis by (simp add: server_step_def server_inv_def)
next
  case False
  then have lt: "unat i < unat (iterations cfg)" by (simp add: word_le_nat_alt)
  then have ne: "\<not> ended" using inv by (auto simp: server_inv_def)
  obtain k w1 where s: "srv_send R (server_message (numberOfNodes cfg) (server_time cfg i) st) w = (k, w1)"
    by fastforce
  have r: "pc' = Sv_Recv i" "st' = st" "w' = w1" using run False s send[OF s] by (simp_all add: server_step_def)
  have "length sts = unat i" using inv by (simp add: server_inv_def)
  then have "of_nat (length sts) = i" by simp
  with False lt ne inv r send[OF s] show ?thesis by (simp add: server_inv_def turn_messages_snoc)
qed

lemma server_step_recv:
  assumes inv: "server_inv sent cfg sts ended (Sv_Recv i, st, w)" and cfg: "positionDeltaX cfg \<noteq> 0"
    and run: "server_step R cfg (Received bytes) (Sv_Recv i, st, w) = Some (pc', st', w')"
  shows "pc' = Sv_Send (i + 1) \<and> unat (i + 1) = Suc (unat i) \<and> length sts = Suc (unat i) \<and>
    server_inv sent cfg sts (i = iterations cfg - 1) (pc', st', w')"
proof -
  from inv have sz: "server_sized (numberOfNodes cfg) st" and len: "length sts = Suc (unat i)"
    and le: "length sts \<le> unat (iterations cfg)" and ne: "\<not> ended"
    and sent_w: "sent w = turn_messages cfg 0 sts" by (simp_all add: server_inv_def)
  from server_after_Inr[OF cfg sz, of i bytes w] obtain st1 w1 where
    a: "server_after R cfg i (Received bytes) (st, w) = Inr (True, st1, w1)"
      "server_sized (numberOfNodes cfg) st1"
      "sent w1 = sent w @ (if i = iterations cfg - 1 then [terminate_message] else [])" by blast
  have r: "pc' = Sv_Send (i + 1)" "st' = st1" "w' = w1" using run a(1) by (simp_all add: server_step_def)
  have "unat i + 1 < 2 ^ 32" using len le unsigned_less[of "iterations cfg", where ?'a = nat] by simp
  then have i1: "unat (i + 1) = Suc (unat i)" by (simp add: unat_word_ariths)
  have last: "i = iterations cfg - 1 \<longleftrightarrow> i + 1 = iterations cfg" by (auto simp: eq_diff_eq)
  have "i + 1 = iterations cfg \<longrightarrow> i + 1 \<noteq> 0" using i1 by (auto simp: word_unat_eq_iff simp del: unat_plus_if')
  moreover have "i + 1 = iterations cfg \<longrightarrow> length sts = unat (iterations cfg)" using i1 len by auto
  ultimately show ?thesis using r i1 len le a(2,3) sent_w unfolding server_inv_def by (auto simp: last)
qed

text \<open>The connection is closed by the gateway.\<close>

lemma server_step_closed:
  assumes "server_inv sent cfg sts ended (Sv_Recv i, st, w)"
    and "server_step R cfg Closed (Sv_Recv i, st, w) = Some (pc', st', w')"
  shows "pc' = Sv_Done \<and> server_inv sent cfg sts ended (pc', st', w')"
  using assms by (auto simp: server_step_def server_after_def server_inv_def)

lemma server_inv_start: "sent w = [] \<Longrightarrow> server_inv sent cfg [] False (Sv_Send 0, server_init (numberOfNodes cfg), w)"
  by (simp add: server_inv_def turn_messages_def)

end

end
