(* ===== verification/Gateway_Invariants.thy ===== *)
theory Gateway_Invariants
  imports Gateway_System
begin

text \<open>
  The invariant of the running gateway: who owns the two event identifiers, one pending
  \<open>ForwardUp\<close> for each queued message, the pacing of simulation time, and the correspondence
  between the received bytes and the messages.
\<close>

section \<open>Predicates on the calendar\<close>

definition wait_owned :: "event_id option \<Rightarrow> 'x callback calendar \<Rightarrow> bool" where
  "wait_owned i k \<longleftrightarrow>
     (\<forall>e. i = Some e \<longrightarrow> e \<in> cal_used k \<and> e \<notin> fst ` set (cal_destroy k) \<and>
        (\<forall>v \<in> set (cal_events k). ev_id v = e \<longrightarrow> ev_call v = GatewayWaitForNextUpdate))"

definition destroy_owned :: "event_id option \<Rightarrow> 'x callback calendar \<Rightarrow> bool" where
  "destroy_owned i k \<longleftrightarrow>
     (\<forall>e. i = Some e \<longrightarrow> e \<in> cal_used k \<and> e \<notin> ev_id ` set (cal_events k))"

text \<open>Of the gateway's functions, only \<open>Stop\<close> is scheduled for the end of the simulation.\<close>

definition destroy_only_stop :: "'x callback calendar \<Rightarrow> bool" where
  "destroy_only_stop k \<longleftrightarrow>
     (\<forall>v \<in> set (cal_destroy k). gateway_callback (snd v) \<longrightarrow> snd v = GatewayStop)"

definition forward_count :: "'x callback calendar \<Rightarrow> nat" where
  "forward_count k = length (filter (\<lambda>v. ev_call v = GatewayForwardUp) (cal_events k))"

text \<open>Time stands still: a \<open>WaitForNextUpdate\<close> is pending for the current time.\<close>

definition frozen :: "'x callback calendar \<Rightarrow> bool" where
  "frozen k \<longleftrightarrow>
     (\<exists>v \<in> set (cal_events k). ev_call v = GatewayWaitForNextUpdate \<and> ev_time v = cal_now k)"

text \<open>Time may run up to \<open>p\<close>, where a \<open>HandleUpdate\<close> is pending.\<close>

definition granted :: "time \<Rightarrow> 'x callback calendar \<Rightarrow> bool" where
  "granted p k \<longleftrightarrow> cal_now k \<le> p \<and>
     (\<exists>v \<in> set (cal_events k). (\<exists>d. ev_call v = GatewayHandleUpdate d) \<and> ev_time v = p)"

definition gw_ok :: "time \<Rightarrow> nat \<Rightarrow> gateway \<Rightarrow> 'x callback calendar \<Rightarrow> bool" where
  "gw_ok t0 extra g k \<longleftrightarrow>
     wait_owned (m_eventWait g) k \<and> destroy_owned (m_eventDestroy g) k \<and>
     destroy_only_stop k \<and>
     length (m_messageQueue g) = forward_count k + extra \<and>
     (m_state g = CONNECTED \<longrightarrow>
        (frozen k \<or> granted (m_timePause g) k) \<and> (cal_now k \<le> m_timePause g \<or> cal_now k = t0))"

text \<open>The same between the removal of the event \<open>c\<close> from the calendar and its execution.\<close>

definition gw_popped :: "time \<Rightarrow> nat \<Rightarrow> 'x callback \<Rightarrow> gateway \<Rightarrow> 'x callback calendar \<Rightarrow> bool" where
  "gw_popped t0 extra c g k \<longleftrightarrow>
     wait_owned (m_eventWait g) k \<and> destroy_owned (m_eventDestroy g) k \<and>
     destroy_only_stop k \<and>
     length (m_messageQueue g) = forward_count k + (if c = GatewayForwardUp then 1 else 0) + extra \<and>
     (m_state g = CONNECTED \<longrightarrow>
        (frozen k \<or> granted (m_timePause g) k \<or> c = GatewayWaitForNextUpdate \<or>
         (\<exists>d. c = GatewayHandleUpdate d) \<and> cal_now k = m_timePause g) \<and>
        (cal_now k \<le> m_timePause g \<or> cal_now k = t0))"

lemmas gw_calendar_defs =
  wait_owned_def destroy_owned_def destroy_only_stop_def frozen_def granted_def

section \<open>Effect of the calendar's operations\<close>

lemma forward_count_schedule [simp]:
  "forward_count (cal_schedule e d c k) = forward_count k + (if c = GatewayForwardUp then 1 else 0)"
  by (simp add: forward_count_def cal_schedule_def length_filter_place)

lemma wait_owned_schedule [simp]:
  "wait_owned i k \<Longrightarrow> e \<notin> cal_used k \<Longrightarrow> wait_owned i (cal_schedule e d c k)"
  by (auto simp: wait_owned_def)

lemma destroy_owned_schedule [simp]:
  "destroy_owned i k \<Longrightarrow> e \<notin> cal_used k \<Longrightarrow> destroy_owned i (cal_schedule e d c k)"
  by (auto simp: destroy_owned_def)

lemma destroy_only_stop_schedule [simp]:
  "destroy_only_stop (cal_schedule e d c k) = destroy_only_stop k"
  by (simp add: destroy_only_stop_def)

lemma wait_owned_new:
  assumes "cal_ok k" and "e \<notin> cal_used k"
  shows "wait_owned (Some e) (cal_schedule e d GatewayWaitForNextUpdate k)"
proof -
  have "e \<notin> ev_id ` set (cal_events k)" and "e \<notin> fst ` set (cal_destroy k)"
    using assms unfolding cal_ok_iff by blast+
  then show ?thesis by (force simp: wait_owned_def)
qed

lemma frozen_schedule [simp]: "frozen k \<Longrightarrow> frozen (cal_schedule e d c k)"
  by (auto simp: frozen_def)

lemma frozen_wait [simp]: "frozen (cal_schedule e 0 GatewayWaitForNextUpdate k)"
  by (simp add: frozen_def)

lemma granted_schedule [simp]: "granted p k \<Longrightarrow> granted p (cal_schedule e d c k)"
  by (auto simp: granted_def)

lemma granted_new: "0 \<le> d \<Longrightarrow> granted (cal_now k + d) (cal_schedule e d (GatewayHandleUpdate data) k)"
  by (simp add: granted_def)

text \<open>Cancelling the wait event, or nothing.\<close>

definition cal_cancel_opt :: "event_id option \<Rightarrow> 'c calendar \<Rightarrow> 'c calendar" where
  "cal_cancel_opt i k = (case i of None \<Rightarrow> k | Some e \<Rightarrow> cal_cancel e k)"

lemma cal_cancel_opt_simps [simp]:
  "cal_now (cal_cancel_opt i k) = cal_now k"
  "cal_used (cal_cancel_opt i k) = cal_used k"
  "cal_stopped (cal_cancel_opt i k) = cal_stopped k"
  by (simp_all add: cal_cancel_opt_def split: option.splits)

lemma cal_cancel_opt_subset:
  "set (cal_events (cal_cancel_opt i k)) \<subseteq> set (cal_events k)"
  "set (cal_destroy (cal_cancel_opt i k)) \<subseteq> set (cal_destroy k)"
  by (auto simp: cal_cancel_opt_def split: option.splits)

lemma wait_owned_cancel [simp]: "wait_owned i k \<Longrightarrow> wait_owned i (cal_cancel_opt j k)"
  by (auto simp: wait_owned_def cal_cancel_opt_def split: option.splits)

lemma destroy_owned_cancel [simp]: "destroy_owned i k \<Longrightarrow> destroy_owned i (cal_cancel_opt j k)"
  by (auto simp: destroy_owned_def cal_cancel_opt_def split: option.splits)

lemma destroy_only_stop_cancel [simp]: "destroy_only_stop k \<Longrightarrow> destroy_only_stop (cal_cancel_opt j k)"
  by (auto simp: destroy_only_stop_def cal_cancel_opt_def split: option.splits)

lemma forward_count_cancel_wait [simp]:
  "wait_owned i k \<Longrightarrow> forward_count (cal_cancel_opt i k) = forward_count k"
  by (cases i) (auto simp: forward_count_def cal_cancel_opt_def wait_owned_def
      intro!: arg_cong[where f = length] filter_cong)

lemma forward_count_cancel_destroy:
  "destroy_owned i k \<Longrightarrow> forward_count (cal_cancel_opt i k) = forward_count k"
  by (cases i) (auto simp: forward_count_def cal_cancel_opt_def destroy_owned_def
      intro!: arg_cong[where f = length] filter_cong)

lemma cal_stopped_update [simp]:
  "wait_owned i (k\<lparr>cal_stopped := b\<rparr>) = wait_owned i k"
  "destroy_owned i (k\<lparr>cal_stopped := b\<rparr>) = destroy_owned i k"
  "destroy_only_stop (k\<lparr>cal_stopped := b\<rparr>) = destroy_only_stop k"
  "forward_count (k\<lparr>cal_stopped := b\<rparr>) = forward_count k"
  "frozen (k\<lparr>cal_stopped := b\<rparr>) = frozen k"
  "granted p (k\<lparr>cal_stopped := b\<rparr>) = granted p k"
  by (simp_all add: gw_calendar_defs forward_count_def)

section \<open>Effect of foreign code\<close>

lemma same_data: "\<exists>ds. g = g\<lparr>m_data := ds\<rparr>"
  by (rule exI[of _ "m_data g"]) simp

lemma data_trans: "\<exists>ds. g2 = g1\<lparr>m_data := ds\<rparr> \<Longrightarrow> \<exists>ds. g1 = g\<lparr>m_data := ds\<rparr> \<Longrightarrow> \<exists>ds. g2 = g\<lparr>m_data := ds\<rparr>"
  by auto

lemma keeps_gateway_frozen: "keeps_gateway k k' \<Longrightarrow> frozen k \<Longrightarrow> frozen k'"
  by (force simp: frozen_def keeps_events_event)

lemma keeps_gateway_granted: "keeps_gateway k k' \<Longrightarrow> granted p k \<Longrightarrow> granted p k'"
  by (force simp: granted_def keeps_events_event)

lemma keeps_gateway_forward_count:
  assumes "keeps_gateway k k'"
  shows "forward_count k' = forward_count k"
proof -
  have "filter (\<lambda>v. ev_call v = GatewayForwardUp) vs =
        filter (\<lambda>v. ev_call v = GatewayForwardUp) (filter (\<lambda>v. gateway_callback (ev_call v)) vs)"
    for vs :: "'x callback event list"
    by (rule filter_absorb[symmetric]) auto
  then show ?thesis
    using assms unfolding forward_count_def keeps_events_def by metis
qed

lemma keeps_gateway_wait_owned:
  assumes kg: "keeps_gateway k k'" and own: "wait_owned i k"
  shows "wait_owned i k'"
  unfolding wait_owned_def
proof (intro allI impI conjI ballI)
  fix e
  assume "i = Some e"
  with own have e: "e \<in> cal_used k" "e \<notin> fst ` set (cal_destroy k)"
    and w: "\<And>v. v \<in> set (cal_events k) \<Longrightarrow> ev_id v = e \<Longrightarrow> ev_call v = GatewayWaitForNextUpdate"
    by (simp_all add: wait_owned_def)
  show "e \<in> cal_used k'" by (rule keeps_eventsD(3)[OF kg e(1)])
  show "e \<notin> fst ` set (cal_destroy k')"
    using e keeps_eventsD(2)[OF kg] by blast
  fix v
  assume "v \<in> set (cal_events k')" "ev_id v = e"
  then show "ev_call v = GatewayWaitForNextUpdate"
    using e(1) w keeps_eventsD(1)[OF kg] by blast
qed

lemma keeps_gateway_destroy_owned:
  assumes kg: "keeps_gateway k k'" and own: "destroy_owned i k"
  shows "destroy_owned i k'"
  unfolding destroy_owned_def
proof (intro allI impI conjI)
  fix e
  assume "i = Some e"
  with own have e: "e \<in> cal_used k" "e \<notin> ev_id ` set (cal_events k)"
    by (simp_all add: destroy_owned_def)
  show "e \<in> cal_used k'" by (rule keeps_eventsD(3)[OF kg e(1)])
  show "e \<notin> ev_id ` set (cal_events k')"
    using e keeps_eventsD(1)[OF kg] by blast
qed

lemma keeps_gateway_only_stop:
  assumes "keeps_gateway k k'" and "destroy_only_stop k"
  shows "destroy_only_stop k'"
proof -
  have "set (filter (\<lambda>v. gateway_callback (snd v)) (cal_destroy k')) =
        set (filter (\<lambda>v. gateway_callback (snd v)) (cal_destroy k))"
    using assms(1) by (simp only: keeps_events_def)
  with assms(2) show ?thesis by (auto simp: destroy_only_stop_def)
qed

lemmas keeps_gateway_intros =
  keeps_gateway_only_stop keeps_gateway_frozen keeps_gateway_granted keeps_gateway_wait_owned keeps_gateway_destroy_owned

lemma gw_ok_foreign:
  assumes "gw_ok t0 x g k" and "keeps_gateway k k'" and "g' = g\<lparr>m_data := d\<rparr>"
  shows "gw_ok t0 x g' k'"
proof -
  note kg = keeps_gateway_intros[OF assms(2)] keeps_gateway_forward_count[OF assms(2)]
    keeps_events_now[OF assms(2)]
  have "wait_owned (m_eventWait g) k'" "destroy_owned (m_eventDestroy g) k'" "destroy_only_stop k'"
    using assms(1) kg(1,4,5) by (simp_all add: gw_ok_def)
  then show ?thesis
    using assms(1,3) kg(2,3,6,7) by (auto simp: gw_ok_def)
qed

end
