(* ===== verification/Gateway_Safety.thy ===== *)
theory Gateway_Safety
  imports Gateway_Invariants
begin

text \<open>
  Every handler of the gateway and every step of the two threads keeps the invariant of
  \<open>Gateway_Invariants\<close>, for every simulator, socket layer and derived class that meet their
  contracts.
\<close>

text \<open>What an event leaves alone.\<close>

definition gw_frame :: "'x callback \<Rightarrow> gateway \<Rightarrow> gateway \<Rightarrow> bool" where
  "gw_frame c g g' \<longleftrightarrow>
     m_state g' = m_state g \<and> m_delimiterField g' = m_delimiterField g \<and>
     m_delimiterMessage g' = m_delimiterMessage g \<and> m_messageBuffer g' = m_messageBuffer g \<and>
     m_thread g' = m_thread g \<and> m_socket g' = m_socket g \<and>
     m_messageQueue g' = (if c = GatewayForwardUp then tl (m_messageQueue g) else m_messageQueue g)"

section \<open>The handlers\<close>

context gateway_platform begin

lemma cancel_opt:
  assumes "valid w" and "w' = (if is_pending S i w then cancel_event S i w else w)"
  shows "valid w' \<and> cal w' = cal_cancel_opt i (cal w)"
  using cancel_if_pending[OF assms(1), of i] assms(2) by (simp add: cal_cancel_opt_def)

text \<open>What the functions that schedule or cancel events do to the calendar.\<close>

lemma WaitForNextUpdate_cal:
  assumes v: "valid w" and run: "WaitForNextUpdate S (g, w) = (g', w')"
  obtains (stopping) "m_state g = STOPPING" "g' = g" "w' = w"
  | (wait) e where "m_state g \<noteq> STOPPING" "g' = g\<lparr>m_eventWait := Some e\<rparr>" "valid w'" "e \<notin> cal_used (cal w)"
      "cal w' = cal_schedule e 0 GatewayWaitForNextUpdate (cal_cancel_opt (m_eventWait g) (cal w))"
proof (cases "m_state g = STOPPING")
  case True
  have "g' = g" "w' = w" using run True by (simp_all add: WaitForNextUpdate_def)
  with True show thesis by (rule stopping)
next
  case False
  define w1 where "w1 = (if is_pending S (m_eventWait g) w then cancel_event S (m_eventWait g) w else w)"
  from cancel_opt[OF v w1_def] have v1: "valid w1" and c1: "cal w1 = cal_cancel_opt (m_eventWait g) (cal w)"
    by blast+
  obtain e w2 where s: "sim_schedule_now S GatewayWaitForNextUpdate w1 = (e, w2)" by fastforce
  have "g' = g\<lparr>m_eventWait := Some e\<rparr>" "w' = w2"
    using run False s by (simp_all add: WaitForNextUpdate_def Let_def w1_def[symmetric])
  with schedule_now[OF v1 s] c1 False show thesis by (intro wait[of e]) simp_all
qed

lemma process_message_cal:
  assumes v: "valid w" and run: "process_message S T vs (g, w) = Inr (g', w')"
  obtains (terminate) "T < 0" "g' = g" "valid w'" "cal w' = (cal w)\<lparr>cal_stopped := True\<rparr>"
  | (first) e where "0 \<le> T" "m_timeStart g < 0" "g' = g\<lparr>m_timeStart := T\<rparr>" "valid w'" "e \<notin> cal_used (cal w)"
      "cal w' = cal_schedule e 0 (GatewayDoInitialize vs) (cal w)"
  | (normal) e d where "0 \<le> T" "0 \<le> m_timeStart g" "0 \<le> d" "cal_now (cal w) + d = T - m_timeStart g"
      "g' = g\<lparr>m_timePause := T - m_timeStart g\<rparr>" "valid w'" "e \<notin> cal_used (cal w)"
      "cal w' = cal_schedule e d (GatewayHandleUpdate vs) (cal_cancel_opt (m_eventWait g) (cal w))"
proof -
  consider (t) "T < 0" | (f) "0 \<le> T" "m_timeStart g < 0" | (n) "0 \<le> T" "0 \<le> m_timeStart g" by linarith
  then show thesis
  proof cases
    case t
    have r: "g' = g" "w' = sim_stop S w" using run t by (simp_all add: process_message_def)
    show thesis by (rule terminate[OF t r(1)]) (use stop[OF v] r(2) in simp_all)
  next
    case f
    obtain e w1 where s: "sim_schedule_now S (GatewayDoInitialize vs) w = (e, w1)" by fastforce
    with f run have "g' = g\<lparr>m_timeStart := T\<rparr>" "w' = w1" by (auto simp: process_message_def)
    with schedule_now[OF v s] f show thesis by (intro first[of e]) simp_all
  next
    case n
    define w1 where "w1 = (if is_pending S (m_eventWait g) w then cancel_event S (m_eventWait g) w else w)"
    define d where "d = T - m_timeStart g - sim_now S w1"
    from cancel_opt[OF v w1_def] have v1: "valid w1"
      and c1: "cal w1 = cal_cancel_opt (m_eventWait g) (cal w)" by blast+
    obtain e w2 where s: "sim_schedule S d (GatewayHandleUpdate vs) w1 = (e, w2)" by fastforce
    have r: "0 \<le> d" "g' = g\<lparr>m_timePause := T - m_timeStart g\<rparr>" "w' = w2"
      using run n s
      by (auto simp: process_message_def Let_def w1_def[symmetric] d_def[symmetric] split: if_splits)
        (simp add: d_def)
    have "cal_now (cal w) + d = T - m_timeStart g" by (simp add: d_def now[OF v1] c1)
    with schedule[OF v1 r(1) s] c1 n r show thesis by (intro normal[of d e]) simp_all
  qed
qed

lemma Stop_finish_cal:
  assumes v: "valid w" and run: "Stop_finish S P c (g, w) = (g', w')"
  shows "valid w'"
    and "cal w' = cal_cancel_opt (m_eventDestroy g) (cal_cancel_opt (m_eventWait g) (cal w))"
    and "g' = (if c then g\<lparr>m_thread := False\<rparr> else g)"
proof -
  define w1 where "w1 = (if c then
    case m_socket g of None \<Rightarrow> w | Some sock \<Rightarrow> os_close P sock w else w)"
  define w2 where "w2 = (if is_pending S (m_eventWait g) w1 then cancel_event S (m_eventWait g) w1 else w1)"
  define w3 where "w3 = (if is_pending S (m_eventDestroy g) w2 then cancel_event S (m_eventDestroy g) w2 else w2)"
  have v1: "valid w1" and c1: "cal w1 = cal w"
    using v os_close by (simp_all add: w1_def split: option.splits)
  from cancel_opt[OF v1 w2_def] have v2: "valid w2" and c2: "cal w2 = cal_cancel_opt (m_eventWait g) (cal w1)"
    by blast+
  from cancel_opt[OF v2 w3_def] have v3: "valid w3" and c3: "cal w3 = cal_cancel_opt (m_eventDestroy g) (cal w2)"
    by blast+
  have "w' = w3" and g: "g' = (if c then g\<lparr>m_thread := False\<rparr> else g)"
    using run by (auto simp: Stop_finish_def Let_def w1_def w2_def w3_def)
  with v3 c3 c2 c1 show "valid w'"
    and "cal w' = cal_cancel_opt (m_eventDestroy g) (cal_cancel_opt (m_eventWait g) (cal w))" by simp_all
  show "g' = (if c then g\<lparr>m_thread := False\<rparr> else g)" by (rule g)
qed

lemma gw_wait_scheduled:
  assumes v: "valid w" and s: "sim_schedule_now S GatewayWaitForNextUpdate w = (e, w')"
    and own: "destroy_owned (m_eventDestroy g) (cal w)" and stop: "destroy_only_stop (cal w)"
    and len: "length (m_messageQueue g) = forward_count (cal w) + x"
    and time: "m_state g = CONNECTED \<longrightarrow> cal_now (cal w) \<le> m_timePause g \<or> cal_now (cal w) = t0"
  shows "valid w' \<and> gw_ok t0 x (g\<lparr>m_eventWait := Some e\<rparr>) (cal w')"
proof -
  from schedule_now[OF v s] have w': "valid w'" "e \<notin> cal_used (cal w)"
    "cal w' = cal_schedule e 0 GatewayWaitForNextUpdate (cal w)" by blast+
  with assms wait_owned_new[OF cal_ok[OF v]] show ?thesis
    by (simp add: gw_ok_def)
qed

lemma WaitForNextUpdate_ok:
  assumes v: "valid w" and inv: "gw_popped t0 x GatewayWaitForNextUpdate g (cal w)"
    and run: "WaitForNextUpdate S (g, w) = (g', w')"
  shows "valid w' \<and> gw_ok t0 x g' (cal w') \<and> gw_frame GatewayWaitForNextUpdate g g'"
  using v run
proof (cases rule: WaitForNextUpdate_cal)
  case stopping
  with v inv show ?thesis by (auto simp: gw_popped_def gw_ok_def gw_frame_def)
next
  case (wait e)
  let ?k = "cal_cancel_opt (m_eventWait g) (cal w)"
  have "cal_ok ?k" "e \<notin> cal_used ?k"
    using wait(4) cal_ok_cancel[OF cal_ok[OF v]] cal_ok[OF v] by (auto simp: cal_cancel_opt_def split: option.splits)
  with wait inv wait_owned_new[of ?k e] show ?thesis
    by (simp add: gw_ok_def gw_frame_def gw_popped_def forward_count_cancel_wait)
qed

lemma process_message_ok:
  assumes v: "valid w" and inv: "gw_ok t0 x g (cal w)"
    and run: "process_message S timestamp values (g, w) = Inr (g', w')"
  shows "valid w' \<and> gw_ok t0 x g' (cal w') \<and>
    (\<exists>a b. g' = g\<lparr>m_timeStart := a, m_timePause := b\<rparr>)"
  using v run
proof (cases rule: process_message_cal)
  case terminate
  then have "g' = g\<lparr>m_timeStart := m_timeStart g, m_timePause := m_timePause g\<rparr>" by simp
  moreover have "gw_ok t0 x g' (cal w')" using terminate inv by (simp add: gw_ok_def)
  ultimately show ?thesis using terminate(3) by blast
next
  case (first e)
  then have "g' = g\<lparr>m_timeStart := timestamp, m_timePause := m_timePause g\<rparr>" by simp
  moreover have "gw_ok t0 x g' (cal w')" using first inv by (auto simp: gw_ok_def)
  ultimately show ?thesis using first(4) by blast
next
  case (normal e d)
  let ?p = "timestamp - m_timeStart g"
  have "granted ?p (cal w')"
    using granted_new[OF normal(3), of "cal w" e "values"] granted_new[OF normal(3)] normal(4)
    unfolding normal(8) by (metis cal_cancel_opt_simps(1))
  moreover have "cal_now (cal w) \<le> ?p" using normal(3,4) by linarith
  ultimately have "gw_ok t0 x g' (cal w')" using inv normal by (simp add: gw_ok_def)
  moreover have "g' = g\<lparr>m_timeStart := m_timeStart g, m_timePause := ?p\<rparr>" using normal(5) by simp
  ultimately show ?thesis using normal(6) by blast
qed

lemma ForwardUp_ok:
  assumes v: "valid w" and inv: "gw_popped t0 x GatewayForwardUp g (cal w)"
    and run: "ForwardUp S (g, w) = Inr (g', w')"
  shows "valid w' \<and> gw_ok t0 x g' (cal w') \<and> gw_frame GatewayForwardUp g g'"
proof -
  from inv obtain m q where q: "m_messageQueue g = m # q"
    by (cases "m_messageQueue g") (auto simp: gw_popped_def)
  let ?g = "g\<lparr>m_messageQueue := q\<rparr>"
  from run q obtain ts vs where p: "process_message S ts vs (?g, w) = Inr (g', w')"
    by (auto simp: ForwardUp_def split: option.splits)
  have "gw_ok t0 x ?g (cal w)"
    using inv q by (simp add: gw_popped_def gw_ok_def)
  from process_message_ok[OF v this p] q show ?thesis by (auto simp: gw_frame_def)
qed

text \<open>The fatal error for an empty queue cannot happen.\<close>

lemma ForwardUp_queue:
  assumes "gw_popped t0 x GatewayForwardUp g k"
  shows "m_messageQueue g \<noteq> []"
  using assms by (auto simp: gw_popped_def)

lemma Stop_finish_ok:
  assumes v: "valid w" and wo: "wait_owned (m_eventWait g) (cal w)"
    and de: "destroy_owned (m_eventDestroy g) (cal w)" and ds: "destroy_only_stop (cal w)"
    and len: "length (m_messageQueue g) = forward_count (cal w) + x"
    and st: "m_state g = STOPPING"
    and run: "Stop_finish S P connected (g, w) = (g', w')"
  shows "valid w' \<and> gw_ok t0 x g' (cal w') \<and> (\<exists>b. g' = g\<lparr>m_thread := b\<rparr>)"
proof -
  note r = Stop_finish_cal[OF v run]
  have "forward_count (cal w') = forward_count (cal w)"
    using forward_count_cancel_destroy[of "m_eventDestroy g" "cal_cancel_opt (m_eventWait g) (cal w)"]
      forward_count_cancel_wait[OF wo] de by (simp add: r(2))
  then have "gw_ok t0 x g' (cal w')"
    using wo de ds len st unfolding r(3) gw_ok_def by (simp add: r(2))
  moreover have "g' = g\<lparr>m_thread := m_thread g'\<rparr>" using r(3) by simp
  ultimately show ?thesis using r(1) by blast
qed

text \<open>Taking the next event out of the calendar.\<close>

lemma popped:
  assumes v: "valid w" and inv: "gw_ok t0 x g (cal w)" and nx: "sim_next S w = Some (c, w')"
  shows "valid w' \<and> gw_popped t0 x c g (cal w')"
proof -
  let ?k = "cal w" and ?k' = "cal w'"
  from next_Some[OF v nx] have v': "valid w'" and nk: "cal_next ?k = Some (c, ?k')" by blast+
  from nk obtain e where ev: "cal_events ?k = (e, cal_now ?k', c) # cal_events ?k'"
    and rest: "cal_destroy ?k' = cal_destroy ?k" "cal_used ?k' = cal_used ?k"
    by (rule cal_next_SomeD)
  note ok = cal_ok[OF v]
  have "wait_owned (m_eventWait g) ?k'" "destroy_owned (m_eventDestroy g) ?k'" "destroy_only_stop ?k'"
    using inv ev rest by (auto simp: gw_ok_def wait_owned_def destroy_owned_def destroy_only_stop_def)
  moreover have "forward_count ?k = forward_count ?k' + (if c = GatewayForwardUp then 1 else 0)"
    using ev by (simp add: forward_count_def)
  moreover have "(frozen ?k' \<or> granted (m_timePause g) ?k' \<or> c = GatewayWaitForNextUpdate \<or>
        (\<exists>d. c = GatewayHandleUpdate d) \<and> cal_now ?k' = m_timePause g) \<and>
      (cal_now ?k' \<le> m_timePause g \<or> cal_now ?k' = t0)" if conn: "m_state g = CONNECTED"
  proof -
    from inv conn have fg: "frozen ?k \<or> granted (m_timePause g) ?k"
      and tm: "cal_now ?k \<le> m_timePause g \<or> cal_now ?k = t0" by (simp_all add: gw_ok_def)
    from fg show ?thesis
    proof
      assume "frozen ?k"
      then obtain u where u: "u \<in> set (cal_events ?k)" "ev_call u = GatewayWaitForNextUpdate"
        "ev_time u = cal_now ?k" by (auto simp: frozen_def)
      have "cal_now ?k' = cal_now ?k"
        using cal_next_not_past[OF ok nk u(1)] cal_next_now[OF ok nk] u(3) by simp
      moreover have "c = GatewayWaitForNextUpdate \<or> u \<in> set (cal_events ?k')"
        using u(1,2) ev by auto
      ultimately show ?thesis using u tm by (auto simp: frozen_def)
    next
      assume "granted (m_timePause g) ?k"
      then obtain u d where u: "u \<in> set (cal_events ?k)" "ev_call u = GatewayHandleUpdate d"
        "ev_time u = m_timePause g" by (auto simp: granted_def)
      have "cal_now ?k' \<le> m_timePause g"
        using cal_next_not_past[OF ok nk u(1)] u(3) by simp
      moreover have "(c = GatewayHandleUpdate d \<and> cal_now ?k' = m_timePause g) \<or> u \<in> set (cal_events ?k')"
        using u ev by auto
      ultimately show ?thesis using u by (auto simp: granted_def)
    qed
  qed
  ultimately show ?thesis using v' inv by (auto simp: gw_popped_def gw_ok_def)
qed

lemma popped_destroy:
  assumes v: "valid w" and inv: "gw_ok t0 x g (cal w)" and nx: "sim_next_destroy S w = Some (c, w')"
  shows "valid w' \<and> gw_popped t0 x c g (cal w') \<and> (gateway_callback c \<longrightarrow> c = GatewayStop)"
proof -
  from next_destroy_Some[OF v nx] have v': "valid w'"
    and nk: "cal_next_destroy (cal w) = Some (c, cal w')" by blast+
  from nk obtain e where k: "cal_destroy (cal w) = (e, c) # cal_destroy (cal w')"
    "cal_events (cal w') = cal_events (cal w)" "cal_now (cal w') = cal_now (cal w)"
    "cal_used (cal w') = cal_used (cal w)"
    by (rule cal_next_destroy_SomeD)
  have "wait_owned (m_eventWait g) (cal w')" "destroy_owned (m_eventDestroy g) (cal w')"
    "destroy_only_stop (cal w')" and c: "gateway_callback c \<longrightarrow> c = GatewayStop"
    using inv k by (auto simp: gw_ok_def gw_calendar_defs)
  moreover have "forward_count (cal w') = forward_count (cal w)" "frozen (cal w') = frozen (cal w)"
    "granted p (cal w') = granted p (cal w)" for p
    using k by (simp_all add: forward_count_def frozen_def granted_def)
  ultimately show ?thesis
    using v' inv k c by (auto simp: gw_popped_def gw_ok_def)
qed

end

section \<open>The event loop\<close>

context gateway_host begin

lemmas host_popped = gateway_platform.popped[OF platform]
lemmas host_popped_destroy = gateway_platform.popped_destroy[OF platform]
lemmas host_wait_scheduled = gateway_platform.gw_wait_scheduled[OF platform]
lemmas host_WaitForNextUpdate = gateway_platform.WaitForNextUpdate_ok[OF platform]
lemmas host_ForwardUp = gateway_platform.ForwardUp_ok[OF platform]
lemmas host_Stop_finish = gateway_platform.Stop_finish_ok[OF platform]
lemmas host_socket = gateway_platform.os_socket[OF platform]
lemmas host_connect = gateway_platform.os_connect[OF platform]

lemma foreign_ok:
  assumes inv: "gw_ok t0 x g (cal w)"
    and eff: "valid u' w' \<and> keeps_gateway (cal w) (cal w') \<and> (\<exists>ds. g' = g\<lparr>m_data := ds\<rparr>)"
    and c: "c \<noteq> GatewayForwardUp"
  shows "valid u' w' \<and> gw_ok t0 x g' (cal w') \<and> gw_frame c g g'"
  using gw_ok_foreign[OF inv] eff c by (fastforce simp: gw_frame_def)

lemma HandleUpdate_ok:
  assumes v: "valid u w" and inv: "gw_popped t0 x (GatewayHandleUpdate data) g (cal w)"
    and run: "HandleUpdate S (do_update H) data (u, g, w) = Inr (u', g', w')"
  shows "valid u' w' \<and> gw_ok t0 x g' (cal w') \<and> gw_frame (GatewayHandleUpdate data) g g'"
proof (cases "sim_now S w = m_timePause g")
  case True
  obtain e w1 where s: "sim_schedule_now S GatewayWaitForNextUpdate w = (e, w1)" by fastforce
  let ?g = "g\<lparr>m_eventWait := Some e\<rparr>"
  from True run s have d: "do_update H data (u, ?g, w1) = Inr (u', g', w')"
    by (simp add: HandleUpdate_def)
  have v1: "valid u w1" and i1: "gw_ok t0 x ?g (cal w1)"
    using host_wait_scheduled[OF v s, of g x t0] inv by (simp_all add: gw_popped_def)
  from foreign_ok[OF i1 do_update[OF v1 d], of "GatewayHandleUpdate data"] show ?thesis
    by (simp add: gw_frame_def)
next
  case False
  with run have d: "do_update H data (u, g, w) = Inr (u', g', w')" by (simp add: HandleUpdate_def)
  have "gw_ok t0 x g (cal w)"
    using inv False sim_time[OF v] by (auto simp: gw_popped_def gw_ok_def)
  from foreign_ok[OF this do_update[OF v d], of "GatewayHandleUpdate data"] show ?thesis by simp
qed

lemma popped_other:
  assumes "gw_popped t0 x c g k"
    and "c \<noteq> GatewayForwardUp" "c \<noteq> GatewayWaitForNextUpdate" "\<forall>d. c \<noteq> GatewayHandleUpdate d"
  shows "gw_ok t0 x g k"
  using assms by (auto simp: gw_popped_def gw_ok_def)

lemma dispatch_ok:
  assumes v: "valid u w" and inv: "gw_popped t0 x c g (cal w)" and c: "c \<noteq> GatewayStop"
    and run: "dispatch S H c (u, g, w) = Inr (u', g', w')"
  shows "valid u' w' \<and> gw_ok t0 x g' (cal w') \<and> gw_frame c g g'"
proof (cases "gateway_callback c")
  case False
  then have "other_event H c (u, g, w) = Inr (u', g', w')"
    using run by (cases c) (simp_all add: dispatch_def)
  note eff = other_event[OF v False this]
  have "gw_ok t0 x g (cal w)"
    by (rule popped_other[OF inv]) (use False in auto)
  moreover have "c \<noteq> GatewayForwardUp" using False by auto
  ultimately show ?thesis using foreign_ok eff by blast
next
  case True
  then consider "c = GatewayForwardUp" | "c = GatewayWaitForNextUpdate"
    | d where "c = GatewayHandleUpdate d" | d where "c = GatewayDoInitialize d"
    using c by (cases c) auto
  then show ?thesis
  proof cases
    case 1
    with run have "u' = u" "ForwardUp S (g, w) = Inr (g', w')" by (auto simp: dispatch_def)
    with 1 inv show ?thesis using host_ForwardUp[OF v] by blast
  next
    case 2
    with run have "u' = u" "WaitForNextUpdate S (g, w) = (g', w')" by (simp_all add: dispatch_def)
    with 2 inv show ?thesis using host_WaitForNextUpdate[OF v] by blast
  next
    case (3 d)
    with run have "HandleUpdate S (do_update H) d (u, g, w) = Inr (u', g', w')"
      by (simp add: dispatch_def)
    with 3 inv show ?thesis using HandleUpdate_ok[OF v] by blast
  next
    case (4 d)
    with run have "do_initialize H d (u, g, w) = Inr (u', g', w')" by (simp add: dispatch_def)
    moreover have "gw_ok t0 x g (cal w)"
      by (rule popped_other[OF inv]) (use 4 in auto)
    ultimately show ?thesis using 4 foreign_ok[OF _ do_initialize[OF v]] by blast
  qed
qed

end

section \<open>The whole system\<close>

text \<open>The invariant of the running system; after a fault the program has ended.\<close>

definition forward_extra :: "thread_pc \<Rightarrow> nat" where
  "forward_extra pc = (if pc = T_Forward then 1 else 0)"

definition sys_ok ::
    "('w \<Rightarrow> 'x callback calendar) \<Rightarrow> ('u \<Rightarrow> 'w \<Rightarrow> bool) \<Rightarrow> time \<Rightarrow> ('u, 'w) gw_sys \<Rightarrow> bool" where
  "sys_ok cal valid t0 s \<longleftrightarrow>
     (\<forall>f. s_main s \<noteq> Main_Failed f) \<longrightarrow>
       valid (s_user s) (s_world s) \<and>
       gw_ok t0 (forward_extra (s_thread s)) (s_gw s) (cal (s_world s)) \<and>
       ((\<exists>b. s_main s = Main_Join b) \<longrightarrow> m_state (s_gw s) = STOPPING)"

context gateway_host begin

lemma main_stop_ok:
  assumes v: "valid (s_user s) (s_world s)"
    and inv: "gw_popped t0 (forward_extra (s_thread s)) GatewayStop (s_gw s) (cal (s_world s))"
    and m: "s_main s = Main_Run \<or> s_main s = Main_Destroy"
  shows "sys_ok cal valid t0 (main_stop S P s)"
proof -
  let ?g = "s_gw s\<lparr>m_state := STOPPING\<rparr>" and ?x = "forward_extra (s_thread s)"
  have ok: "gw_ok t0 ?x ?g (cal (s_world s))"
    using inv by (simp add: gw_popped_def gw_ok_def)
  show ?thesis
  proof (cases "m_state (s_gw s) = CONNECTED \<and> m_thread (s_gw s)")
    case True
    with v ok show ?thesis by (simp add: sys_ok_def main_stop_def Stop_signal_def)
  next
    case False
    obtain g2 w2 where f: "Stop_finish S P (m_state (s_gw s) = CONNECTED) (?g, s_world s) = (g2, w2)"
      by fastforce
    have "valid (s_user s) w2 \<and> gw_ok t0 ?x g2 (cal w2)"
      using host_Stop_finish[OF v _ _ _ _ _ f, of ?x t0] ok by (simp add: gw_ok_def)
    with False f m show ?thesis by (auto simp: sys_ok_def main_stop_def Stop_signal_def)
  qed
qed

lemma main_join_ok:
  assumes inv: "sys_ok cal valid t0 s" and m: "s_main s = Main_Join b"
  shows "sys_ok cal valid t0 (main_join S P b s)"
proof -
  obtain g2 w2 where f: "Stop_finish S P True (s_gw s, s_world s) = (g2, w2)" by fastforce
  have "valid (s_user s) w2 \<and> gw_ok t0 (forward_extra (s_thread s)) g2 (cal w2)"
    using host_Stop_finish[OF _ _ _ _ _ _ f, of "s_user s" "forward_extra (s_thread s)" t0] inv m
    by (simp add: sys_ok_def gw_ok_def)
  with f show ?thesis by (auto simp: sys_ok_def main_join_def)
qed

lemma main_event_ok:
  assumes v: "valid (s_user s) w"
    and inv: "gw_popped t0 (forward_extra (s_thread s)) c (s_gw s) (cal w)"
    and m: "s_main s = Main_Run \<or> s_main s = Main_Destroy"
  shows "sys_ok cal valid t0 (main_event S P H c (s\<lparr>s_world := w\<rparr>))"
proof (cases "c = GatewayStop")
  case True
  then show ?thesis
    using main_stop_ok[of "s\<lparr>s_world := w\<rparr>"] v inv m by (simp add: main_event_def)
next
  case False
  show ?thesis
  proof (cases "dispatch S H c (s_user s, s_gw s, w)")
    case (Inl f)
    with False show ?thesis by (simp add: main_event_def sys_ok_def)
  next
    case (Inr r)
    obtain u g' w' where r: "r = (u, g', w')" by (cases r)
    from dispatch_ok[OF v inv False Inr[unfolded r]] False Inr r m show ?thesis
      by (auto simp: main_event_def sys_ok_def)
  qed
qed

lemma gw_ok_schedule_ctx:
  assumes v: "valid u w" and inv: "gw_ok t0 x g (cal w)"
    and w': "w' = sim_schedule_with_context S i 0 c w" and c: "gateway_callback c"
    and x: "x = x' + (if c = GatewayForwardUp then 1 else 0)"
  shows "valid u w' \<and> gw_ok t0 x' g (cal w')"
proof -
  from sim_scheduled_context[OF v, of 0 i c] obtain e where
    "valid u w'" "e \<notin> cal_used (cal w)" "cal w' = cal_schedule e 0 c (cal w)"
    unfolding w' by auto
  with inv x show ?thesis by (auto simp: gw_ok_def)
qed

lemma gw_ok_buffer [simp]: "gw_ok t0 x (g\<lparr>m_messageBuffer := b\<rparr>) k = gw_ok t0 x g k"
  by (simp add: gw_ok_def)

lemma gw_ok_push:
  "gw_ok t0 0 g k \<Longrightarrow> gw_ok t0 (Suc 0) (g\<lparr>m_messageQueue := m_messageQueue g @ [m]\<rparr>) k"
  by (simp add: gw_ok_def)

lemma thread_step_ok:
  assumes inv: "sys_ok cal valid t0 s" and run: "thread_step S r s = Some s'"
    and m: "\<forall>f. s_main s \<noteq> Main_Failed f"
  shows "sys_ok cal valid t0 s'"
proof -
  have v: "valid (s_user s) (s_world s)"
    and ok: "gw_ok t0 (forward_extra (s_thread s)) (s_gw s) (cal (s_world s))"
    using inv m by (simp_all add: sys_ok_def)
  show ?thesis
  proof (cases "s_thread s")
    case T_Forward
    have "valid (s_user s) w' \<and> gw_ok t0 0 (s_gw s) (cal w')"
      if "w' = sim_schedule_with_context S i 0 GatewayForwardUp (s_world s)" for w' i
      using gw_ok_schedule_ctx[OF v ok that, of 0] T_Forward by (simp add: forward_extra_def)
    with run T_Forward inv m show ?thesis
      by (auto simp: thread_step_def sys_ok_def forward_extra_def)
  next
    case (T_Lost d)
    have "valid (s_user s) w' \<and> gw_ok t0 0 (s_gw s) (cal w')"
      if "w' = sim_schedule_with_context S i 0 GatewayStop (s_world s)" for w' i
      using gw_ok_schedule_ctx[OF v ok that, of 0] T_Lost by (simp add: forward_extra_def)
    with run T_Lost inv m show ?thesis
      by (auto simp: thread_step_def sys_ok_def forward_extra_def)
  next
    case T_Loop
    with run inv show ?thesis
      by (auto simp: thread_step_def Let_def sys_ok_def forward_extra_def split: if_splits)
  next
    case (T_Find d)
    with run inv show ?thesis
      by (cases "find_sub (m_delimiterMessage (s_gw s)) d")
        (auto simp: thread_step_def Let_def sys_ok_def forward_extra_def)
  next
    case (T_Recv d)
    with run inv show ?thesis
      by (cases r) (auto simp: thread_step_def Let_def sys_ok_def forward_extra_def)
  next
    case (T_Push d)
    with run inv show ?thesis
      by (auto simp: thread_step_def Let_def sys_ok_def forward_extra_def gw_ok_push)
  next
    case (T_Done d)
    with run show ?thesis by (simp add: thread_step_def)
  qed
qed

lemma gw_step_ok:
  assumes "gw_step S P H s l s'" and inv: "sys_ok cal valid t0 s"
  shows "sys_ok cal valid t0 s'"
  using assms(1)
proof (cases rule: gw_step.cases)
  case thread
  then show ?thesis using thread_step_ok[OF inv] by blast
next
  case (recv d r)
  then show ?thesis using thread_step_ok[OF inv] by blast
next
  case (run c w)
  then have "valid (s_user s) (s_world s)" "gw_ok t0 (forward_extra (s_thread s)) (s_gw s) (cal (s_world s))"
    using inv by (simp_all add: sys_ok_def)
  from host_popped[OF this run(4)] run show ?thesis using main_event_ok by blast
next
  case run_end
  then show ?thesis using inv by (simp add: sys_ok_def)
next
  case (destroy c w)
  then have "valid (s_user s) (s_world s)" "gw_ok t0 (forward_extra (s_thread s)) (s_gw s) (cal (s_world s))"
    using inv by (simp_all add: sys_ok_def)
  from host_popped_destroy[OF this destroy(4)] destroy show ?thesis using main_event_ok by blast
next
  case (join b d)
  then show ?thesis using main_join_ok[OF inv] by blast
qed

lemma gw_initial_ok:
  assumes "gw_initial S cal valid P s"
  shows "sys_ok cal valid (sim_now S (s_world s)) s"
proof -
  from assms obtain n df dm wn g0 ds w0 addr port where
    new: "Gateway_new S n df dm wn = Inr g0" and v0: "valid (s_user s) w0"
    and ev: "\<forall>v \<in> set (cal_events (cal w0)). \<not> gateway_callback (ev_call v)"
    and de: "\<forall>v \<in> set (cal_destroy (cal w0)). \<not> gateway_callback (snd v)"
    and conn: "Connect S P addr port (g0\<lparr>m_data := ds\<rparr>, w0) = Inr (s_gw s, s_world s)"
    and s: "s_thread s = T_Loop" "s_main s = Main_Run"
    unfolding gw_initial_def by blast
  let ?g = "g0\<lparr>m_data := ds\<rparr>"
  from Connect_InrD[OF conn] obtain sock w1 rc w2 ed w3 ew w4 where
    w1: "os_socket P w0 = (sock, w1)" and w2: "os_connect P sock addr port w1 = (rc, w2)" and
    w3: "sim_schedule_destroy S GatewayStop w2 = (ed, w3)" and
    w4: "sim_schedule_now S GatewayWaitForNextUpdate w3 = (ew, w4)" and sw: "s_world s = w4" and
    gw: "s_gw s = ?g\<lparr>m_socket := Some sock, m_state := CONNECTED, m_eventDestroy := Some ed,
            m_thread := True, m_eventWait := Some ew\<rparr>" by blast
  from host_socket[OF v0 w1] have v1: "valid (s_user s) w1" and c1: "cal w1 = cal w0" by blast+
  from host_connect[OF v1 w2] have v2: "valid (s_user s) w2" and c2: "cal w2 = cal w0" using c1 by auto
  from sim_scheduled_destroy[OF v2 w3] have v3: "valid (s_user s) w3" and ed: "ed \<notin> cal_used (cal w0)"
    and c3: "cal w3 = cal_schedule_destroy ed GatewayStop (cal w0)" using c2 by auto
  from sim_scheduled_now[OF v3 w4] have v4: "valid (s_user s) w4" and ew: "ew \<notin> cal_used (cal w3)"
    and c4: "cal w4 = cal_schedule ew 0 GatewayWaitForNextUpdate (cal w3)" by auto
  have g: "s_world s = w4" "m_eventWait (s_gw s) = Some ew" "m_eventDestroy (s_gw s) = Some ed"
    "m_messageQueue (s_gw s) = []"
    using new sw by (auto simp: gw Gateway_new_def split: if_splits)
  have "ed \<notin> ev_id ` set (cal_events (cal w0))"
    using ed sim_ok[OF v0] unfolding cal_ok_iff by blast
  then have "destroy_owned (Some ed) (cal w4)"
    using ew by (auto simp: c3 c4 destroy_owned_def cal_schedule_destroy_def)
  moreover have "wait_owned (Some ew) (cal w4)"
    using wait_owned_new[OF sim_ok[OF v3] ew] by (simp add: c4)
  moreover have "destroy_only_stop (cal w4)"
    using de by (auto simp: c3 c4 destroy_only_stop_def cal_schedule_destroy_def)
  moreover have "forward_count (cal w3) = 0"
    using ev by (fastforce simp: c3 forward_count_def cal_schedule_destroy_def filter_empty_conv)
  ultimately have "gw_ok (cal_now (cal w4)) 0 (s_gw s) (cal w4)"
    using g by (simp add: gw_ok_def c4)
  then show ?thesis
    using s g v4 sim_time[OF v4] by (simp add: sys_ok_def forward_extra_def)
qed

lemma reachable_initial: "gw_reachable S cal valid P H s0 s \<Longrightarrow> gw_initial S cal valid P s0"
  by (induction rule: gw_reachable.induct)

theorem reachable_ok:
  "gw_reachable S cal valid P H s0 s \<Longrightarrow> sys_ok cal valid (sim_now S (s_world s0)) s"
proof (induction rule: gw_reachable.induct)
  case (start s)
  then show ?case by (rule gw_initial_ok)
next
  case (step s0 s l s')
  then show ?case using gw_step_ok by blast
qed

end

end
