(* ===== verification/Gateway_Stream.thy ===== *)
theory Gateway_Stream
  imports Gateway_Safety
begin

text \<open>
  The byte stream and the messages: what the receiving thread has received is what the main
  thread has processed, followed by the queue and by the thread's own data. Also the order of
  the gateway's states, and the end of the receiving thread.
\<close>

section \<open>Received bytes and processed messages\<close>

text \<open>The received bytes that are not in the queue yet.\<close>

definition thread_data :: "string \<Rightarrow> string \<Rightarrow> thread_pc \<Rightarrow> string" where
  "thread_data M buffer pc =
     (case pc of
        T_Loop \<Rightarrow> buffer
      | T_Find d \<Rightarrow> d
      | T_Recv d \<Rightarrow> d
      | T_Lost d \<Rightarrow> d
      | T_Push m \<Rightarrow> m @ M @ buffer
      | T_Forward \<Rightarrow> buffer
      | T_Done d \<Rightarrow> d)"

definition pc_ok :: "string \<Rightarrow> thread_pc \<Rightarrow> bool" where
  "pc_ok M pc =
     (case pc of
        T_Recv d \<Rightarrow> find_sub M d = None
      | T_Lost d \<Rightarrow> find_sub M d = None
      | T_Push m \<Rightarrow> find_sub M (m @ M) = Some (length m)
      | _ \<Rightarrow> True)"

definition stream_ok :: "string \<Rightarrow> ('u, 'w) gw_sys \<Rightarrow> bool" where
  "stream_ok M s \<longleftrightarrow>
     M \<noteq> [] \<and> m_delimiterMessage (s_gw s) = M \<and> pc_ok M (s_thread s) \<and>
     (\<forall>m \<in> set (s_forwarded s @ m_messageQueue (s_gw s)). find_sub M (m @ M) = Some (length m)) \<and>
     s_received s =
       concat (map (\<lambda>m. m @ M) (s_forwarded s @ m_messageQueue (s_gw s))) @
       thread_data M (m_messageBuffer (s_gw s)) (s_thread s)"

lemma thread_step_stream:
  assumes inv: "stream_ok M s" and run: "thread_step S r s = Some s'"
  shows "stream_ok M s'"
proof (cases "s_thread s")
  case T_Loop
  with inv run show ?thesis
    by (auto simp: thread_step_def Let_def stream_ok_def pc_ok_def thread_data_def split: if_splits)
next
  case (T_Find d)
  show ?thesis
  proof (cases "find_sub M d")
    case None
    with T_Find inv run show ?thesis
      by (auto simp: thread_step_def Let_def stream_ok_def pc_ok_def thread_data_def)
  next
    case (Some k)
    have len: "length (take k d) = k" using find_sub_length[OF Some] by simp
    have "d = take k d @ M @ drop (k + length M) d" by (rule find_sub_split[OF Some])
    moreover have "find_sub M (take k d @ M) = Some (length (take k d))"
      using find_sub_take_delimiter[OF Some] len by simp
    moreover have "m_delimiterMessage (s_gw s) = M" using inv by (simp add: stream_ok_def)
    ultimately show ?thesis
      using T_Find Some inv run
      by (auto simp: thread_step_def Let_def stream_ok_def pc_ok_def thread_data_def
          simp del: length_take)
  qed
next
  case (T_Recv d)
  with inv run show ?thesis
    by (cases r) (auto simp: thread_step_def Let_def stream_ok_def pc_ok_def thread_data_def)
next
  case (T_Lost d)
  with inv run show ?thesis
    by (auto simp: thread_step_def Let_def stream_ok_def pc_ok_def thread_data_def)
next
  case (T_Push m)
  with inv run show ?thesis
    by (auto simp: thread_step_def Let_def stream_ok_def pc_ok_def thread_data_def)
next
  case T_Forward
  with inv run show ?thesis
    by (auto simp: thread_step_def Let_def stream_ok_def pc_ok_def thread_data_def)
next
  case (T_Done d)
  with run show ?thesis by (simp add: thread_step_def)
qed

lemma Stop_finish_gateway [simp]:
  "fst (Stop_finish S P b (g, w)) = (if b then g\<lparr>m_thread := False\<rparr> else g)"
  by (simp add: Stop_finish_def split_beta Let_def)

text \<open>A step of the main thread only moves messages from the queue to the processed ones.\<close>

definition main_frame :: "('u, 'w) gw_sys \<Rightarrow> ('u, 'w) gw_sys \<Rightarrow> bool" where
  "main_frame s s' \<longleftrightarrow>
     m_delimiterField (s_gw s') = m_delimiterField (s_gw s) \<and>
     m_delimiterMessage (s_gw s') = m_delimiterMessage (s_gw s) \<and>
     m_messageBuffer (s_gw s') = m_messageBuffer (s_gw s) \<and>
     s_thread s' = s_thread s \<and> s_received s' = s_received s \<and>
     s_forwarded s' @ m_messageQueue (s_gw s') = s_forwarded s @ m_messageQueue (s_gw s) \<and>
     m_state (s_gw s) \<le> m_state (s_gw s')"

lemma main_frame_stream: "main_frame s s' \<Longrightarrow> stream_ok M s \<Longrightarrow> stream_ok M s'"
  by (simp add: main_frame_def stream_ok_def flip: set_append map_append concat_append)

lemma main_stop_frame: "main_frame s (main_stop S P s)"
  by (simp add: main_frame_def main_stop_def Stop_signal_def split_beta Let_def)

lemma main_join_frame: "main_frame s (main_join S P b s)"
  by (simp add: main_frame_def main_join_def split_beta Let_def)

context gateway_host begin

lemma main_event_frame:
  assumes v: "valid (s_user s) w" and inv: "gw_popped t0 x c (s_gw s) (cal w)"
  shows "main_frame s (main_event S P H c (s\<lparr>s_world := w\<rparr>))"
proof (cases "c = GatewayStop")
  case True
  have "main_frame s (s\<lparr>s_world := w\<rparr>)" by (simp add: main_frame_def)
  with main_stop_frame[of "s\<lparr>s_world := w\<rparr>" S P] True show ?thesis
    by (simp add: main_event_def main_frame_def)
next
  case False
  show ?thesis
  proof (cases "dispatch S H c (s_user s, s_gw s, w)")
    case (Inl f)
    with False show ?thesis by (simp add: main_event_def main_frame_def)
  next
    case (Inr r)
    obtain u g' w' where r: "r = (u, g', w')" by (cases r)
    from dispatch_ok[OF v inv False Inr[unfolded r]] have "gw_frame c (s_gw s) g'" by blast
    moreover have "take 1 q @ tl q = q" for q :: "string list" by (cases q) simp_all
    ultimately show ?thesis
      using False Inr r by (simp add: main_event_def main_frame_def gw_frame_def)
  qed
qed

text \<open>Every step is a step of the receiving thread or of the main thread.\<close>

lemma gw_step_cases:
  assumes "gw_step S P H s l s'" and inv: "sys_ok cal valid t0 s"
  obtains r where "thread_step S r s = Some s'" | "main_frame s s'"
  using assms(1)
proof (cases rule: gw_step.cases)
  case (run c w)
  then have "valid (s_user s) (s_world s)" "gw_ok t0 (forward_extra (s_thread s)) (s_gw s) (cal (s_world s))"
    using inv by (simp_all add: sys_ok_def)
  from host_popped[OF this run(4)] run that(2) show ?thesis using main_event_frame by blast
next
  case run_end
  with that(2) show ?thesis by (simp add: main_frame_def)
next
  case (destroy c w)
  then have "valid (s_user s) (s_world s)" "gw_ok t0 (forward_extra (s_thread s)) (s_gw s) (cal (s_world s))"
    using inv by (simp_all add: sys_ok_def)
  from host_popped_destroy[OF this destroy(4)] destroy that(2) show ?thesis using main_event_frame by blast
next
  case (join b d)
  with that(2) show ?thesis using main_join_frame by blast
qed (use that(1) in blast)+

lemma gw_step_stream:
  assumes "gw_step S P H s l s'" and "sys_ok cal valid t0 s" and "stream_ok M s"
  shows "stream_ok M s'"
proof (rule gw_step_cases[OF assms(1,2)])
  fix r
  assume "thread_step S r s = Some s'"
  with assms(3) show ?thesis by (rule thread_step_stream)
next
  assume "main_frame s s'"
  then show ?thesis using assms(3) by (rule main_frame_stream)
qed

lemma thread_step_state: "thread_step S r s = Some s' \<Longrightarrow> m_state (s_gw s') = m_state (s_gw s)"
  by (auto simp: thread_step_def Let_def
      split: thread_pc.splits option.splits recv_result.splits if_splits)

lemma gw_step_state:
  assumes "gw_step S P H s l s'" and "sys_ok cal valid t0 s"
  shows "m_state (s_gw s) \<le> m_state (s_gw s')"
proof (rule gw_step_cases[OF assms])
  fix r
  assume "thread_step S r s = Some s'"
  then show ?thesis by (simp add: thread_step_state)
next
  assume "main_frame s s'"
  then show ?thesis by (simp add: main_frame_def)
qed

lemma initial_stream:
  assumes "gw_initial S cal valid P s"
  shows "stream_ok (m_delimiterMessage (s_gw s)) s"
proof -
  from assms obtain n df dm wn g0 ds w0 addr port where
    new: "Gateway_new S n df dm wn = Inr g0" and
    conn: "Connect S P addr port (g0\<lparr>m_data := ds\<rparr>, w0) = Inr (s_gw s, s_world s)" and
    s: "s_thread s = T_Loop" "s_received s = []" "s_forwarded s = []"
    unfolding gw_initial_def by blast
  from new have "m_delimiterMessage g0 \<noteq> []" "m_messageBuffer g0 = []" "m_messageQueue g0 = []"
    by (auto simp: Gateway_new_def split: if_splits)
  with Connect_InrD[OF conn] s show ?thesis
    by (auto simp: stream_ok_def pc_ok_def thread_data_def)
qed

theorem reachable_stream:
  "gw_reachable S cal valid P H s0 s \<Longrightarrow> stream_ok (m_delimiterMessage (s_gw s0)) s"
proof (induction rule: gw_reachable.induct)
  case (start s)
  then show ?case by (rule initial_stream)
next
  case (step s0 s l s')
  from reachable_ok[OF step.hyps(1)] gw_step_stream[OF step.hyps(2)] step.IH show ?case by blast
qed

end

lemma stream_ok_frames:
  assumes "stream_ok M s"
  shows "frames M (s_received s) =
    (s_forwarded s @ m_messageQueue (s_gw s) @
       fst (frames M (thread_data M (m_messageBuffer (s_gw s)) (s_thread s))),
     snd (frames M (thread_data M (m_messageBuffer (s_gw s)) (s_thread s))))"
proof -
  have M: "M \<noteq> []" and
    ms: "\<forall>m \<in> set (s_forwarded s @ m_messageQueue (s_gw s)). find_sub M (m @ M) = Some (length m)" and
    r: "s_received s = concat (map (\<lambda>m. m @ M) (s_forwarded s @ m_messageQueue (s_gw s))) @
       thread_data M (m_messageBuffer (s_gw s)) (s_thread s)"
    using assms by (simp_all add: stream_ok_def)
  show ?thesis unfolding r frames_messages[OF M ms] by simp
qed

section \<open>The end of the receiving thread\<close>

text \<open>Some steps of the thread alone, with the connection closed.\<close>

fun thread_run ::
    "('x callback, 'w) sim_ops \<Rightarrow> nat \<Rightarrow> ('u, 'w) gw_sys \<Rightarrow> ('u, 'w) gw_sys" where
  "thread_run S 0 s = s"
| "thread_run S (Suc n) s =
     (case thread_step S Closed s of None \<Rightarrow> s | Some s' \<Rightarrow> thread_run S n s')"

lemma thread_run_done [simp]: "s_thread s = T_Done d \<Longrightarrow> thread_run S n s = s"
  by (cases n) (simp_all add: thread_step_def)

text \<open>Once the gateway is stopping, at most four steps are left to a thread that receives no more.\<close>

lemma thread_run_stopping:
  assumes "m_state (s_gw s) = STOPPING"
  shows "\<exists>d. s_thread (thread_run S 4 s) = T_Done d"
proof -
  have four: "4 = Suc (Suc (Suc (Suc 0)))" by simp
  show ?thesis
  proof (cases "s_thread s")
    case (T_Find d)
    with assms show ?thesis
      by (cases "find_sub (m_delimiterMessage (s_gw s)) d")
        (simp_all add: four thread_step_def Let_def)
  qed (use assms in \<open>simp_all add: four thread_step_def Let_def\<close>)
qed

text \<open>
  A connected thread whose connection is closed: it pushes every complete message that it
  holds and schedules \<open>ForwardUp\<close> for each, then it schedules \<open>Stop\<close> and ends.
\<close>

definition schedule_as_gateway ::
    "('x callback, 'w) sim_ops \<Rightarrow> gateway \<Rightarrow> 'x callback \<Rightarrow> 'w \<Rightarrow> 'w" where
  "schedule_as_gateway S g c w = sim_schedule_with_context S (m_context g) 0 c w"

lemma thread_run_message:
  assumes "s_thread s = T_Find d" and "find_sub (m_delimiterMessage (s_gw s)) d = Some k"
    and "m_state (s_gw s) = CONNECTED"
  shows "thread_run S (4 + n) s = thread_run S n
    (s\<lparr>s_gw := (s_gw s)\<lparr>m_messageBuffer := drop (k + length (m_delimiterMessage (s_gw s))) d,
                         m_messageQueue := m_messageQueue (s_gw s) @ [take k d]\<rparr>,
       s_world := schedule_as_gateway S (s_gw s) GatewayForwardUp (s_world s),
       s_thread := T_Find (drop (k + length (m_delimiterMessage (s_gw s))) d)\<rparr>)"
  using assms
  by (simp add: numeral_eq_Suc thread_step_def Let_def schedule_as_gateway_def)

lemma thread_run_drain:
  assumes "M \<noteq> []" and "s_thread s = T_Find d" and "m_delimiterMessage (s_gw s) = M"
    and "m_state (s_gw s) = CONNECTED"
  shows "\<exists>s'. thread_run S (4 * length (fst (frames M d)) + 3) s = s' \<and>
    s_thread s' = T_Done (snd (frames M d)) \<and>
    m_messageQueue (s_gw s') = m_messageQueue (s_gw s) @ fst (frames M d) \<and>
    s_world s' = schedule_as_gateway S (s_gw s) GatewayStop
      ((schedule_as_gateway S (s_gw s) GatewayForwardUp ^^ length (fst (frames M d))) (s_world s))"
  using assms
proof (induction M d arbitrary: s rule: frames.induct)
  case (1 M d)
  show ?case
  proof (cases "find_sub M d")
    case None
    with "1.prems" show ?thesis
      by (simp add: frames_None numeral_eq_Suc thread_step_def Let_def schedule_as_gateway_def)
  next
    case (Some k)
    let ?t = "drop (k + length M) d"
    let ?s = "s\<lparr>s_gw := (s_gw s)\<lparr>m_messageBuffer := ?t,
                m_messageQueue := m_messageQueue (s_gw s) @ [take k d]\<rparr>,
       s_world := schedule_as_gateway S (s_gw s) GatewayForwardUp (s_world s),
       s_thread := T_Find ?t\<rparr>"
    have f: "frames M d = (take k d # fst (frames M ?t), snd (frames M ?t))"
      using "1.prems"(1) Some by (rule frames_Some)
    have n: "4 * length (fst (frames M d)) + 3 = 4 + (4 * length (fst (frames M ?t)) + 3)"
      by (simp add: f)
    have run: "thread_run S (4 * length (fst (frames M d)) + 3) s =
        thread_run S (4 * length (fst (frames M ?t)) + 3) ?s"
      unfolding n using thread_run_message[of s d k S] "1.prems" Some by (simp only:)
    have same: "schedule_as_gateway S (s_gw ?s) = schedule_as_gateway S (s_gw s)"
      by (simp add: schedule_as_gateway_def fun_eq_iff)
    from "1.IH"[OF "1.prems"(1) Some, of ?s] "1.prems" show ?thesis
      unfolding run same by (simp add: f funpow_swap1)
  qed
qed

section \<open>Waiting for the receiving thread\<close>

text \<open>While \<open>Stop\<close> waits for a thread that is in \<open>recv\<close>, only the server can make a step possible.\<close>

lemma join_waits_for_recv:
  assumes "gw_step S P H s l s'" and "s_main s = Main_Join b" and "s_thread s = T_Recv d"
  shows "(\<exists>r. l = L_Recv r) \<and> s_main s' = Main_Join b"
  using assms(1)
proof (cases rule: gw_step.cases)
  case (recv d' r)
  with assms(2,3) show ?thesis
    by (cases r) (auto simp: thread_step_def Let_def)
qed (use assms(2,3) in auto)

end
