(* ===== verification/Gateway_Time.thy ===== *)
theory Gateway_Time
  imports Gateway_Stream
begin

text \<open>
  Simulation time: in a reachable state of a connected gateway the clock moves only under a
  pending update and never past it, the event loop always has an event, and the number of pending
  \<open>ForwardUp\<close> events is the number of queued messages. Also the functional behaviour of the
  single functions on the platform.
\<close>

section \<open>Reachable states\<close>

context gateway_host begin

lemma reachable_facts:
  assumes "gw_reachable S cal valid P H s0 s" and "\<forall>f. s_main s \<noteq> Main_Failed f"
  shows "valid (s_user s) (s_world s)"
    and "gw_ok (sim_now S (s_world s0)) (forward_extra (s_thread s)) (s_gw s) (cal (s_world s))"
    and "s_main s = Main_Join b \<Longrightarrow> m_state (s_gw s) = STOPPING"
  using reachable_ok[OF assms(1)] assms(2) by (auto simp: sys_ok_def)

lemma clock_step:
  assumes r: "gw_reachable S cal valid P H s0 s" and m: "s_main s = Main_Run"
    and conn: "m_state (s_gw s) = CONNECTED" and nx: "sim_next S (s_world s) = Some (c, w)"
  shows "sim_now S w = sim_now S (s_world s) \<or>
    sim_now S (s_world s) < sim_now S w \<and> sim_now S w \<le> m_timePause (s_gw s) \<and>
    (\<exists>e data. (e, m_timePause (s_gw s), GatewayHandleUpdate data) \<in> set (cal_events (cal (s_world s))))"
proof -
  have v: "valid (s_user s) (s_world s)"
    and fg: "frozen (cal (s_world s)) \<or> granted (m_timePause (s_gw s)) (cal (s_world s))"
    using reachable_facts(1,2)[OF r] m conn by (auto simp: gw_ok_def)
  from sim_next_event[OF v nx] have v': "valid (s_user s) w"
    and nk: "cal_next (cal (s_world s)) = Some (c, cal w)" by blast+
  note mono = cal_next_now[OF sim_ok[OF v] nk]
  from fg show ?thesis
  proof
    assume "frozen (cal (s_world s))"
    then obtain u where u: "u \<in> set (cal_events (cal (s_world s)))"
      "ev_time u = cal_now (cal (s_world s))" by (auto simp: frozen_def)
    from cal_next_not_past[OF sim_ok[OF v] nk u(1)] u(2) mono show ?thesis
      by (simp add: sim_time[OF v] sim_time[OF v'])
  next
    assume "granted (m_timePause (s_gw s)) (cal (s_world s))"
    then obtain u d where u: "u \<in> set (cal_events (cal (s_world s)))"
      "ev_time u = m_timePause (s_gw s)" "ev_call u = GatewayHandleUpdate d"
      by (auto simp: granted_def)
    then have "(ev_id u, m_timePause (s_gw s), GatewayHandleUpdate d) \<in> set (cal_events (cal (s_world s)))"
      by (metis prod.collapse)
    with cal_next_not_past[OF sim_ok[OF v] nk u(1)] u(2) mono show ?thesis
      by (auto simp: sim_time[OF v] sim_time[OF v'])
  qed
qed

lemma clock_bound:
  assumes "gw_reachable S cal valid P H s0 s" and "\<forall>f. s_main s \<noteq> Main_Failed f"
    and "m_state (s_gw s) = CONNECTED"
  shows "sim_now S (s_world s) \<le> m_timePause (s_gw s) \<or> sim_now S (s_world s) = sim_now S (s_world s0)"
  using reachable_facts(1,2)[OF assms(1,2)] assms(3) sim_time by (auto simp: gw_ok_def)

lemma loop_alive:
  assumes r: "gw_reachable S cal valid P H s0 s" and m: "s_main s = Main_Run"
    and conn: "m_state (s_gw s) = CONNECTED" and run: "\<not> cal_stopped (cal (s_world s))"
  shows "\<exists>c w. sim_next S (s_world s) = Some (c, w)"
proof -
  have v: "valid (s_user s) (s_world s)"
    and "frozen (cal (s_world s)) \<or> granted (m_timePause (s_gw s)) (cal (s_world s))"
    using reachable_facts(1,2)[OF r] m conn by (auto simp: gw_ok_def)
  then have "cal_events (cal (s_world s)) \<noteq> []" by (auto simp: frozen_def granted_def)
  then have "cal_next (cal (s_world s)) \<noteq> None"
    using run by (cases "cal_events (cal (s_world s))") (simp_all add: cal_next_def)
  with sim_no_event[OF v] show ?thesis by (cases "sim_next S (s_world s)") auto
qed

lemma forward_matches_queue:
  assumes "gw_reachable S cal valid P H s0 s" and "\<forall>f. s_main s \<noteq> Main_Failed f"
  shows "length (m_messageQueue (s_gw s)) =
    length (filter (\<lambda>v. ev_call v = GatewayForwardUp) (cal_events (cal (s_world s)))) +
    (if s_thread s = T_Forward then 1 else 0)"
  using reachable_facts(2)[OF assms] by (simp add: gw_ok_def forward_count_def forward_extra_def)

lemma forward_has_message:
  assumes r: "gw_reachable S cal valid P H s0 s" and m: "s_main s = Main_Run"
    and nx: "sim_next S (s_world s) = Some (GatewayForwardUp, w)"
  shows "m_messageQueue (s_gw s) \<noteq> []"
proof -
  have v: "valid (s_user s) (s_world s)" using reachable_facts(1)[OF r] m by simp
  from sim_next_event[OF v nx] have "cal_next (cal (s_world s)) = Some (GatewayForwardUp, cal w)" by blast
  then obtain e where
    "cal_events (cal (s_world s)) = (e, cal_now (cal w), GatewayForwardUp) # cal_events (cal w)"
    by (rule cal_next_SomeD)
  with forward_matches_queue[OF r] m show ?thesis by auto
qed

end

section \<open>Single functions on the platform\<close>

context gateway_platform begin

text \<open>After this, the next event cannot move the clock.\<close>

lemma frozen_next:
  assumes v: "valid w" and f: "frozen (cal w)" and nx: "sim_next S w = Some (c, w')"
  shows "sim_now S w' = sim_now S w"
proof -
  from next_Some[OF v nx] have v': "valid w'" and nk: "cal_next (cal w) = Some (c, cal w')" by blast+
  from f obtain u where u: "u \<in> set (cal_events (cal w))" "ev_time u = cal_now (cal w)"
    by (auto simp: frozen_def)
  from cal_next_not_past[OF cal_ok[OF v] nk u(1)] cal_next_now[OF cal_ok[OF v] nk] u(2) show ?thesis
    by (simp add: now[OF v] now[OF v'])
qed

lemma schedule_wait:
  assumes v: "valid w" and s: "sim_schedule_now S GatewayWaitForNextUpdate w = (e, w')"
  shows "valid w' \<and> sim_pending S e w' \<and> sim_now S w' = sim_now S w \<and>
    (\<forall>c w''. sim_next S w' = Some (c, w'') \<longrightarrow> sim_now S w'' = sim_now S w)"
proof -
  from schedule_now[OF v s] have w': "valid w'"
    and k: "cal w' = cal_schedule e 0 GatewayWaitForNextUpdate (cal w)" by blast+
  have t: "sim_now S w' = sim_now S w" by (simp add: now[OF v] now[OF w'] k)
  have "sim_pending S e w'" by (simp add: pending[OF w'] k cal_pending_def)
  with w' t frozen_next[OF w'] show ?thesis by (simp add: k)
qed

lemma WaitForNextUpdate_freezes:
  assumes v: "valid w" and st: "m_state g \<noteq> STOPPING" and run: "WaitForNextUpdate S (g, w) = (g', w')"
  shows "\<exists>e. m_eventWait g' = Some e \<and> sim_pending S e w' \<and> sim_now S w' = sim_now S w \<and>
    (\<forall>c w''. sim_next S w' = Some (c, w'') \<longrightarrow> sim_now S w'' = sim_now S w)"
  using v run
proof (cases rule: WaitForNextUpdate_cal)
  case stopping
  with st show ?thesis by simp
next
  case (wait e)
  have "sim_now S w' = sim_now S w" by (simp add: now[OF v] now[OF wait(3)] wait(5))
  moreover have "sim_pending S e w'" by (simp add: pending[OF wait(3)] wait(5) cal_pending_def)
  ultimately show ?thesis using frozen_next[OF wait(3)] wait(2) by (simp add: wait(5))
qed

text \<open>\<open>Stop\<close> leaves none of the gateway's two events, and a second call changes nothing.\<close>

lemma Stop_finish_pending:
  assumes v: "valid w" and run: "Stop_finish S P c (g, w) = (g', w')"
  shows "valid w' \<and> \<not> is_pending S (m_eventWait g') w' \<and> \<not> is_pending S (m_eventDestroy g') w'"
proof -
  note r = Stop_finish_cal[OF v run]
  have "\<not> cal_pending e (cal w')" if "m_eventWait g = Some e \<or> m_eventDestroy g = Some e" for e
    using that unfolding r(2) by (auto simp: cal_cancel_opt_def cal_pending_def split: option.splits)
  then show ?thesis using r(1,3) by (auto simp: is_pending_def pending split: option.splits)
qed

lemma Gateway_Stop_ok:
  assumes v: "valid w" and run: "Gateway_Stop S P (g, w) = (g', w')"
  shows "m_state g' = STOPPING \<and> valid w' \<and>
    \<not> is_pending S (m_eventWait g') w' \<and> \<not> is_pending S (m_eventDestroy g') w' \<and>
    Gateway_Stop S P (g', w') = (g', w')"
proof -
  have f: "Stop_finish S P (m_state g = CONNECTED) (g\<lparr>m_state := STOPPING\<rparr>, w) = (g', w')"
    using run by (simp add: Gateway_Stop_def Stop_signal_def)
  note p = Stop_finish_pending[OF v f]
  have st: "m_state g' = STOPPING" using Stop_finish_cal(3)[OF v f] by (simp split: if_splits)
  then have "g'\<lparr>m_state := STOPPING\<rparr> = g'" by simp
  with p st have "Gateway_Stop S P (g', w') = (g', w')"
    by (simp add: Gateway_Stop_def Stop_signal_def Stop_finish_def Let_def)
  with p st show ?thesis by simp
qed

text \<open>No identifier is forgotten.\<close>

lemma process_message_used:
  assumes v: "valid w" and run: "process_message S T vs (g, w) = Inr (g', w')"
  shows "cal_used (cal w) \<subseteq> cal_used (cal w')"
  using v run by (cases rule: process_message_cal) auto

text \<open>A normal message: the update runs at the time stamp, relative to the first one.\<close>

lemma process_message_normal:
  assumes v: "valid w" and T: "0 \<le> T" "0 \<le> m_timeStart g"
    and r: "in_int64 (T - m_timeStart g)" "in_int64 (T - m_timeStart g - sim_now S w)"
    and used: "\<forall>i. m_eventWait g = Some i \<longrightarrow> i \<in> cal_used (cal w)"
  shows "if T - m_timeStart g < sim_now S w
    then process_message S T vs (g, w) = Inl (Fatal ''received timestamps were not increasing values'')
    else \<exists>e w'. process_message S T vs (g, w) = Inr (g\<lparr>m_timePause := T - m_timeStart g\<rparr>, w') \<and>
      valid w' \<and> sim_now S w' = sim_now S w \<and>
      (e, T - m_timeStart g, GatewayHandleUpdate vs) \<in> set (cal_events (cal w')) \<and>
      \<not> is_pending S (m_eventWait g) w'"
proof -
  define w1 where "w1 = (if is_pending S (m_eventWait g) w then cancel_event S (m_eventWait g) w else w)"
  from cancel_opt[OF v w1_def] have v1: "valid w1"
    and c1: "cal w1 = cal_cancel_opt (m_eventWait g) (cal w)" by blast+
  have t1: "sim_now S w1 = sim_now S w" by (simp add: now[OF v] now[OF v1] c1)
  show ?thesis
  proof (cases "T - m_timeStart g < sim_now S w")
    case True
    with T r show ?thesis by (simp add: process_message_def Let_def t1 flip: w1_def)
  next
    case False
    then have d: "0 \<le> T - m_timeStart g - sim_now S w" by simp
    from schedule_ex[OF v1 d] obtain e w2 where
      s: "sim_schedule S (T - m_timeStart g - sim_now S w) (GatewayHandleUpdate vs) w1 = (e, w2)"
      and v2: "valid w2" and fr: "e \<notin> cal_used (cal w1)"
      and c2: "cal w2 = cal_schedule e (T - m_timeStart g - sim_now S w) (GatewayHandleUpdate vs) (cal w1)"
      by blast
    have p: "process_message S T vs (g, w) = Inr (g\<lparr>m_timePause := T - m_timeStart g\<rparr>, w2)"
      using T r False s by (simp add: process_message_def Let_def t1 flip: w1_def)
    have t2: "sim_now S w2 = sim_now S w" using t1 by (simp add: now[OF v1] now[OF v2] c2)
    have np: "\<not> is_pending S (m_eventWait g) w2"
    proof
      assume "is_pending S (m_eventWait g) w2"
      then obtain i where i: "m_eventWait g = Some i" "cal_pending i (cal w2)"
        by (auto simp: is_pending_def pending[OF v2] split: option.splits)
      then have "i = e" by (auto simp: c2 c1 cal_pending_def cal_cancel_opt_def)
      with fr used i(1) show False by (simp add: c1)
    qed
    show ?thesis using p v2 t2 np False t1 by (auto simp: c2 now[OF v] now[OF v1])
  qed
qed

end

end
