(* ===== verification/Gateway_Progress.thy ===== *)
theory Gateway_Progress
  imports Gateway_Time
begin

text \<open>
  When the simulation can make progress: if the server's time stamps strictly increase, a granted
  update is never blocked, because at most one wait event is pending, the one in \<open>m_eventWait\<close>, and
  none while an update is. (With a repeated time stamp this fails, see \<open>Progress_Properties\<close>.)
\<close>

section \<open>The time stamps of messages\<close>

definition message_stamp :: "string \<Rightarrow> string \<Rightarrow> time option" where
  "message_stamp D message =
     (case split_fields D message of
        None \<Rightarrow> None
      | Some vs \<Rightarrow> (case message_time vs of Inl _ \<Rightarrow> None | Inr T \<Rightarrow> Some T))"

text \<open>The time stamps that are not the signal to terminate.\<close>

definition time_stamps :: "string \<Rightarrow> string list \<Rightarrow> time list" where
  "time_stamps D messages = filter (\<lambda>T. 0 \<le> T) (List.map_filter (message_stamp D) messages)"

lemma time_stamps_simps [simp]:
  "time_stamps D [] = []"
  "time_stamps D (ms @ ms') = time_stamps D ms @ time_stamps D ms'"
  by (simp_all add: time_stamps_def map_filter_def)

lemma time_stamps_one:
  "message_stamp D m = Some T \<Longrightarrow> time_stamps D [m] = (if 0 \<le> T then [T] else [])"
  by (simp add: time_stamps_def map_filter_def)

lemma stamps_length: "length (time_stamps D ms) \<le> length ms"
  unfolding time_stamps_def map_filter_def by (rule le_trans[OF length_filter_le]) simp

text \<open>The times that the gateway keeps, from the messages that it has processed.\<close>

definition times_kept :: "gateway \<Rightarrow> time list \<Rightarrow> bool" where
  "times_kept g ts \<longleftrightarrow>
     (if ts = [] then m_timeStart g < 0 \<and> m_timePause g = 0
      else m_timeStart g = hd ts \<and> 0 \<le> hd ts \<and> m_timePause g = last ts - hd ts)"

section \<open>Wait events and updates\<close>

definition waits :: "'x callback calendar \<Rightarrow> 'x callback event set" where
  "waits k = {v \<in> set (cal_events k). ev_call v = GatewayWaitForNextUpdate}"

definition updates :: "'x callback calendar \<Rightarrow> 'x callback event set" where
  "updates k = {v \<in> set (cal_events k). \<exists>d. ev_call v = GatewayHandleUpdate d}"

definition paced :: "event_id option \<Rightarrow> time \<Rightarrow> 'x callback calendar \<Rightarrow> bool" where
  "paced i p k \<longleftrightarrow>
     (\<forall>v \<in> waits k. i = Some (ev_id v)) \<and> (updates k = {} \<or> waits k = {}) \<and>
     inj_on ev_time (updates k) \<and> (\<forall>v \<in> updates k. ev_time v \<le> p)"

definition paced_popped :: "'x callback \<Rightarrow> event_id option \<Rightarrow> time \<Rightarrow> 'x callback calendar \<Rightarrow> bool" where
  "paced_popped c i p k \<longleftrightarrow> paced i p k \<and>
     (c = GatewayWaitForNextUpdate \<longrightarrow> updates k = {} \<and> waits k = {}) \<and>
     ((\<exists>d. c = GatewayHandleUpdate d) \<longrightarrow> waits k = {} \<and> (\<forall>v \<in> updates k. cal_now k < ev_time v))"

lemma waits_schedule [simp]:
  "waits (cal_schedule e d c k) =
     (if c = GatewayWaitForNextUpdate then insert (e, cal_now k + d, c) (waits k) else waits k)"
  by (auto simp: waits_def)

lemma updates_schedule [simp]:
  "updates (cal_schedule e d c k) =
     (if \<exists>data. c = GatewayHandleUpdate data then insert (e, cal_now k + d, c) (updates k) else updates k)"
  by (auto simp: updates_def)

lemma waits_stopped [simp]:
  "waits (k\<lparr>cal_stopped := b\<rparr>) = waits k" "updates (k\<lparr>cal_stopped := b\<rparr>) = updates k"
  by (simp_all add: waits_def updates_def)

lemma waits_cancel:
  assumes "\<forall>v \<in> waits k. i = Some (ev_id v)"
  shows "waits (cal_cancel_opt i k) = {}"
  using assms by (auto simp: waits_def cal_cancel_opt_def split: option.splits)

lemma updates_cancel:
  assumes "wait_owned i k"
  shows "updates (cal_cancel_opt i k) = updates k"
  using assms by (cases i) (auto simp: updates_def cal_cancel_opt_def wait_owned_def)

lemma cancel_subset:
  "waits (cal_cancel_opt i k) \<subseteq> waits k" "updates (cal_cancel_opt i k) \<subseteq> updates k"
  using cal_cancel_opt_subset(1)[of i k] by (auto simp: waits_def updates_def)

lemma paced_subset:
  assumes "paced i p k" and "waits k' \<subseteq> waits k" and "updates k' \<subseteq> updates k"
  shows "paced i p k'"
  using assms unfolding paced_def by (auto intro: inj_on_subset)

lemma keeps_gateway_paced:
  assumes "keeps_gateway k k'"
  shows "waits k' = waits k" and "updates k' = updates k"
  using keeps_events_event[OF assms] by (auto simp: waits_def updates_def)

lemma paced_pop:
  assumes ok: "cal_ok k" and nx: "cal_next k = Some (c, k')" and p: "paced i p k"
  shows "paced_popped c i p k'"
proof -
  from nx obtain e where ev: "cal_events k = (e, cal_now k', c) # cal_events k'" by (rule cal_next_SomeD)
  from ok ev have e: "\<forall>v \<in> set (cal_events k'). ev_id v \<noteq> e" by (auto simp: cal_ok_iff)
  have later: "\<forall>v \<in> set (cal_events k'). cal_now k' \<le> ev_time v"
    using cal_next_not_past[OF ok nx] ev by simp
  have w: "waits k = (if c = GatewayWaitForNextUpdate then insert (e, cal_now k', c) (waits k') else waits k')"
    and u: "updates k = (if \<exists>d. c = GatewayHandleUpdate d then insert (e, cal_now k', c) (updates k') else updates k')"
    by (auto simp: waits_def updates_def ev)
  have "paced i p k'" by (rule paced_subset[OF p]) (auto simp: w u)
  moreover have "updates k' = {} \<and> waits k' = {}" if c: "c = GatewayWaitForNextUpdate"
  proof -
    from p c w have "i = Some e" "updates k = {}" "\<forall>v \<in> waits k'. i = Some (ev_id v)"
      by (auto simp: paced_def)
    with e u c show ?thesis by (fastforce simp: waits_def)
  qed
  moreover have "waits k' = {} \<and> (\<forall>v \<in> updates k'. cal_now k' < ev_time v)" if c: "\<exists>d. c = GatewayHandleUpdate d"
  proof
    from p c u w show "waits k' = {}" by (auto simp: paced_def)
    show "\<forall>v \<in> updates k'. cal_now k' < ev_time v"
    proof
      fix v
      assume v: "v \<in> updates k'"
      then have in_k: "v \<in> set (cal_events k')" by (simp add: updates_def)
      have "ev_time v \<noteq> cal_now k'"
      proof
        assume t: "ev_time v = cal_now k'"
        have inj: "inj_on ev_time (updates k)" using p by (simp add: paced_def)
        have "v \<in> updates k" "(e, cal_now k', c) \<in> updates k" using v c u by auto
        from inj_onD[OF inj _ this] t have "v = (e, cal_now k', c)" by simp
        with e in_k show False by auto
      qed
      with later in_k show "cal_now k' < ev_time v" by fastforce
    qed
  qed
  ultimately show ?thesis unfolding paced_popped_def by blast
qed

section \<open>The handlers\<close>

context gateway_platform begin

lemma WaitForNextUpdate_paced:
  assumes v: "valid w" and inv: "paced_popped GatewayWaitForNextUpdate (m_eventWait g) (m_timePause g) (cal w)"
    and run: "WaitForNextUpdate S (g, w) = (g', w')"
  shows "paced (m_eventWait g') (m_timePause g') (cal w') \<and> m_timePause g' = m_timePause g \<and>
    m_timeStart g' = m_timeStart g"
  using v run
proof (cases rule: WaitForNextUpdate_cal)
  case stopping
  with inv show ?thesis by (simp add: paced_popped_def)
next
  case (wait e)
  from inv have none: "waits (cal w) = {}" "updates (cal w) = {}" by (simp_all add: paced_popped_def)
  with cancel_subset[of "m_eventWait g" "cal w"] wait show ?thesis by (simp add: paced_def)
qed

lemma process_message_paced:
  assumes v: "valid w" and own: "wait_owned (m_eventWait g) (cal w)"
    and inv: "paced (m_eventWait g) (m_timePause g) (cal w)"
    and run: "process_message S T vs (g, w) = Inr (g', w')"
    and later: "0 \<le> T \<Longrightarrow> 0 \<le> m_timeStart g \<Longrightarrow> m_timePause g < T - m_timeStart g"
  shows "paced (m_eventWait g') (m_timePause g') (cal w') \<and>
    m_timeStart g' = (if 0 \<le> T \<and> m_timeStart g < 0 then T else m_timeStart g) \<and>
    m_timePause g' = (if 0 \<le> T \<and> 0 \<le> m_timeStart g then T - m_timeStart g else m_timePause g)"
  using v run
proof (cases rule: process_message_cal)
  case terminate
  with inv show ?thesis by (simp add: paced_def)
next
  case (first e)
  with inv show ?thesis by (simp add: paced_def)
next
  case (normal e d)
  define p where "p = T - m_timeStart g"
  let ?k = "cal_cancel_opt (m_eventWait g) (cal w)"
  have w: "waits ?k = {}" using inv waits_cancel unfolding paced_def by blast
  have u: "updates ?k = updates (cal w)" by (rule updates_cancel[OF own])
  have p: "m_timePause g < p" using later normal(1,2) by (simp add: p_def)
  have before: "\<forall>v \<in> updates (cal w). ev_time v < p" using inv p by (fastforce simp: paced_def)
  have "inj_on ev_time (insert (e, p, GatewayHandleUpdate vs) (updates (cal w)))"
    using inv before by (fastforce simp: paced_def)
  with before w have "paced (m_eventWait g) p (cal w')"
    unfolding paced_def normal(8) using normal(4) by (auto simp: u p_def intro: less_imp_le)
  with normal show ?thesis by (simp add: p_def)
qed

lemma Stop_finish_paced:
  assumes v: "valid w" and inv: "paced (m_eventWait g) (m_timePause g) (cal w)"
    and run: "Stop_finish S P c (g, w) = (g', w')"
  shows "paced (m_eventWait g') (m_timePause g') (cal w') \<and> m_timePause g' = m_timePause g \<and>
    m_timeStart g' = m_timeStart g"
  using paced_subset[OF paced_subset[OF inv cancel_subset] cancel_subset] Stop_finish_cal(2,3)[OF v run] by simp

end

section \<open>The system\<close>

text \<open>The invariant, for a run in which the time stamps processed so far strictly increase.\<close>

definition sys_paced :: "('w \<Rightarrow> 'x callback calendar) \<Rightarrow> ('u, 'w) gw_sys \<Rightarrow> bool" where
  "sys_paced cal s \<longleftrightarrow>
     paced (m_eventWait (s_gw s)) (m_timePause (s_gw s)) (cal (s_world s)) \<and>
     times_kept (s_gw s) (time_stamps (m_delimiterField (s_gw s)) (s_forwarded s))"

definition increasing_stamps :: "('u, 'w) gw_sys \<Rightarrow> bool" where
  "increasing_stamps s \<longleftrightarrow> sorted_wrt (<) (time_stamps (m_delimiterField (s_gw s)) (s_forwarded s))"

lemma sorted_wrt_snoc_last:
  fixes ts :: "'a :: linorder list"
  assumes "sorted_wrt (<) (ts @ [T])" and "ts \<noteq> []"
  shows "last ts < T"
  using assms by (simp add: sorted_wrt_append)

context gateway_host begin

lemmas host_paced_wait = gateway_platform.WaitForNextUpdate_paced[OF platform]
lemmas host_paced_message = gateway_platform.process_message_paced[OF platform]
lemmas host_paced_stop = gateway_platform.Stop_finish_paced[OF platform]

lemma foreign_paced:
  assumes "paced i p (cal w)"
    and "valid u' w' \<and> keeps_gateway (cal w) (cal w') \<and> (\<exists>ds. g' = g\<lparr>m_data := ds\<rparr>)"
    and "m_eventWait g = i" "m_timePause g = p"
  shows "paced (m_eventWait g') (m_timePause g') (cal w') \<and> m_timePause g' = p \<and> m_timeStart g' = m_timeStart g"
proof -
  from assms(2) have kg: "keeps_gateway (cal w) (cal w')" by (elim conjE)
  from assms(2) obtain ds where g': "g' = g\<lparr>m_data := ds\<rparr>" by (elim conjE exE)
  from assms(1) have "paced i p (cal w')" unfolding paced_def keeps_gateway_paced[OF kg] .
  with assms(3,4) g' show ?thesis by simp
qed

lemma HandleUpdate_paced:
  assumes v: "valid u w" and inv: "paced_popped (GatewayHandleUpdate data) (m_eventWait g) (m_timePause g) (cal w)"
    and run: "HandleUpdate S (do_update H) data (u, g, w) = Inr (u', g', w')"
  shows "paced (m_eventWait g') (m_timePause g') (cal w') \<and> m_timePause g' = m_timePause g \<and>
    m_timeStart g' = m_timeStart g"
proof (cases "sim_now S w = m_timePause g")
  case True
  obtain e w1 where s: "sim_schedule_now S GatewayWaitForNextUpdate w = (e, w1)" by fastforce
  let ?g = "g\<lparr>m_eventWait := Some e\<rparr>"
  from True run s have d: "do_update H data (u, ?g, w1) = Inr (u', g', w')" by (simp add: HandleUpdate_def)
  from sim_scheduled_now[OF v s] have v1: "valid u w1"
    and c1: "cal w1 = cal_schedule e 0 GatewayWaitForNextUpdate (cal w)" by blast+
  have t: "cal_now (cal w) = m_timePause g" using True sim_time[OF v] by simp
  from inv have later: "\<forall>x \<in> updates (cal w). cal_now (cal w) < ev_time x"
    and wt: "waits (cal w) = {}" by (simp_all add: paced_popped_def)
  from inv have "\<forall>x \<in> updates (cal w). ev_time x \<le> m_timePause g" by (simp add: paced_popped_def paced_def)
  with later t have "updates (cal w) = {}" by force
  with wt have p1: "paced (m_eventWait ?g) (m_timePause ?g) (cal w1)" by (simp add: c1 paced_def)
  have same: "m_timePause ?g = m_timePause g" "m_timeStart ?g = m_timeStart g" by simp_all
  from foreign_paced[OF p1 do_update[OF v1 d] refl refl] show ?thesis unfolding same .
next
  case False
  with run have d: "do_update H data (u, g, w) = Inr (u', g', w')" by (simp add: HandleUpdate_def)
  from inv have "paced (m_eventWait g) (m_timePause g) (cal w)" by (simp add: paced_popped_def)
  from foreign_paced[OF this do_update[OF v d] refl refl] show ?thesis .
qed

lemma ForwardUp_paced:
  assumes v: "valid u w" and pop: "gw_popped t0 x GatewayForwardUp g (cal w)"
    and inv: "paced (m_eventWait g) (m_timePause g) (cal w)"
    and kept: "times_kept g (time_stamps (m_delimiterField g) ms)"
    and inc: "sorted_wrt (<) (time_stamps (m_delimiterField g) (ms @ take 1 (m_messageQueue g)))"
    and run: "ForwardUp S (g, w) = Inr (g', w')"
  shows "paced (m_eventWait g') (m_timePause g') (cal w') \<and>
    times_kept g' (time_stamps (m_delimiterField g) (ms @ take 1 (m_messageQueue g)))"
proof -
  from pop obtain m q where q: "m_messageQueue g = m # q"
    by (cases "m_messageQueue g") (auto simp: gw_popped_def)
  let ?g = "g\<lparr>m_messageQueue := q\<rparr>" and ?D = "m_delimiterField g"
  from run q obtain T vs where p: "process_message S T vs (?g, w) = Inr (g', w')"
    and st: "message_stamp ?D m = Some T"
    by (auto simp: ForwardUp_def message_stamp_def split: option.splits)
  let ?ts = "time_stamps ?D ms"
  have ts: "time_stamps ?D (ms @ take 1 (m_messageQueue g)) = ?ts @ (if 0 \<le> T then [T] else [])"
    by (simp add: q time_stamps_one[OF st])
  have later: "m_timePause ?g < T - m_timeStart ?g" if "0 \<le> T" "0 \<le> m_timeStart ?g"
  proof -
    from kept that(2) have ne: "?ts \<noteq> []" by (auto simp: times_kept_def)
    with sorted_wrt_snoc_last[of ?ts T] inc ts that(1) kept show ?thesis by (simp add: times_kept_def)
  qed
  have own: "wait_owned (m_eventWait ?g) (cal w)" using pop by (simp add: gw_popped_def)
  have "paced (m_eventWait ?g) (m_timePause ?g) (cal w)" using inv by simp
  note r = host_paced_message[OF v own this p later]
  from r have "m_timeStart g' = (if 0 \<le> T \<and> m_timeStart g < 0 then T else m_timeStart g)"
      "m_timePause g' = (if 0 \<le> T \<and> 0 \<le> m_timeStart g then T - m_timeStart g else m_timePause g)"
    by simp_all
  with kept have "times_kept g' (?ts @ (if 0 \<le> T then [T] else []))"
    by (cases "?ts = []") (auto simp: times_kept_def)
  with r show ?thesis unfolding ts by blast
qed

lemma times_kept_cong:
  "m_timeStart g' = m_timeStart g \<Longrightarrow> m_timePause g' = m_timePause g \<Longrightarrow> times_kept g' ts = times_kept g ts"
  by (simp add: times_kept_def)

lemma dispatch_paced:
  assumes v: "valid u w" and pop: "gw_popped t0 x c g (cal w)" and c: "c \<noteq> GatewayStop"
    and inv: "paced_popped c (m_eventWait g) (m_timePause g) (cal w)"
    and kept: "times_kept g (time_stamps (m_delimiterField g) ms)"
    and inc: "sorted_wrt (<) (time_stamps (m_delimiterField g)
      (ms @ (if c = GatewayForwardUp then take 1 (m_messageQueue g) else [])))"
    and run: "dispatch S H c (u, g, w) = Inr (u', g', w')"
  shows "paced (m_eventWait g') (m_timePause g') (cal w') \<and>
    times_kept g' (time_stamps (m_delimiterField g)
      (ms @ (if c = GatewayForwardUp then take 1 (m_messageQueue g) else [])))"
proof -
  from inv have p: "paced (m_eventWait g) (m_timePause g) (cal w)" by (simp add: paced_popped_def)
  have other: ?thesis if "paced (m_eventWait g') (m_timePause g') (cal w') \<and>
      m_timePause g' = m_timePause g \<and> m_timeStart g' = m_timeStart g" "c \<noteq> GatewayForwardUp"
  proof -
    have "times_kept g' (time_stamps (m_delimiterField g) ms)"
      using that(1) kept times_kept_cong[of g' g] by blast
    then have "times_kept g' (time_stamps (m_delimiterField g)
        (ms @ (if c = GatewayForwardUp then take 1 (m_messageQueue g) else [])))" using that(2) by simp
    with that(1) show ?thesis by blast
  qed
  show ?thesis
  proof (cases "gateway_callback c")
    case False
    then have "other_event H c (u, g, w) = Inr (u', g', w')"
      using run by (cases c) (simp_all add: dispatch_def)
    from foreign_paced[OF p other_event[OF v False this] refl refl] False show ?thesis
      by (intro other) auto
  next
    case True
    then consider "c = GatewayForwardUp" | "c = GatewayWaitForNextUpdate"
      | d where "c = GatewayHandleUpdate d" | d where "c = GatewayDoInitialize d"
      using c by (cases c) auto
    then show ?thesis
    proof cases
      case 1
      with run have "ForwardUp S (g, w) = Inr (g', w')" by (auto simp: dispatch_def)
      from ForwardUp_paced[OF v pop[unfolded 1] p kept _ this] inc 1 show ?thesis by simp
    next
      case 2
      with run have "WaitForNextUpdate S (g, w) = (g', w')" by (simp add: dispatch_def)
      from host_paced_wait[OF v inv[unfolded 2] this] 2 show ?thesis by (intro other) (blast, simp)
    next
      case (3 d)
      with run have "HandleUpdate S (do_update H) d (u, g, w) = Inr (u', g', w')" by (simp add: dispatch_def)
      from HandleUpdate_paced[OF v inv[unfolded 3] this] 3 show ?thesis by (intro other) (blast, simp)
    next
      case (4 d)
      with run have "do_initialize H d (u, g, w) = Inr (u', g', w')" by (simp add: dispatch_def)
      from foreign_paced[OF p do_initialize[OF v this] refl refl] 4 show ?thesis by (intro other) (blast, simp)
    qed
  qed
qed

text \<open>The steps of the main thread.\<close>

lemma paced_popped_destroy:
  assumes "cal_events k' = cal_events k" and "paced i p k" and "gateway_callback c \<longrightarrow> c = GatewayStop"
  shows "paced_popped c i p k'"
proof -
  have "waits k' = waits k" "updates k' = updates k" using assms(1) by (simp_all add: waits_def updates_def)
  with assms(2,3) show ?thesis by (auto simp: paced_popped_def paced_def)
qed

lemma Stop_finish_sys_paced:
  assumes v: "valid u w" and inv: "paced (m_eventWait g) (m_timePause g) (cal w)"
    and kept: "times_kept g (time_stamps (m_delimiterField g) ms)"
    and run: "Stop_finish S P c (g, w) = (g', w')"
  shows "paced (m_eventWait g') (m_timePause g') (cal w') \<and>
    times_kept g' (time_stamps (m_delimiterField g') ms)"
proof -
  note r = host_paced_stop[OF v inv run]
  have "m_delimiterField g' = m_delimiterField g"
    using Stop_finish_gateway[of S P c g w] run by (auto split: if_splits)
  with r kept times_kept_cong[of g' g] show ?thesis by auto
qed

lemma main_stop_paced:
  assumes v: "valid (s_user s) (s_world s)" and inv: "sys_paced cal s"
  shows "sys_paced cal (main_stop S P s)"
proof (cases "m_state (s_gw s) = CONNECTED \<and> m_thread (s_gw s)")
  case True
  with inv show ?thesis by (simp add: sys_paced_def main_stop_def Stop_signal_def times_kept_def)
next
  case False
  let ?g = "s_gw s\<lparr>m_state := STOPPING\<rparr>"
  obtain g2 w2 where f: "Stop_finish S P (m_state (s_gw s) = CONNECTED) (?g, s_world s) = (g2, w2)"
    by fastforce
  have "paced (m_eventWait ?g) (m_timePause ?g) (cal (s_world s))"
    "times_kept ?g (time_stamps (m_delimiterField ?g) (s_forwarded s))"
    using inv by (simp_all add: sys_paced_def times_kept_def)
  from Stop_finish_sys_paced[OF v this f] False f show ?thesis
    by (auto simp: sys_paced_def main_stop_def Stop_signal_def)
qed

lemma main_join_paced:
  assumes v: "valid (s_user s) (s_world s)" and inv: "sys_paced cal s"
  shows "sys_paced cal (main_join S P b s)"
proof -
  obtain g2 w2 where f: "Stop_finish S P True (s_gw s, s_world s) = (g2, w2)" by fastforce
  have "paced (m_eventWait (s_gw s)) (m_timePause (s_gw s)) (cal (s_world s))"
    "times_kept (s_gw s) (time_stamps (m_delimiterField (s_gw s)) (s_forwarded s))"
    using inv by (simp_all add: sys_paced_def)
  from Stop_finish_sys_paced[OF v this f] f show ?thesis by (simp add: sys_paced_def main_join_def)
qed

lemma main_event_paced:
  assumes v: "valid (s_user s) w" and pop: "gw_popped t0 x c (s_gw s) (cal w)"
    and inv: "paced_popped c (m_eventWait (s_gw s)) (m_timePause (s_gw s)) (cal w)"
    and kept: "times_kept (s_gw s) (time_stamps (m_delimiterField (s_gw s)) (s_forwarded s))"
    and r: "s' = main_event S P H c (s\<lparr>s_world := w\<rparr>)"
    and alive: "\<forall>f. s_main s' \<noteq> Main_Failed f" and inc: "increasing_stamps s'"
  shows "sys_paced cal s'"
proof (cases "c = GatewayStop")
  case True
  have "sys_paced cal (s\<lparr>s_world := w\<rparr>)" using inv kept by (simp add: sys_paced_def paced_popped_def)
  with main_stop_paced[of "s\<lparr>s_world := w\<rparr>"] v r True show ?thesis by (simp add: main_event_def)
next
  case False
  show ?thesis
  proof (cases "dispatch S H c (s_user s, s_gw s, w)")
    case (Inl f)
    with alive r False show ?thesis by (simp add: main_event_def)
  next
    case (Inr q)
    obtain u g' w' where q: "q = (u, g', w')" by (cases q)
    let ?ms = "s_forwarded s @ (if c = GatewayForwardUp then take 1 (m_messageQueue (s_gw s)) else [])"
    have s': "s' = s\<lparr>s_user := u, s_gw := g', s_world := w', s_forwarded := ?ms\<rparr>"
      using False Inr q r by (simp add: main_event_def)
    have d: "m_delimiterField g' = m_delimiterField (s_gw s)"
      using dispatch_ok[OF v pop False Inr[unfolded q]] by (simp add: gw_frame_def)
    have "sorted_wrt (<) (time_stamps (m_delimiterField (s_gw s)) ?ms)"
      using inc unfolding increasing_stamps_def s' by (simp add: d)
    from dispatch_paced[OF v pop False inv kept this Inr[unfolded q]]
    show ?thesis unfolding sys_paced_def s' by (simp add: d)
  qed
qed

text \<open>The receiving thread schedules neither wait events nor updates.\<close>

lemma context_paced:
  assumes v: "valid u w" and c: "c \<noteq> GatewayWaitForNextUpdate" "\<forall>d. c \<noteq> GatewayHandleUpdate d"
    and inv: "paced i p (cal w)"
  shows "paced i p (cal (sim_schedule_with_context S n 0 c w))"
proof -
  from sim_scheduled_context[OF v, of 0 n c] obtain e where
    k: "cal (sim_schedule_with_context S n 0 c w) = cal_schedule e 0 c (cal w)" by auto
  from c inv show ?thesis by (simp add: paced_def k)
qed

lemma thread_step_paced:
  assumes v: "valid (s_user s) (s_world s)" and inv: "sys_paced cal s" and run: "thread_step S r s = Some s'"
  shows "sys_paced cal s'"
proof -
  from inv have p: "paced (m_eventWait (s_gw s)) (m_timePause (s_gw s)) (cal (s_world s))"
    by (simp add: sys_paced_def)
  note ctx = context_paced[OF v _ _ p]
  show ?thesis
    using run inv ctx
    by (auto simp: thread_step_def Let_def sys_paced_def times_kept_def
        split: thread_pc.splits option.splits recv_result.splits if_splits)
qed

lemma thread_step_forwarded:
  "thread_step S r s = Some s' \<Longrightarrow>
   s_forwarded s' = s_forwarded s \<and> m_delimiterField (s_gw s') = m_delimiterField (s_gw s) \<and>
   m_delimiterMessage (s_gw s') = m_delimiterMessage (s_gw s)"
  by (auto simp: thread_step_def Let_def
      split: thread_pc.splits option.splits recv_result.splits if_splits)

lemma gw_step_delimiters:
  assumes step: "gw_step S P H s l s'" and ok: "sys_ok cal valid t0 s"
  shows "m_delimiterField (s_gw s') = m_delimiterField (s_gw s) \<and>
    m_delimiterMessage (s_gw s') = m_delimiterMessage (s_gw s)"
  using gw_step_cases[OF step ok] thread_step_forwarded main_frame_def by metis

lemma increasing_step:
  assumes step: "gw_step S P H s l s'" and ok: "sys_ok cal valid t0 s" and inc: "increasing_stamps s'"
  shows "increasing_stamps s"
proof -
  have "\<exists>ms. s_forwarded s' = s_forwarded s @ ms"
    using step
  proof (cases rule: gw_step.cases)
    case (run c w)
    then show ?thesis
      by (cases "dispatch S H c (s_user s, s_gw s, w)")
        (auto simp: main_event_def main_stop_def split_beta Let_def)
  next
    case (destroy c w)
    then show ?thesis
      by (cases "dispatch S H c (s_user s, s_gw s, w)")
        (auto simp: main_event_def main_stop_def split_beta Let_def)
  qed (auto dest: thread_step_forwarded simp: main_join_def split_beta Let_def)
  moreover have "m_delimiterField (s_gw s') = m_delimiterField (s_gw s)"
    using gw_step_delimiters[OF step ok] by blast
  ultimately show ?thesis using inc by (auto simp: increasing_stamps_def sorted_wrt_append)
qed

lemma reachable_delimiters:
  "gw_reachable S cal valid P H s0 s \<Longrightarrow>
   m_delimiterField (s_gw s) = m_delimiterField (s_gw s0) \<and>
   m_delimiterMessage (s_gw s) = m_delimiterMessage (s_gw s0)"
proof (induction rule: gw_reachable.induct)
  case (step s0 s l s')
  from gw_step_delimiters[OF step.hyps(2) reachable_ok[OF step.hyps(1)]] step.IH show ?case by simp
qed simp

lemma gw_step_alive:
  assumes "gw_step S P H s l s'"
  shows "\<forall>f. s_main s \<noteq> Main_Failed f"
  using assms by (cases rule: gw_step.cases) auto

lemma gw_step_paced:
  assumes step: "gw_step S P H s l s'" and ok: "sys_ok cal valid t0 s" and inv: "sys_paced cal s"
    and alive: "\<forall>f. s_main s' \<noteq> Main_Failed f" and inc: "increasing_stamps s'"
  shows "sys_paced cal s'"
proof -
  from ok gw_step_alive[OF step] have v: "valid (s_user s) (s_world s)"
    and g: "gw_ok t0 (forward_extra (s_thread s)) (s_gw s) (cal (s_world s))" by (simp_all add: sys_ok_def)
  from inv have p: "paced (m_eventWait (s_gw s)) (m_timePause (s_gw s)) (cal (s_world s))"
    and kept: "times_kept (s_gw s) (time_stamps (m_delimiterField (s_gw s)) (s_forwarded s))"
    by (simp_all add: sys_paced_def)
  show ?thesis
    using step
  proof (cases rule: gw_step.cases)
    case thread
    then show ?thesis using thread_step_paced[OF v inv] by blast
  next
    case (recv d r)
    then show ?thesis using thread_step_paced[OF v inv] by blast
  next
    case (run c w)
    from sim_next_event[OF v run(4)] have "cal_next (cal (s_world s)) = Some (c, cal w)" by blast
    from paced_pop[OF sim_ok[OF v] this p] host_popped[OF v g run(4)]
    show ?thesis using main_event_paced[OF _ _ _ kept run(2) alive inc] by blast
  next
    case run_end
    then show ?thesis using inv by (simp add: sys_paced_def)
  next
    case (destroy c w)
    from event_simulator.next_destroy_Some[OF simulator v destroy(4)]
    have "cal_next_destroy (cal (s_world s)) = Some (c, cal w)" by blast
    then have "cal_events (cal w) = cal_events (cal (s_world s))" by (rule cal_next_destroy_SomeD)
    from host_popped_destroy[OF v g destroy(4)] paced_popped_destroy[OF this p]
    show ?thesis using main_event_paced[OF _ _ _ kept destroy(2) alive inc] by blast
  next
    case (join b d)
    then show ?thesis using main_join_paced[OF v inv] by blast
  qed
qed

text \<open>After \<open>Connect\<close> the gateway's only events are its wait event and \<open>Stop\<close> at the end.\<close>

lemma gw_initial_calendar:
  assumes "gw_initial S cal valid P s"
  obtains k ed ew where "cal (s_world s) = cal_schedule ew 0 GatewayWaitForNextUpdate (cal_schedule_destroy ed GatewayStop k)"
    and "\<forall>v \<in> set (cal_events k). \<not> gateway_callback (ev_call v)"
    and "m_eventWait (s_gw s) = Some ew" and "m_timeStart (s_gw s) < 0" and "m_timePause (s_gw s) = 0"
    and "s_forwarded s = []"
proof -
  from assms obtain n df dm wn g0 ds w0 addr port where
    new: "Gateway_new S n df dm wn = Inr g0" and v0: "valid (s_user s) w0"
    and ev: "\<forall>v \<in> set (cal_events (cal w0)). \<not> gateway_callback (ev_call v)"
    and conn: "Connect S P addr port (g0\<lparr>m_data := ds\<rparr>, w0) = Inr (s_gw s, s_world s)"
    and s: "s_forwarded s = []"
    unfolding gw_initial_def by blast
  from Connect_InrD[OF conn] obtain sock w1 rc w2 ed w3 ew w4 where
    w1: "os_socket P w0 = (sock, w1)" and w2: "os_connect P sock addr port w1 = (rc, w2)" and
    w3: "sim_schedule_destroy S GatewayStop w2 = (ed, w3)" and
    w4: "sim_schedule_now S GatewayWaitForNextUpdate w3 = (ew, w4)" and sw: "s_world s = w4" and
    gw: "s_gw s = (g0\<lparr>m_data := ds\<rparr>)\<lparr>m_socket := Some sock, m_state := CONNECTED,
      m_eventDestroy := Some ed, m_thread := True, m_eventWait := Some ew\<rparr>" by blast
  from host_socket[OF v0 w1] have v1: "valid (s_user s) w1" and c1: "cal w1 = cal w0" by blast+
  from host_connect[OF v1 w2] have v2: "valid (s_user s) w2" and c2: "cal w2 = cal w0" using c1 by auto
  from sim_scheduled_destroy[OF v2 w3] have v3: "valid (s_user s) w3"
    and c3: "cal w3 = cal_schedule_destroy ed GatewayStop (cal w0)" using c2 by auto
  from sim_scheduled_now[OF v3 w4]
  have c4: "cal w4 = cal_schedule ew 0 GatewayWaitForNextUpdate (cal w3)" by auto
  have new': "m_timeStart g0 < 0" "m_timePause g0 = 0"
    using new by (auto simp: Gateway_new_def Seconds_def split: if_splits)
  show ?thesis
  proof (rule that)
    show "cal (s_world s) = cal_schedule ew 0 GatewayWaitForNextUpdate (cal_schedule_destroy ed GatewayStop (cal w0))"
      unfolding sw c4 c3 ..
    show "\<forall>v \<in> set (cal_events (cal w0)). \<not> gateway_callback (ev_call v)" by (rule ev)
    show "m_eventWait (s_gw s) = Some ew" "m_timeStart (s_gw s) < 0" "m_timePause (s_gw s) = 0"
      unfolding gw using new' by simp_all
    show "s_forwarded s = []" by (rule s)
  qed
qed

lemma gw_initial_paced:
  assumes "gw_initial S cal valid P s"
  shows "sys_paced cal s"
proof -
  obtain k ed ew where
    c: "cal (s_world s) = cal_schedule ew 0 GatewayWaitForNextUpdate (cal_schedule_destroy ed GatewayStop k)"
    and ev: "\<forall>v \<in> set (cal_events k). \<not> gateway_callback (ev_call v)"
    and g: "m_eventWait (s_gw s) = Some ew" "m_timeStart (s_gw s) < 0" "m_timePause (s_gw s) = 0"
      "s_forwarded s = []" by (rule gw_initial_calendar[OF assms])
  have "waits (cal_schedule_destroy ed GatewayStop k) = {}" "updates (cal_schedule_destroy ed GatewayStop k) = {}"
    using ev by (auto simp: waits_def updates_def cal_schedule_destroy_def)
  then show ?thesis by (simp add: sys_paced_def times_kept_def paced_def c g)
qed

theorem reachable_paced:
  "gw_reachable S cal valid P H s0 s \<Longrightarrow> \<forall>f. s_main s \<noteq> Main_Failed f \<Longrightarrow> increasing_stamps s \<Longrightarrow>
   sys_paced cal s"
proof (induction rule: gw_reachable.induct)
  case (start s)
  then show ?case using gw_initial_paced by blast
next
  case (step s0 s l s')
  note ok = reachable_ok[OF step.hyps(1)]
  have "sys_paced cal s"
    by (rule step.IH[OF gw_step_alive[OF step.hyps(2)] increasing_step[OF step.hyps(2) ok step.prems(2)]])
  from gw_step_paced[OF step.hyps(2) ok this step.prems] show ?case .
qed

end

end
