(* ===== verification/Gateway_Data.thy ===== *)
theory Gateway_Data
  imports Gateway_Progress
begin

text \<open>
  What the derived class gets: every pending \<open>HandleUpdate\<close> or \<open>DoInitialize\<close> carries the data of a
  message that was processed, and an update is pending for the time stamp of its message, relative
  to the reference time. No assumption is made on the order of the time stamps.
\<close>

section \<open>The events that carry data\<close>

fun carries :: "'x callback \<Rightarrow> bool" where
  "carries (GatewayHandleUpdate _) = True"
| "carries (GatewayDoInitialize _) = True"
| "carries _ = False"

definition carriers :: "'x callback calendar \<Rightarrow> 'x callback event set" where
  "carriers k = {v \<in> set (cal_events k). carries (ev_call v)}"

lemma carries_gateway: "carries c \<Longrightarrow> gateway_callback c"
  by (cases c) simp_all

lemma carriers_schedule [simp]:
  "carriers (cal_schedule e d c k) =
     (if carries c then insert (e, cal_now k + d, c) (carriers k) else carriers k)"
  by (auto simp: carriers_def)

lemma carriers_stopped [simp]: "carriers (k\<lparr>cal_stopped := b\<rparr>) = carriers k"
  by (simp add: carriers_def)

lemma carriers_cancel: "carriers (cal_cancel_opt i k) \<subseteq> carriers k"
  using cal_cancel_opt_subset(1)[of i k] by (auto simp: carriers_def)

lemma carriers_pop: "cal_next k = Some (c, k') \<Longrightarrow> carriers k' \<subseteq> carriers k"
  by (erule cal_next_SomeD) (auto simp: carriers_def)

lemma carriers_pop_destroy: "cal_next_destroy k = Some (c, k') \<Longrightarrow> carriers k' = carriers k"
  by (erule cal_next_destroy_SomeD) (simp add: carriers_def)

lemma keeps_gateway_carriers:
  assumes "keeps_gateway k k'"
  shows "carriers k' = carriers k"
  using keeps_events_event[OF assms] carries_gateway by (auto simp: carriers_def)

section \<open>The messages that they stem from\<close>

definition message_carried :: "string \<Rightarrow> string list \<Rightarrow> time \<Rightarrow> string list \<Rightarrow> bool" where
  "message_carried D ms T data \<longleftrightarrow>
     0 \<le> T \<and>
     (\<exists>m fs. m \<in> set ms \<and> split_fields D m = Some fs \<and> message_time fs = Inr T \<and> data = drop 2 fs)"

lemma message_carried_mono:
  "message_carried D ms T data \<Longrightarrow> set ms \<subseteq> set ms' \<Longrightarrow> message_carried D ms' T data"
  unfolding message_carried_def by blast

definition carried_ok :: "string \<Rightarrow> string list \<Rightarrow> time \<Rightarrow> 'x callback event set \<Rightarrow> bool" where
  "carried_ok D ms start vs \<longleftrightarrow>
     (start < 0 \<longrightarrow> vs = {}) \<and>
     (\<forall>v \<in> vs. \<forall>data.
        (ev_call v = GatewayHandleUpdate data \<longrightarrow> message_carried D ms (start + ev_time v) data) \<and>
        (ev_call v = GatewayDoInitialize data \<longrightarrow> message_carried D ms start data))"

lemma carried_ok_subset: "carried_ok D ms start vs \<Longrightarrow> vs' \<subseteq> vs \<Longrightarrow> carried_ok D ms start vs'"
  unfolding carried_ok_def by blast

lemma carried_ok_more: "carried_ok D ms start vs \<Longrightarrow> set ms \<subseteq> set ms' \<Longrightarrow> carried_ok D ms' start vs"
  unfolding carried_ok_def using message_carried_mono by blast

definition sys_carried :: "('w \<Rightarrow> 'x callback calendar) \<Rightarrow> ('u, 'w) gw_sys \<Rightarrow> bool" where
  "sys_carried cal s \<longleftrightarrow>
     carried_ok (m_delimiterField (s_gw s)) (s_forwarded s) (m_timeStart (s_gw s)) (carriers (cal (s_world s)))"

section \<open>The handlers\<close>

context gateway_platform begin

lemma WaitForNextUpdate_carriers:
  assumes v: "valid w" and run: "WaitForNextUpdate S (g, w) = (g', w')"
  shows "carriers (cal w') \<subseteq> carriers (cal w) \<and> m_timeStart g' = m_timeStart g"
  using v run
proof (cases rule: WaitForNextUpdate_cal)
  case (wait e)
  then show ?thesis using carriers_cancel[of "m_eventWait g" "cal w"] by simp
qed simp

lemma Stop_finish_carriers:
  assumes "valid w" and "Stop_finish S P c (g, w) = (g', w')"
  shows "carriers (cal w') \<subseteq> carriers (cal w)"
  unfolding Stop_finish_cal(2)[OF assms] using carriers_cancel by blast

lemma process_message_carried:
  assumes v: "valid w" and inv: "carried_ok D ms (m_timeStart g) (carriers (cal w))"
    and m: "0 \<le> T \<Longrightarrow> message_carried D ms' T data" and more: "set ms \<subseteq> set ms'"
    and run: "process_message S T data (g, w) = Inr (g', w')"
  shows "carried_ok D ms' (m_timeStart g') (carriers (cal w'))"
proof -
  note inv' = carried_ok_more[OF inv more]
  from v run show ?thesis
  proof (cases rule: process_message_cal)
    case terminate
    with inv' show ?thesis by simp
  next
    case (first e)
    with inv' m show ?thesis by (auto simp: carried_ok_def)
  next
    case (normal e d)
    let ?k = "cal_cancel_opt (m_eventWait g) (cal w)"
    have t: "m_timeStart g + (cal_now ?k + d) = T" using normal(4) by simp
    have "carried_ok D ms' (m_timeStart g) (carriers ?k)"
      by (rule carried_ok_subset[OF inv' carriers_cancel])
    with m normal(1,2) have "carried_ok D ms' (m_timeStart g) (insert (e, cal_now ?k + d, GatewayHandleUpdate data) (carriers ?k))"
      unfolding carried_ok_def using t by auto
    with normal show ?thesis by simp
  qed
qed

end

section \<open>The system\<close>

context gateway_host begin

lemmas host_carried_wait = gateway_platform.WaitForNextUpdate_carriers[OF platform]
lemmas host_carried_stop = gateway_platform.Stop_finish_carriers[OF platform]
lemmas host_carried_message = gateway_platform.process_message_carried[OF platform]

lemma foreign_carriers:
  assumes "valid u' w' \<and> keeps_gateway (cal w) (cal w') \<and> (\<exists>ds. g' = g\<lparr>m_data := ds\<rparr>)"
  shows "carriers (cal w') = carriers (cal w) \<and> m_timeStart g' = m_timeStart g"
proof -
  from assms have kg: "keeps_gateway (cal w) (cal w')" by (elim conjE)
  from assms obtain ds where "g' = g\<lparr>m_data := ds\<rparr>" by (elim conjE exE)
  then show ?thesis using keeps_gateway_carriers[OF kg] by simp
qed

lemma HandleUpdate_carriers:
  assumes v: "valid u w" and run: "HandleUpdate S (do_update H) data (u, g, w) = Inr (u', g', w')"
  shows "carriers (cal w') \<subseteq> carriers (cal w) \<and> m_timeStart g' = m_timeStart g"
proof (cases "sim_now S w = m_timePause g")
  case True
  obtain e w1 where s: "sim_schedule_now S GatewayWaitForNextUpdate w = (e, w1)" by fastforce
  let ?g = "g\<lparr>m_eventWait := Some e\<rparr>"
  from True run s have d: "do_update H data (u, ?g, w1) = Inr (u', g', w')" by (simp add: HandleUpdate_def)
  from sim_scheduled_now[OF v s] have v1: "valid u w1"
    and c1: "cal w1 = cal_schedule e 0 GatewayWaitForNextUpdate (cal w)" by blast+
  have "carriers (cal w1) = carriers (cal w)" "m_timeStart ?g = m_timeStart g" by (simp_all add: c1)
  with foreign_carriers[OF do_update[OF v1 d]] show ?thesis by auto
next
  case False
  with run have d: "do_update H data (u, g, w) = Inr (u', g', w')" by (simp add: HandleUpdate_def)
  from foreign_carriers[OF do_update[OF v d]] show ?thesis by auto
qed

lemma dispatch_carriers:
  assumes v: "valid u w" and c: "c \<noteq> GatewayStop" "c \<noteq> GatewayForwardUp"
    and run: "dispatch S H c (u, g, w) = Inr (u', g', w')"
  shows "carriers (cal w') \<subseteq> carriers (cal w) \<and> m_timeStart g' = m_timeStart g"
proof (cases "gateway_callback c")
  case False
  then have "other_event H c (u, g, w) = Inr (u', g', w')" using run by (cases c) (simp_all add: dispatch_def)
  from foreign_carriers[OF other_event[OF v False this]] show ?thesis by auto
next
  case True
  then consider "c = GatewayWaitForNextUpdate" | d where "c = GatewayHandleUpdate d"
    | d where "c = GatewayDoInitialize d" using c by (cases c) auto
  then show ?thesis
  proof cases
    case 1
    with run have "WaitForNextUpdate S (g, w) = (g', w')" by (simp add: dispatch_def)
    then show ?thesis by (rule host_carried_wait[OF v])
  next
    case (2 d)
    with run have "HandleUpdate S (do_update H) d (u, g, w) = Inr (u', g', w')" by (simp add: dispatch_def)
    then show ?thesis by (rule HandleUpdate_carriers[OF v])
  next
    case (3 d)
    with run have "do_initialize H d (u, g, w) = Inr (u', g', w')" by (simp add: dispatch_def)
    from foreign_carriers[OF do_initialize[OF v this]] show ?thesis by auto
  qed
qed

lemma ForwardUp_carried:
  assumes v: "valid u w" and inv: "carried_ok (m_delimiterField g) ms (m_timeStart g) (carriers (cal w))"
    and run: "ForwardUp S (g, w) = Inr (g', w')"
  shows "carried_ok (m_delimiterField g) (ms @ take 1 (m_messageQueue g)) (m_timeStart g') (carriers (cal w'))"
proof -
  obtain m q where q: "m_messageQueue g = m # q"
    using run by (cases "m_messageQueue g") (simp_all add: ForwardUp_def)
  let ?g = "g\<lparr>m_messageQueue := q\<rparr>" and ?D = "m_delimiterField g"
  from run q obtain T fs where f: "split_fields ?D m = Some fs" "message_time fs = Inr T"
    and p: "process_message S T (drop 2 fs) (?g, w) = Inr (g', w')"
    by (auto simp: ForwardUp_def split: option.splits)
  have "message_carried ?D (ms @ take 1 (m_messageQueue g)) T (drop 2 fs)" if "0 \<le> T"
    using that f q by (auto simp: message_carried_def)
  moreover have "carried_ok ?D ms (m_timeStart ?g) (carriers (cal w))" using inv by simp
  ultimately show ?thesis using host_carried_message[OF v _ _ _ p] by simp
qed

lemma main_stop_carried:
  assumes v: "valid (s_user s) (s_world s)" and inv: "sys_carried cal s"
  shows "sys_carried cal (main_stop S P s)"
proof (cases "m_state (s_gw s) = CONNECTED \<and> m_thread (s_gw s)")
  case True
  with inv show ?thesis by (simp add: sys_carried_def main_stop_def Stop_signal_def)
next
  case False
  let ?g = "s_gw s\<lparr>m_state := STOPPING\<rparr>"
  obtain g2 w2 where f: "Stop_finish S P (m_state (s_gw s) = CONNECTED) (?g, s_world s) = (g2, w2)"
    by fastforce
  have "m_delimiterField g2 = m_delimiterField (s_gw s)" "m_timeStart g2 = m_timeStart (s_gw s)"
    using Stop_finish_gateway[of S P "m_state (s_gw s) = CONNECTED" ?g "s_world s"] f
    by (auto split: if_splits)
  with carried_ok_subset[OF _ host_carried_stop[OF v f]] inv False f show ?thesis
    by (auto simp: sys_carried_def main_stop_def Stop_signal_def)
qed

lemma main_join_carried:
  assumes v: "valid (s_user s) (s_world s)" and inv: "sys_carried cal s"
  shows "sys_carried cal (main_join S P b s)"
proof -
  obtain g2 w2 where f: "Stop_finish S P True (s_gw s, s_world s) = (g2, w2)" by fastforce
  have "m_delimiterField g2 = m_delimiterField (s_gw s)" "m_timeStart g2 = m_timeStart (s_gw s)"
    using Stop_finish_gateway[of S P True "s_gw s" "s_world s"] f by auto
  with carried_ok_subset[OF _ host_carried_stop[OF v f]] inv f show ?thesis
    by (simp add: sys_carried_def main_join_def)
qed

lemma main_event_carried:
  assumes v: "valid (s_user s) w" and pop: "gw_popped t0 x c (s_gw s) (cal w)"
    and inv: "sys_carried cal (s\<lparr>s_world := w\<rparr>)"
    and alive: "\<forall>f. s_main (main_event S P H c (s\<lparr>s_world := w\<rparr>)) \<noteq> Main_Failed f"
  shows "sys_carried cal (main_event S P H c (s\<lparr>s_world := w\<rparr>))"
proof (cases "c = GatewayStop")
  case True
  with main_stop_carried[OF _ inv] v show ?thesis by (simp add: main_event_def)
next
  case False
  show ?thesis
  proof (cases "dispatch S H c (s_user s, s_gw s, w)")
    case (Inl f)
    with alive False show ?thesis by (simp add: main_event_def)
  next
    case (Inr q)
    obtain u g' w' where q: "q = (u, g', w')" by (cases q)
    note run = Inr[unfolded q]
    let ?ms = "s_forwarded s @ (if c = GatewayForwardUp then take 1 (m_messageQueue (s_gw s)) else [])"
    have r: "main_event S P H c (s\<lparr>s_world := w\<rparr>) =
        s\<lparr>s_user := u, s_gw := g', s_world := w', s_forwarded := ?ms\<rparr>"
      using False run by (simp add: main_event_def)
    have d: "m_delimiterField g' = m_delimiterField (s_gw s)"
      using dispatch_ok[OF v pop False run] by (simp add: gw_frame_def)
    have i: "carried_ok (m_delimiterField (s_gw s)) (s_forwarded s) (m_timeStart (s_gw s)) (carriers (cal w))"
      using inv by (simp add: sys_carried_def)
    have "carried_ok (m_delimiterField (s_gw s)) ?ms (m_timeStart g') (carriers (cal w'))"
    proof (cases "c = GatewayForwardUp")
      case True
      with run have "ForwardUp S (s_gw s, w) = Inr (g', w')" by (auto simp: dispatch_def)
      from ForwardUp_carried[OF v i this] True show ?thesis by simp
    next
      case nf: False
      from dispatch_carriers[OF v False nf run] carried_ok_subset[OF i] nf show ?thesis by simp
    qed
    then show ?thesis unfolding sys_carried_def r by (simp add: d)
  qed
qed

lemma thread_step_carried:
  assumes v: "valid (s_user s) (s_world s)" and inv: "sys_carried cal s" and run: "thread_step S r s = Some s'"
  shows "sys_carried cal s'"
proof -
  have ctx: "carriers (cal (sim_schedule_with_context S n 0 c (s_world s))) = carriers (cal (s_world s))"
    if "\<not> carries c" for n c
  proof -
    from sim_scheduled_context[OF v, of 0 n c] obtain e where
      "cal (sim_schedule_with_context S n 0 c (s_world s)) = cal_schedule e 0 c (cal (s_world s))" by auto
    with that show ?thesis by simp
  qed
  show ?thesis
    using run inv
    by (auto simp: thread_step_def Let_def sys_carried_def ctx
        split: thread_pc.splits option.splits recv_result.splits if_splits)
qed

lemma gw_step_carried:
  assumes step: "gw_step S P H s l s'" and ok: "sys_ok cal valid t0 s" and inv: "sys_carried cal s"
    and alive: "\<forall>f. s_main s' \<noteq> Main_Failed f"
  shows "sys_carried cal s'"
proof -
  from ok gw_step_alive[OF step] have v: "valid (s_user s) (s_world s)"
    and g: "gw_ok t0 (forward_extra (s_thread s)) (s_gw s) (cal (s_world s))" by (simp_all add: sys_ok_def)
  have smaller: "sys_carried cal (s\<lparr>s_world := w\<rparr>)" if "carriers (cal w) \<subseteq> carriers (cal (s_world s))" for w
    using carried_ok_subset[OF _ that] inv by (simp add: sys_carried_def)
  show ?thesis
    using step
  proof (cases rule: gw_step.cases)
    case thread
    then show ?thesis using thread_step_carried[OF v inv] by blast
  next
    case (recv d r)
    then show ?thesis using thread_step_carried[OF v inv] by blast
  next
    case (run c w)
    from sim_next_event[OF v run(4)] have "cal_next (cal (s_world s)) = Some (c, cal w)" by blast
    from host_popped[OF v g run(4)] smaller[OF carriers_pop[OF this]] alive
    show ?thesis unfolding run(2) using main_event_carried by blast
  next
    case run_end
    then show ?thesis using inv by (simp add: sys_carried_def)
  next
    case (destroy c w)
    from event_simulator.next_destroy_Some[OF simulator v destroy(4)]
    have "cal_next_destroy (cal (s_world s)) = Some (c, cal w)" by blast
    from host_popped_destroy[OF v g destroy(4)] smaller[OF equalityD1[OF carriers_pop_destroy[OF this]]] alive
    show ?thesis unfolding destroy(2) using main_event_carried by blast
  next
    case (join b d)
    then show ?thesis using main_join_carried[OF v inv] by blast
  qed
qed

lemma gw_initial_carried:
  assumes "gw_initial S cal valid P s"
  shows "sys_carried cal s"
proof -
  obtain k ed ew where
    c: "cal (s_world s) = cal_schedule ew 0 GatewayWaitForNextUpdate (cal_schedule_destroy ed GatewayStop k)"
    and ev: "\<forall>v \<in> set (cal_events k). \<not> gateway_callback (ev_call v)" by (rule gw_initial_calendar[OF assms])
  have "carriers (cal_schedule_destroy ed GatewayStop k) = {}"
    using ev carries_gateway unfolding carriers_def cal_schedule_destroy_def by fastforce
  then show ?thesis by (simp add: sys_carried_def carried_ok_def c)
qed

theorem reachable_carried:
  "gw_reachable S cal valid P H s0 s \<Longrightarrow> \<forall>f. s_main s \<noteq> Main_Failed f \<Longrightarrow> sys_carried cal s"
proof (induction rule: gw_reachable.induct)
  case (start s)
  then show ?case using gw_initial_carried by blast
next
  case (step s0 s l s')
  have "sys_carried cal s" by (rule step.IH[OF gw_step_alive[OF step.hyps(2)]])
  from gw_step_carried[OF step.hyps(2) reachable_ok[OF step.hyps(1)] this step.prems] show ?case .
qed

text \<open>When the event loop takes out an update, its data and its time are those of a message.\<close>

lemma update_carried:
  assumes r: "gw_reachable S cal valid P H s0 s" and m: "s_main s = Main_Run"
    and nx: "sim_next S (s_world s) = Some (c, w)"
  shows "(c = GatewayHandleUpdate data \<longrightarrow> 0 \<le> m_timeStart (s_gw s) \<and>
      message_carried (m_delimiterField (s_gw s)) (s_forwarded s) (m_timeStart (s_gw s) + sim_now S w) data) \<and>
    (c = GatewayDoInitialize data \<longrightarrow> 0 \<le> m_timeStart (s_gw s) \<and>
      message_carried (m_delimiterField (s_gw s)) (s_forwarded s) (m_timeStart (s_gw s)) data)"
proof -
  have v: "valid (s_user s) (s_world s)" using reachable_facts(1)[OF r] m by simp
  from sim_next_event[OF v nx] have v': "valid (s_user s) w"
    and nk: "cal_next (cal (s_world s)) = Some (c, cal w)" by blast+
  obtain e where ev: "cal_events (cal (s_world s)) = (e, cal_now (cal w), c) # cal_events (cal w)"
    using nk by (rule cal_next_SomeD)
  have inv: "sys_carried cal s" using reachable_carried[OF r] m by simp
  have in_k: "(e, cal_now (cal w), c) \<in> carriers (cal (s_world s))" if "carries c"
    using that ev by (simp add: carriers_def)
  note carried = inv[unfolded sys_carried_def carried_ok_def]
  have pos: "0 \<le> m_timeStart (s_gw s)" if "carries c"
    using conjunct1[OF carried] in_k[OF that] by (metis empty_iff not_le)
  have data: "(c = GatewayHandleUpdate data \<longrightarrow>
        message_carried (m_delimiterField (s_gw s)) (s_forwarded s) (m_timeStart (s_gw s) + cal_now (cal w)) data) \<and>
      (c = GatewayDoInitialize data \<longrightarrow>
        message_carried (m_delimiterField (s_gw s)) (s_forwarded s) (m_timeStart (s_gw s)) data)" if "carries c"
    using bspec[OF conjunct2[OF carried] in_k[OF that]] by simp
  show ?thesis
  proof (cases "carries c")
    case True
    with pos data show ?thesis unfolding sim_time[OF v'] by blast
  next
    case False
    then show ?thesis by auto
  qed
qed

end

end
