(* ===== verification/Gateway_Answers.thy ===== *)
theory Gateway_Answers
  imports Gateway_Data
begin

text \<open>
  What the gateway sends: a derived class that answers each \<open>DoInitialize\<close> and each \<open>DoUpdate\<close>
  with one response makes the gateway answer every time-stamped message exactly once. The socket
  is seen through the list \<open>outbox\<close> of the messages that have been given to \<open>send\<close>.
\<close>

section \<open>The pending events that carry data\<close>

text \<open>In the order in which they will be executed.\<close>

definition carried_events :: "'x callback calendar \<Rightarrow> 'x callback event list" where
  "carried_events k = filter (\<lambda>v. carries (ev_call v)) (cal_events k)"

definition carrier_count :: "'x callback calendar \<Rightarrow> nat" where
  "carrier_count k = length (carried_events k)"

lemma carried_schedule_other: "\<not> carries c \<Longrightarrow> carried_events (cal_schedule e d c k) = carried_events k"
  by (simp add: carried_events_def cal_schedule_def filter_place_other)

lemma carried_schedule:
  assumes "cal_ok k" and "carries c"
  shows "carried_events (cal_schedule e d c k) = place (e, cal_now k + d, c) (carried_events k)"
proof -
  have "sorted (map ev_time (cal_events k))" using assms(1) by (simp add: cal_ok_def)
  with assms(2) show ?thesis by (simp add: carried_events_def cal_schedule_def filter_place)
qed

lemma length_place [simp]: "length (place v vs) = Suc (length vs)"
proof -
  let ?P = "\<lambda>x. ev_time x \<le> ev_time v"
  have "length (takeWhile ?P vs @ dropWhile ?P vs) = length vs" by simp
  then show ?thesis unfolding place_def length_append by simp
qed

lemma carrier_count_schedule [simp]:
  "carrier_count (cal_schedule e d c k) = carrier_count k + (if carries c then 1 else 0)"
  by (simp add: carrier_count_def carried_events_def cal_schedule_def length_filter_place)

lemma carried_stopped [simp]: "carried_events (k\<lparr>cal_stopped := b\<rparr>) = carried_events k"
  by (simp add: carried_events_def)

lemma carried_cancel_wait:
  "wait_owned i k \<Longrightarrow> carried_events (cal_cancel_opt i k) = carried_events k"
  by (cases i) (auto simp: carried_events_def cal_cancel_opt_def wait_owned_def intro!: filter_cong)

lemma carried_cancel_destroy:
  "destroy_owned i k \<Longrightarrow> carried_events (cal_cancel_opt i k) = carried_events k"
  by (cases i) (auto simp: carried_events_def cal_cancel_opt_def destroy_owned_def intro!: filter_cong)

lemma carried_pop:
  assumes "cal_next k = Some (c, k')"
  obtains e where "carried_events k = (if carries c then [(e, cal_now k', c)] else []) @ carried_events k'"
proof -
  from assms obtain e where "cal_events k = (e, cal_now k', c) # cal_events k'" by (rule cal_next_SomeD)
  then show ?thesis by (intro that[of e]) (simp add: carried_events_def)
qed

lemma carrier_count_pop:
  "cal_next k = Some (c, k') \<Longrightarrow> carrier_count k = carrier_count k' + (if carries c then 1 else 0)"
  by (erule carried_pop) (simp add: carrier_count_def)

lemma carried_pop_destroy: "cal_next_destroy k = Some (c, k') \<Longrightarrow> carried_events k' = carried_events k"
  by (erule cal_next_destroy_SomeD) (simp add: carried_events_def)

lemma filter_carries_gateway:
  "filter (\<lambda>v. carries (ev_call v)) vs =
   filter (\<lambda>v. carries (ev_call v)) (filter (\<lambda>v. gateway_callback (ev_call v)) vs)"
  by (auto simp: filter_filter intro!: filter_cong dest: carries_gateway)

lemma carried_keeps:
  assumes "keeps_gateway k k'"
  shows "carried_events k' = carried_events k"
proof -
  let ?C = "filter (\<lambda>v. carries (ev_call v))" and ?G = "filter (\<lambda>v. gateway_callback (ev_call v))"
  have "?C (cal_events k') = ?C (?G (cal_events k'))" by (rule filter_carries_gateway)
  also have "?G (cal_events k') = ?G (cal_events k)" using assms unfolding keeps_events_def by blast
  also have "?C (?G (cal_events k)) = ?C (cal_events k)" by (rule filter_carries_gateway[symmetric])
  finally show ?thesis by (simp add: carried_events_def)
qed

section \<open>A derived class that answers\<close>

text \<open>
  Neither the simulator nor \<open>close\<close> sends anything, \<open>DoInitialize\<close> and \<open>DoUpdate\<close> send one
  response, and the rest of the program does not use the gateway's socket.
\<close>

locale gateway_answers = gateway_host S cal valid P H
  for S :: "('x callback, 'w) sim_ops" and cal :: "'w \<Rightarrow> 'x callback calendar"
    and valid :: "'u \<Rightarrow> 'w \<Rightarrow> bool" and P :: "'w os_ops" and H :: "('x, 'u, 'w) gw_host" +
  fixes outbox :: "'w \<Rightarrow> string list"
  assumes out_schedule: "outbox (snd (sim_schedule S d c w)) = outbox w"
    and out_schedule_now: "outbox (snd (sim_schedule_now S c w)) = outbox w"
    and out_context: "outbox (sim_schedule_with_context S x d c w) = outbox w"
    and out_cancel: "outbox (sim_cancel S e w) = outbox w"
    and out_stop: "outbox (sim_stop S w) = outbox w"
    and out_next: "sim_next S w = Some (c, w') \<Longrightarrow> outbox w' = outbox w"
    and out_next_destroy: "sim_next_destroy S w = Some (c, w') \<Longrightarrow> outbox w' = outbox w"
    and out_close: "outbox (os_close P s w) = outbox w"
    and out_initialize: "valid u w \<Longrightarrow> do_initialize H data (u, g, w) = Inr (u', g', w') \<Longrightarrow>
      \<exists>m. outbox w' = outbox w @ [m]"
    and out_update: "valid u w \<Longrightarrow> do_update H data (u, g, w) = Inr (u', g', w') \<Longrightarrow>
      \<exists>m. outbox w' = outbox w @ [m]"
    and out_other: "valid u w \<Longrightarrow> \<not> gateway_callback c \<Longrightarrow>
      other_event H c (u, g, w) = Inr (u', g', w') \<Longrightarrow> outbox w' = outbox w"
begin

lemma out_cancel_event: "outbox (cancel_event S i w) = outbox w"
  by (simp add: cancel_event_def out_cancel split: option.splits)

lemma out_scheduled:
  "sim_schedule S d c w = (e, w') \<Longrightarrow> outbox w' = outbox w"
  "sim_schedule_now S c w = (e, w') \<Longrightarrow> outbox w' = outbox w"
  using out_schedule[of d c w] out_schedule_now[of c w] by simp_all

lemma WaitForNextUpdate_out:
  assumes "WaitForNextUpdate S (g, w) = (g', w')"
  shows "outbox w' = outbox w"
  using assms by (auto simp: WaitForNextUpdate_def Let_def out_cancel_event dest!: out_scheduled
      split: if_splits prod.splits)

lemma process_message_out:
  assumes "process_message S T vs (g, w) = Inr (g', w')"
  shows "outbox w' = outbox w"
  using assms by (auto simp: process_message_def Let_def out_cancel_event out_stop dest!: out_scheduled
      split: if_splits prod.splits)

lemma ForwardUp_out:
  assumes "ForwardUp S (g, w) = Inr (g', w')"
  shows "outbox w' = outbox w"
  using assms by (auto simp: ForwardUp_def dest: process_message_out split: list.splits option.splits)

lemma Stop_finish_out:
  assumes "Stop_finish S P b (g, w) = (g', w')"
  shows "outbox w' = outbox w"
  using assms by (auto simp: Stop_finish_def Let_def out_cancel_event out_close split: if_splits option.splits)

lemma HandleUpdate_out:
  assumes v: "valid u w" and run: "HandleUpdate S (do_update H) data (u, g, w) = Inr (u', g', w')"
  shows "\<exists>m. outbox w' = outbox w @ [m]"
proof (cases "sim_now S w = m_timePause g")
  case True
  obtain e w1 where s: "sim_schedule_now S GatewayWaitForNextUpdate w = (e, w1)" by fastforce
  from True run s have d: "do_update H data (u, g\<lparr>m_eventWait := Some e\<rparr>, w1) = Inr (u', g', w')"
    by (simp add: HandleUpdate_def)
  from sim_scheduled_now[OF v s] have "valid u w1" by blast
  from out_update[OF this d] out_scheduled(2)[OF s] show ?thesis by simp
next
  case False
  with run have d: "do_update H data (u, g, w) = Inr (u', g', w')" by (simp add: HandleUpdate_def)
  from out_update[OF v d] show ?thesis .
qed

text \<open>What one event of the main thread sends.\<close>

lemma dispatch_out:
  assumes v: "valid u w" and c: "c \<noteq> GatewayStop"
    and run: "dispatch S H c (u, g, w) = Inr (u', g', w')"
  shows "\<exists>ms. outbox w' = outbox w @ ms \<and> length ms = (if carries c then 1 else 0)"
proof -
  show ?thesis
  proof (cases "gateway_callback c")
    case False
    then have r: "other_event H c (u, g, w) = Inr (u', g', w')" using run by (cases c) (simp_all add: dispatch_def)
    have nc: "\<not> carries c" using False carries_gateway by blast
    from out_other[OF v False r] have "outbox w' = outbox w" .
    with nc show ?thesis by (intro exI[of _ "[]"]) simp
  next
    case True
    then consider "c = GatewayForwardUp" | "c = GatewayWaitForNextUpdate"
      | d where "c = GatewayHandleUpdate d" | d where "c = GatewayDoInitialize d" using c by (cases c) auto
    then show ?thesis
    proof cases
      case 1
      with run have "ForwardUp S (g, w) = Inr (g', w')" by (auto simp: dispatch_def)
      from ForwardUp_out[OF this] 1 show ?thesis by (intro exI[of _ "[]"]) simp
    next
      case 2
      with run have "WaitForNextUpdate S (g, w) = (g', w')" by (simp add: dispatch_def)
      from WaitForNextUpdate_out[OF this] 2 show ?thesis by (intro exI[of _ "[]"]) simp
    next
      case (3 d)
      with run have "HandleUpdate S (do_update H) d (u, g, w) = Inr (u', g', w')" by (simp add: dispatch_def)
      from HandleUpdate_out[OF v this] obtain m where "outbox w' = outbox w @ [m]" by blast
      with 3 show ?thesis by (intro exI[of _ "[m]"]) simp
    next
      case (4 d)
      with run have "do_initialize H d (u, g, w) = Inr (u', g', w')" by (simp add: dispatch_def)
      from out_initialize[OF v this] obtain m where "outbox w' = outbox w @ [m]" by blast
      with 4 show ?thesis by (intro exI[of _ "[m]"]) simp
    qed
  qed
qed

end

section \<open>Messages, pending events and responses\<close>

context gateway_platform begin

lemma WaitForNextUpdate_carried:
  assumes v: "valid w" and own: "wait_owned (m_eventWait g) (cal w)"
    and run: "WaitForNextUpdate S (g, w) = (g', w')"
  shows "carried_events (cal w') = carried_events (cal w)"
  using v run
proof (cases rule: WaitForNextUpdate_cal)
  case (wait e)
  then show ?thesis by (simp add: carried_schedule_other carried_cancel_wait[OF own])
qed simp

lemma process_message_carries:
  assumes v: "valid w" and own: "wait_owned (m_eventWait g) (cal w)"
    and run: "process_message S T data (g, w) = Inr (g', w')"
  shows "if T < 0 then carried_events (cal w') = carried_events (cal w)
    else if m_timeStart g < 0
    then \<exists>e. carried_events (cal w') = place (e, cal_now (cal w), GatewayDoInitialize data) (carried_events (cal w))
    else cal_now (cal w) \<le> T - m_timeStart g \<and>
      (\<exists>e. carried_events (cal w') = place (e, T - m_timeStart g, GatewayHandleUpdate data) (carried_events (cal w)))"
  using v run
proof (cases rule: process_message_cal)
  case terminate
  then show ?thesis by simp
next
  case (first e)
  then show ?thesis by (auto simp: carried_schedule[OF cal_ok[OF v]])
next
  case (normal e d)
  let ?k = "cal_cancel_opt (m_eventWait g) (cal w)"
  have "cal_ok ?k" using cal_ok_cancel[OF cal_ok[OF v]] cal_ok[OF v] by (simp add: cal_cancel_opt_def split: option.splits)
  from carried_schedule[OF this, of "GatewayHandleUpdate data" e d] normal(4)
  have "carried_events (cal w') = place (e, T - m_timeStart g, GatewayHandleUpdate data) (carried_events (cal w))"
    by (simp add: normal(8) carried_cancel_wait[OF own])
  with normal(1-4) show ?thesis by auto
qed

lemma process_message_count:
  assumes "valid w" and "wait_owned (m_eventWait g) (cal w)" and "process_message S T data (g, w) = Inr (g', w')"
  shows "carrier_count (cal w') = carrier_count (cal w) + (if 0 \<le> T then 1 else 0)"
  using process_message_carries[OF assms] by (auto simp: carrier_count_def split: if_splits)

lemma Stop_finish_carried:
  assumes v: "valid w" and wo: "wait_owned (m_eventWait g) (cal w)"
    and de: "destroy_owned (m_eventDestroy g) (cal w)"
    and run: "Stop_finish S P c (g, w) = (g', w')"
  shows "carried_events (cal w') = carried_events (cal w)"
  using carried_cancel_destroy[of "m_eventDestroy g" "cal_cancel_opt (m_eventWait g) (cal w)"] de
    carried_cancel_wait[OF wo]
  by (simp add: Stop_finish_cal(2)[OF v run])

end

context gateway_host begin

lemmas host_carried_again = gateway_platform.WaitForNextUpdate_carried[OF platform]
lemmas host_carries = gateway_platform.process_message_carries[OF platform]
lemmas host_count_message = gateway_platform.process_message_count[OF platform]
lemmas host_carried_finish = gateway_platform.Stop_finish_carried[OF platform]

lemma foreign_carried:
  assumes "valid u' w' \<and> keeps_gateway (cal w) (cal w') \<and> (\<exists>ds. g' = g\<lparr>m_data := ds\<rparr>)"
  shows "carried_events (cal w') = carried_events (cal w)"
proof -
  from assms have "keeps_gateway (cal w) (cal w')" by (elim conjE)
  then show ?thesis by (rule carried_keeps)
qed

lemma HandleUpdate_carried:
  assumes v: "valid u w" and run: "HandleUpdate S (do_update H) data (u, g, w) = Inr (u', g', w')"
  shows "carried_events (cal w') = carried_events (cal w)"
proof (cases "sim_now S w = m_timePause g")
  case True
  obtain e w1 where s: "sim_schedule_now S GatewayWaitForNextUpdate w = (e, w1)" by fastforce
  from True run s have d: "do_update H data (u, g\<lparr>m_eventWait := Some e\<rparr>, w1) = Inr (u', g', w')"
    by (simp add: HandleUpdate_def)
  from sim_scheduled_now[OF v s] have v1: "valid u w1"
    and c1: "cal w1 = cal_schedule e 0 GatewayWaitForNextUpdate (cal w)" by blast+
  from foreign_carried[OF do_update[OF v1 d]] show ?thesis by (simp add: c1 carried_schedule_other)
next
  case False
  with run have d: "do_update H data (u, g, w) = Inr (u', g', w')" by (simp add: HandleUpdate_def)
  from foreign_carried[OF do_update[OF v d]] show ?thesis .
qed

text \<open>Only \<open>ForwardUp\<close> changes the pending events that carry data.\<close>

lemma dispatch_carried:
  assumes v: "valid u w" and pop: "gw_popped t0 x c g (cal w)" and c: "c \<noteq> GatewayStop" "c \<noteq> GatewayForwardUp"
    and run: "dispatch S H c (u, g, w) = Inr (u', g', w')"
  shows "carried_events (cal w') = carried_events (cal w)"
proof (cases "gateway_callback c")
  case False
  then have r: "other_event H c (u, g, w) = Inr (u', g', w')" using run by (cases c) (simp_all add: dispatch_def)
  from foreign_carried[OF other_event[OF v False r]] show ?thesis .
next
  case True
  then consider "c = GatewayWaitForNextUpdate" | d where "c = GatewayHandleUpdate d"
    | d where "c = GatewayDoInitialize d" using c by (cases c) auto
  then show ?thesis
  proof cases
    case 1
    with run have "WaitForNextUpdate S (g, w) = (g', w')" by (simp add: dispatch_def)
    from host_carried_again[OF v _ this] pop show ?thesis by (simp add: gw_popped_def)
  next
    case (2 d)
    with run have "HandleUpdate S (do_update H) d (u, g, w) = Inr (u', g', w')" by (simp add: dispatch_def)
    then show ?thesis by (rule HandleUpdate_carried[OF v])
  next
    case (3 d)
    with run have "do_initialize H d (u, g, w) = Inr (u', g', w')" by (simp add: dispatch_def)
    from foreign_carried[OF do_initialize[OF v this]] show ?thesis .
  qed
qed

text \<open>Only \<open>ForwardUp\<close> makes an event that carries data, one for each time-stamped message.\<close>

lemma dispatch_count:
  assumes v: "valid u w" and pop: "gw_popped t0 x c g (cal w)" and c: "c \<noteq> GatewayStop"
    and run: "dispatch S H c (u, g, w) = Inr (u', g', w')"
  shows "carrier_count (cal w') = carrier_count (cal w) +
    length (time_stamps (m_delimiterField g) (if c = GatewayForwardUp then take 1 (m_messageQueue g) else []))"
proof (cases "c = GatewayForwardUp")
  case False
  with dispatch_carried[OF v pop c False run] show ?thesis by (simp add: carrier_count_def)
next
  case True
  with run have f: "ForwardUp S (g, w) = Inr (g', w')" by (auto simp: dispatch_def)
  then obtain m q where q: "m_messageQueue g = m # q"
    by (cases "m_messageQueue g") (simp_all add: ForwardUp_def)
  let ?g = "g\<lparr>m_messageQueue := q\<rparr>"
  from f q obtain T fs where p: "process_message S T (drop 2 fs) (?g, w) = Inr (g', w')"
    and st: "message_stamp (m_delimiterField g) m = Some T"
    by (auto simp: ForwardUp_def message_stamp_def split: option.splits)
  have "wait_owned (m_eventWait ?g) (cal w)" using pop by (simp add: gw_popped_def)
  from host_count_message[OF v this p] True q time_stamps_one[OF st] show ?thesis by simp
qed

end

text \<open>Every time-stamped message is pending or has been answered; \<open>r0\<close> is what was sent before.\<close>

definition answered ::
    "('w \<Rightarrow> 'x callback calendar) \<Rightarrow> ('w \<Rightarrow> string list) \<Rightarrow> nat \<Rightarrow> ('u, 'w) gw_sys \<Rightarrow> bool" where
  "answered cal outbox r0 s \<longleftrightarrow>
     length (time_stamps (m_delimiterField (s_gw s)) (s_forwarded s)) + r0 =
     carrier_count (cal (s_world s)) + length (outbox (s_world s))"

context gateway_answers begin

lemma main_stop_answered:
  assumes v: "valid (s_user s) (s_world s)"
    and pop: "gw_popped t0 x c (s_gw s) (cal (s_world s))"
  shows "carrier_count (cal (s_world (main_stop S P s))) = carrier_count (cal (s_world s)) \<and>
    outbox (s_world (main_stop S P s)) = outbox (s_world s) \<and>
    s_forwarded (main_stop S P s) = s_forwarded s \<and>
    m_delimiterField (s_gw (main_stop S P s)) = m_delimiterField (s_gw s)"
proof (cases "m_state (s_gw s) = CONNECTED \<and> m_thread (s_gw s)")
  case True
  then show ?thesis by (simp add: main_stop_def Stop_signal_def)
next
  case False
  let ?g = "s_gw s\<lparr>m_state := STOPPING\<rparr>"
  obtain g2 w2 where f: "Stop_finish S P (m_state (s_gw s) = CONNECTED) (?g, s_world s) = (g2, w2)"
    by fastforce
  have "wait_owned (m_eventWait ?g) (cal (s_world s))" "destroy_owned (m_eventDestroy ?g) (cal (s_world s))"
    using pop by (simp_all add: gw_popped_def)
  from host_carried_finish[OF v this f] Stop_finish_out[OF f] False f
    Stop_finish_gateway[of S P "m_state (s_gw s) = CONNECTED" ?g "s_world s"]
  show ?thesis by (auto simp: carrier_count_def main_stop_def Stop_signal_def split: if_splits)
qed

lemma main_join_answered:
  assumes v: "valid (s_user s) (s_world s)" and ok: "gw_ok t0 x (s_gw s) (cal (s_world s))"
  shows "carrier_count (cal (s_world (main_join S P b s))) = carrier_count (cal (s_world s)) \<and>
    outbox (s_world (main_join S P b s)) = outbox (s_world s) \<and>
    s_forwarded (main_join S P b s) = s_forwarded s \<and>
    m_delimiterField (s_gw (main_join S P b s)) = m_delimiterField (s_gw s)"
proof -
  obtain g2 w2 where f: "Stop_finish S P True (s_gw s, s_world s) = (g2, w2)" by fastforce
  have "wait_owned (m_eventWait (s_gw s)) (cal (s_world s))" "destroy_owned (m_eventDestroy (s_gw s)) (cal (s_world s))"
    using ok by (simp_all add: gw_ok_def)
  from host_carried_finish[OF v this f] Stop_finish_out[OF f] f
    Stop_finish_gateway[of S P True "s_gw s" "s_world s"]
  show ?thesis by (simp add: carrier_count_def main_join_def)
qed

text \<open>The main thread executes the event \<open>c\<close>; \<open>n\<close> pending events carry data, \<open>c\<close> included.\<close>

lemma main_event_answered:
  assumes v: "valid (s_user s) w" and pop: "gw_popped t0 x c (s_gw s) (cal w)"
    and n: "n = carrier_count (cal w) + (if carries c then 1 else 0)"
    and inv: "length (time_stamps (m_delimiterField (s_gw s)) (s_forwarded s)) + r0 = n + length (outbox w)"
    and s': "s' = main_event S P H c (s\<lparr>s_world := w\<rparr>)" and alive: "\<forall>f. s_main s' \<noteq> Main_Failed f"
  shows "answered cal outbox r0 s'"
proof (cases "c = GatewayStop")
  case True
  have "valid (s_user (s\<lparr>s_world := w\<rparr>)) (s_world (s\<lparr>s_world := w\<rparr>))"
    "gw_popped t0 x c (s_gw (s\<lparr>s_world := w\<rparr>)) (cal (s_world (s\<lparr>s_world := w\<rparr>)))"
    using v pop by simp_all
  from main_stop_answered[OF this] True inv show ?thesis by (simp add: s' main_event_def answered_def n)
next
  case False
  show ?thesis
  proof (cases "dispatch S H c (s_user s, s_gw s, w)")
    case (Inl f)
    with alive False show ?thesis by (simp add: s' main_event_def)
  next
    case (Inr q)
    obtain u g' w' where q: "q = (u, g', w')" by (cases q)
    note run = Inr[unfolded q]
    have d: "m_delimiterField g' = m_delimiterField (s_gw s)"
      using dispatch_ok[OF v pop False run] by (simp add: gw_frame_def)
    from dispatch_out[OF v False run] obtain ms where
      ms: "outbox w' = outbox w @ ms" "length ms = (if carries c then 1 else 0)" by blast
    from dispatch_count[OF v pop False run] ms inv False run show ?thesis
      by (simp add: s' main_event_def answered_def d n)
  qed
qed

lemma main_event_sends:
  assumes v: "valid (s_user s) w" and pop: "gw_popped t0 x c (s_gw s) (cal w)"
  shows "prefix (outbox w) (outbox (s_world (main_event S P H c (s\<lparr>s_world := w\<rparr>))))"
proof (cases "c = GatewayStop")
  case True
  have "valid (s_user (s\<lparr>s_world := w\<rparr>)) (s_world (s\<lparr>s_world := w\<rparr>))"
    "gw_popped t0 x c (s_gw (s\<lparr>s_world := w\<rparr>)) (cal (s_world (s\<lparr>s_world := w\<rparr>)))"
    using v pop by simp_all
  from main_stop_answered[OF this] True show ?thesis by (simp add: main_event_def)
next
  case False
  show ?thesis
  proof (cases "dispatch S H c (s_user s, s_gw s, w)")
    case (Inl f)
    with False show ?thesis by (simp add: main_event_def)
  next
    case (Inr q)
    obtain u g' w' where q: "q = (u, g', w')" by (cases q)
    from dispatch_out[OF v False Inr[unfolded q]] False Inr q show ?thesis
      by (auto simp: main_event_def)
  qed
qed

lemma thread_step_answered:
  assumes v: "valid (s_user s) (s_world s)" and run: "thread_step S r s = Some s'"
  shows "carrier_count (cal (s_world s')) = carrier_count (cal (s_world s)) \<and>
    outbox (s_world s') = outbox (s_world s)"
proof -
  have ctx: "carrier_count (cal (sim_schedule_with_context S n 0 c (s_world s))) = carrier_count (cal (s_world s))"
    if "\<not> carries c" for n c
  proof -
    from sim_scheduled_context[OF v, of 0 n c] obtain e where
      "cal (sim_schedule_with_context S n 0 c (s_world s)) = cal_schedule e 0 c (cal (s_world s))" by auto
    with that show ?thesis by simp
  qed
  show ?thesis
    using run by (auto simp: thread_step_def Let_def ctx out_context
        split: thread_pc.splits option.splits recv_result.splits if_splits)
qed

lemma gw_step_answered:
  assumes step: "gw_step S P H s l s'" and ok: "sys_ok cal valid t0 s"
  shows "prefix (outbox (s_world s)) (outbox (s_world s'))"
    and "answered cal outbox r0 s \<Longrightarrow> \<forall>f. s_main s' \<noteq> Main_Failed f \<Longrightarrow> answered cal outbox r0 s'"
proof -
  from ok gw_step_alive[OF step] have v: "valid (s_user s) (s_world s)"
    and g: "gw_ok t0 (forward_extra (s_thread s)) (s_gw s) (cal (s_world s))" by (simp_all add: sys_ok_def)
  have "prefix (outbox (s_world s)) (outbox (s_world s')) \<and>
    (answered cal outbox r0 s \<longrightarrow> (\<forall>f. s_main s' \<noteq> Main_Failed f) \<longrightarrow> answered cal outbox r0 s')"
    using step
  proof (cases rule: gw_step.cases)
    case thread
    from thread_step_answered[OF v thread(3)] thread_step_forwarded[OF thread(3)] show ?thesis
      by (simp add: answered_def)
  next
    case (recv d r)
    from thread_step_answered[OF v recv(4)] thread_step_forwarded[OF recv(4)] show ?thesis
      by (simp add: answered_def)
  next
    case (run c w)
    from sim_next_event[OF v run(4)] have nx: "cal_next (cal (s_world s)) = Some (c, cal w)" by blast
    have out: "outbox w = outbox (s_world s)" by (rule out_next[OF run(4)])
    from host_popped[OF v g run(4)] have v': "valid (s_user s) w" and
      pop: "gw_popped t0 (forward_extra (s_thread s)) c (s_gw s) (cal w)" by blast+
    show ?thesis
      using main_event_sends[OF v' pop] main_event_answered[OF v' pop carrier_count_pop[OF nx] _ run(2)]
      by (simp add: run(2) out answered_def)
  next
    case run_end
    then show ?thesis by (simp add: answered_def)
  next
    case (destroy c w)
    from event_simulator.next_destroy_Some[OF simulator v destroy(4)]
    have nx: "cal_next_destroy (cal (s_world s)) = Some (c, cal w)" by blast
    have out: "outbox w = outbox (s_world s)" by (rule out_next_destroy[OF destroy(4)])
    from host_popped_destroy[OF v g destroy(4)] have v': "valid (s_user s) w" and
      pop: "gw_popped t0 (forward_extra (s_thread s)) c (s_gw s) (cal w)" and
      c: "gateway_callback c \<longrightarrow> c = GatewayStop" by blast+
    have "\<not> carries c" using c carries_gateway by (cases c) auto
    then have n: "carrier_count (cal (s_world s)) = carrier_count (cal w) + (if carries c then 1 else 0)"
      using carried_pop_destroy[OF nx] by (simp add: carrier_count_def)
    show ?thesis
      using main_event_sends[OF v' pop] main_event_answered[OF v' pop n _ destroy(2)]
      by (simp add: destroy(2) out answered_def)
  next
    case (join b d)
    then show ?thesis using main_join_answered[OF v g] by (simp add: answered_def)
  qed
  then show "prefix (outbox (s_world s)) (outbox (s_world s'))"
    and "answered cal outbox r0 s \<Longrightarrow> \<forall>f. s_main s' \<noteq> Main_Failed f \<Longrightarrow> answered cal outbox r0 s'"
    by blast+
qed

lemma gw_initial_answered:
  assumes "gw_initial S cal valid P s"
  shows "answered cal outbox (length (outbox (s_world s))) s"
proof -
  obtain k ed ew where
    c: "cal (s_world s) = cal_schedule ew 0 GatewayWaitForNextUpdate (cal_schedule_destroy ed GatewayStop k)"
    and ev: "\<forall>v \<in> set (cal_events k). \<not> gateway_callback (ev_call v)"
    and f: "s_forwarded s = []" by (rule gw_initial_calendar[OF assms])
  have "carrier_count k = 0"
    using ev carries_gateway unfolding carrier_count_def carried_events_def by (auto simp: filter_empty_conv)
  then have "carrier_count (cal_schedule_destroy ed GatewayStop k) = 0"
    by (simp add: carrier_count_def carried_events_def cal_schedule_destroy_def)
  then show ?thesis by (simp add: answered_def c f)
qed

theorem reachable_answered:
  "gw_reachable S cal valid P H s0 s \<Longrightarrow> \<forall>f. s_main s \<noteq> Main_Failed f \<Longrightarrow>
   answered cal outbox (length (outbox (s_world s0))) s"
proof (induction rule: gw_reachable.induct)
  case (start s)
  show ?case by (rule gw_initial_answered[OF start.hyps])
next
  case (step s0 s l s')
  from gw_step_answered(2)[OF step.hyps(2) reachable_ok[OF step.hyps(1)]
      step.IH[OF gw_step_alive[OF step.hyps(2)]] step.prems] show ?case .
qed

text \<open>Nothing that was sent is taken back, and there are never more responses than messages.\<close>

lemma reachable_outbox:
  "gw_reachable S cal valid P H s0 s \<Longrightarrow> prefix (outbox (s_world s0)) (outbox (s_world s))"
proof (induction rule: gw_reachable.induct)
  case (step s0 s l s')
  from step.IH gw_step_answered(1)[OF step.hyps(2) reachable_ok[OF step.hyps(1)]] show ?case
    by (rule prefix_order.trans)
qed simp

lemma gw_step_failed:
  assumes step: "gw_step S P H s l s'" and f: "s_main s' = Main_Failed f"
  shows "outbox (s_world s') = outbox (s_world s) \<and> s_forwarded s' = s_forwarded s \<and>
    m_delimiterField (s_gw s') = m_delimiterField (s_gw s)"
proof -
  have ev: "outbox (s_world (main_event S P H c (s\<lparr>s_world := w\<rparr>))) = outbox w \<and>
      s_forwarded (main_event S P H c (s\<lparr>s_world := w\<rparr>)) = s_forwarded s \<and>
      m_delimiterField (s_gw (main_event S P H c (s\<lparr>s_world := w\<rparr>))) = m_delimiterField (s_gw s)"
    if "s_main (main_event S P H c (s\<lparr>s_world := w\<rparr>)) = Main_Failed f" and "s_main s \<noteq> Main_Failed f" for c w
    using that by (auto simp: main_event_def main_stop_def Stop_signal_def Let_def split: if_splits sum.splits prod.splits)
  have alive: "s_main s \<noteq> Main_Failed f" using gw_step_alive[OF step] by blast
  show ?thesis
    using step
  proof (cases rule: gw_step.cases)
    case thread
    with f alive show ?thesis
      by (auto simp: thread_step_def Let_def split: thread_pc.splits option.splits if_splits)
  next
    case (recv d r)
    with f alive show ?thesis by (auto simp: thread_step_def Let_def split: recv_result.splits)
  next
    case (run c w)
    from ev[OF f[unfolded run(2)] alive] out_next[OF run(4)] show ?thesis unfolding run(2) by simp
  next
    case run_end
    with f show ?thesis by simp
  next
    case (destroy c w)
    from ev[OF f[unfolded destroy(2)] alive] out_next_destroy[OF destroy(4)] show ?thesis
      unfolding destroy(2) by simp
  next
    case (join b d)
    with f show ?thesis by (auto simp: main_join_def split: prod.splits if_splits)
  qed
qed

lemma reachable_bounded:
  "gw_reachable S cal valid P H s0 s \<Longrightarrow>
   length (outbox (s_world s)) \<le>
     length (time_stamps (m_delimiterField (s_gw s)) (s_forwarded s)) + length (outbox (s_world s0))"
proof (induction rule: gw_reachable.induct)
  case (step s0 s l s')
  show ?case
  proof (cases "\<forall>f. s_main s' \<noteq> Main_Failed f")
    case True
    from reachable_answered[OF gw_reachable.step[OF step.hyps] True] show ?thesis by (simp add: answered_def)
  next
    case False
    with gw_step_failed[OF step.hyps(2)] step.IH show ?thesis by auto
  qed
qed simp

end

end
