(* ===== verification/External_Mobility.thy ===== *)
theory External_Mobility
  imports Prelude
begin

text \<open>
  The class \<open>ExternalMobilityModel\<close> of \<open>model/external-mobility-model.cc\<close>. The type
  \<open>Vector\<close> of ns-3 is a type variable with the operations that the code uses, and the course
  change notification of the base class is a function that gets the object and changes the rest
  of the program's state.
\<close>

section \<open>Vectors\<close>

text \<open>\<open>v_neq\<close> is \<open>operator!=\<close>, \<open>v_plus\<close> is \<open>operator+\<close>, \<open>v_zero\<close> the default value.\<close>

record 'v vector_ops =
  v_neq :: "'v \<Rightarrow> 'v \<Rightarrow> bool"
  v_zero :: 'v
  v_plus :: "'v \<Rightarrow> 'v \<Rightarrow> 'v"
  v_make :: "int \<Rightarrow> int \<Rightarrow> int \<Rightarrow> 'v"

text \<open>
  Floating-point vectors: the operator \<open>!=\<close> is symmetric, and vectors that it does not
  distinguish from a common one are not distinguished, but a vector that contains a NaN is
  different from itself, and vectors that are not distinguished (a zero of either sign) need not
  be the same.
\<close>

definition v_eq :: "'v vector_ops \<Rightarrow> 'v \<Rightarrow> 'v \<Rightarrow> bool" where
  "v_eq V a b \<longleftrightarrow> \<not> v_neq V a b"

text \<open>Two vectors that are the same, or that the code takes for the same.\<close>

definition same_vector :: "'v vector_ops \<Rightarrow> 'v \<Rightarrow> 'v \<Rightarrow> bool" where
  "same_vector V a b \<longleftrightarrow> a = b \<or> v_eq V a b"

lemma same_vector_refl [simp]: "same_vector V a a"
  by (simp add: same_vector_def)

locale vectors =
  fixes V :: "'v vector_ops"
  assumes neq_sym: "v_neq V a b \<Longrightarrow> v_neq V b a"
    and eq_trans: "v_eq V a b \<Longrightarrow> v_eq V b c \<Longrightarrow> v_eq V a c"
    and zero_eq: "v_eq V (v_zero V) (v_zero V)"

text \<open>The vectors with integral components, which are the ones that the gateway example makes.\<close>

definition int_vectors :: "(int \<times> int \<times> int) vector_ops" where
  "int_vectors = \<lparr>v_neq = (\<noteq>), v_zero = (0, 0, 0),
     v_plus = (\<lambda>(a, b, c) (a', b', c'). (a + a', b + b', c + c')), v_make = (\<lambda>a b c. (a, b, c))\<rparr>"

interpretation int_vectors: vectors int_vectors
  by unfold_locales (auto simp: int_vectors_def v_eq_def)

section \<open>The class\<close>

record 'v mobility =
  m_position :: 'v
  m_velocity :: 'v

definition ExternalMobilityModel_new :: "'v vector_ops \<Rightarrow> 'v mobility" where
  "ExternalMobilityModel_new V = \<lparr>m_position = v_zero V, m_velocity = v_zero V\<rparr>"

text \<open>\<open>notify\<close> is \<open>NotifyCourseChange\<close>: the callbacks get the object and may change \<open>'w\<close>.\<close>

definition SetVelocity ::
    "'v vector_ops \<Rightarrow> ('v mobility \<Rightarrow> 'w \<Rightarrow> 'w) \<Rightarrow> 'v \<Rightarrow> 'v mobility \<times> 'w \<Rightarrow> 'v mobility \<times> 'w" where
  "SetVelocity V notify velocity = (\<lambda>(m, w).
     if v_neq V velocity (m_velocity m) then
       (let m' = m\<lparr>m_velocity := velocity\<rparr> in (m', notify m' w))
     else (m, w))"

definition DoSetPosition :: "'v vector_ops \<Rightarrow> 'v \<Rightarrow> 'v mobility \<Rightarrow> 'v mobility" where
  "DoSetPosition V position m =
     (if v_neq V position (m_position m) then m\<lparr>m_position := position\<rparr> else m)"

definition DoGetPosition :: "'v mobility \<Rightarrow> 'v" where
  "DoGetPosition m = m_position m"

definition DoGetVelocity :: "'v mobility \<Rightarrow> 'v" where
  "DoGetVelocity m = m_velocity m"

text \<open>The course change callback of both example programs: it logs the time, the node and its mobility.\<close>

definition ReportMobility ::
    "time \<Rightarrow> nat \<Rightarrow> 'v mobility \<Rightarrow> (time \<times> nat \<times> 'v \<times> 'v) list \<Rightarrow> (time \<times> nat \<times> 'v \<times> 'v) list" where
  "ReportMobility now n m reports = reports @ [(now, n, DoGetPosition m, DoGetVelocity m)]"

section \<open>Recording the notifications\<close>

text \<open>A callback that records what an observer sees: the position and velocity when it is called.\<close>

definition record_change :: "'v mobility \<Rightarrow> ('v \<times> 'v) list \<Rightarrow> ('v \<times> 'v) list" where
  "record_change m seen = seen @ [(DoGetPosition m, DoGetVelocity m)]"

text \<open>The calls of the public interface, and a sequence of them.\<close>

datatype 'v mobility_call = Call_SetPosition 'v | Call_SetVelocity 'v

fun apply_call ::
    "'v vector_ops \<Rightarrow> ('v mobility \<Rightarrow> 'w \<Rightarrow> 'w) \<Rightarrow> 'v mobility_call \<Rightarrow>
     'v mobility \<times> 'w \<Rightarrow> 'v mobility \<times> 'w" where
  "apply_call V notify (Call_SetPosition p) (m, w) = (DoSetPosition V p m, w)"
| "apply_call V notify (Call_SetVelocity v) (m, w) = SetVelocity V notify v (m, w)"

definition mobility_calls ::
    "'v vector_ops \<Rightarrow> 'v mobility_call list \<Rightarrow> 'v mobility \<times> ('v \<times> 'v) list \<Rightarrow>
     'v mobility \<times> ('v \<times> 'v) list" where
  "mobility_calls V cs s = fold (apply_call V record_change) cs s"

text \<open>Specification: the last value set, up to vectors that \<open>!=\<close> does not distinguish.\<close>

fun last_position :: "'v \<Rightarrow> 'v mobility_call list \<Rightarrow> 'v" where
  "last_position p [] = p"
| "last_position p (Call_SetPosition q # cs) = last_position q cs"
| "last_position p (Call_SetVelocity _ # cs) = last_position p cs"

fun last_velocity :: "'v \<Rightarrow> 'v mobility_call list \<Rightarrow> 'v" where
  "last_velocity v [] = v"
| "last_velocity v (Call_SetPosition _ # cs) = last_velocity v cs"
| "last_velocity v (Call_SetVelocity q # cs) = last_velocity q cs"

text \<open>The velocities at which an observer is called: those that differ from the one before.\<close>

fun velocity_changes :: "'v vector_ops \<Rightarrow> 'v \<Rightarrow> 'v mobility_call list \<Rightarrow> 'v list" where
  "velocity_changes V v [] = []"
| "velocity_changes V v (Call_SetPosition _ # cs) = velocity_changes V v cs"
| "velocity_changes V v (Call_SetVelocity q # cs) =
     (if v_neq V q v then q # velocity_changes V q cs else velocity_changes V v cs)"

lemma DoSetPosition_simps [simp]:
  "m_velocity (DoSetPosition V p m) = m_velocity m"
  "v_neq V p (m_position m) \<Longrightarrow> m_position (DoSetPosition V p m) = p"
  by (simp_all add: DoSetPosition_def)

lemma mobility_calls_Cons [simp]:
  "mobility_calls V (c # cs) s = mobility_calls V cs (apply_call V record_change c s)"
  "mobility_calls V [] s = s"
  by (simp_all add: mobility_calls_def)

lemma mobility_calls_observed:
  "map snd (snd (mobility_calls V cs (m, seen))) =
     map snd seen @ velocity_changes V (m_velocity m) cs"
proof (induction cs arbitrary: m seen)
  case (Cons c cs)
  then show ?case
    by (cases c) (simp_all add: SetVelocity_def Let_def record_change_def DoGetVelocity_def)
qed simp

context vectors begin

lemma eq_sym: "v_eq V a b \<Longrightarrow> v_eq V b a"
  using neq_sym by (auto simp: v_eq_def)

lemma DoSetPosition_same: "same_vector V (m_position (DoSetPosition V p m)) p"
  using eq_sym by (auto simp: DoSetPosition_def same_vector_def v_eq_def)

lemma SetVelocity_same: "same_vector V (m_velocity (fst (SetVelocity V notify v (m, w)))) v"
  using eq_sym by (auto simp: SetVelocity_def same_vector_def v_eq_def Let_def)

lemma mobility_calls_same:
  assumes "same_vector V (m_position m) p" and "same_vector V (m_velocity m) v"
  shows "same_vector V (m_position (fst (mobility_calls V cs (m, seen)))) (last_position p cs) \<and>
    same_vector V (m_velocity (fst (mobility_calls V cs (m, seen)))) (last_velocity v cs)"
  using assms
proof (induction cs arbitrary: m seen p v)
  case (Cons c cs)
  show ?case
  proof (cases c)
    case (Call_SetPosition q)
    with Cons.IH[OF DoSetPosition_same[of q m]] Cons.prems show ?thesis by simp
  next
    case (Call_SetVelocity q)
    obtain m' seen' where s: "SetVelocity V record_change q (m, seen) = (m', seen')" by fastforce
    have "same_vector V (m_velocity m') q" using SetVelocity_same[of record_change q m seen] s by simp
    moreover have "m_position m' = m_position m"
      using s by (auto simp: SetVelocity_def Let_def split: if_splits)
    ultimately show ?thesis using Cons.IH[of m' p q seen'] Cons.prems Call_SetVelocity s by simp
  qed
qed simp

end

end
