(* ===== verification/Triggered_Send.thy ===== *)
theory Triggered_Send
  imports Platform
begin

text \<open>
  The class \<open>TriggeredSendApplication\<close> of \<open>model/triggered-send-application.cc\<close>, and its
  helper. The addresses, sockets and packets of ns-3 are behind a record of functions, like the
  simulator; an application has a number, which its scheduled calls carry.
\<close>

section \<open>The network library\<close>

text \<open>
  \<open>'a\<close> is \<open>Address\<close>, \<open>'t\<close> is \<open>TypeId\<close>, \<open>'s\<close> is a socket. A packet is its size, which is
  all that the application chooses. \<open>sock_connect\<close> reports whether \<open>Socket::Connect\<close> calls
  the callback for success or for failure before it returns (\<open>None\<close>: neither, the connection is
  not decided yet). \<open>tx_trace\<close> and \<open>tx_trace_addresses\<close> call the sinks of the trace sources.
\<close>

record ('a, 't, 's, 'w) net_ops =
  is_invalid :: "'a \<Rightarrow> bool"
  is_inet :: "'a \<Rightarrow> bool"
  is_inet6 :: "'a \<Rightarrow> bool"
  is_packet_socket :: "'a \<Rightarrow> bool"
  invalid_address :: 'a
  udp_factory :: 't
  create_socket :: "'t \<Rightarrow> 'w \<Rightarrow> 's \<times> 'w"
  sock_bind_to :: "'s \<Rightarrow> 'a \<Rightarrow> 'w \<Rightarrow> int \<times> 'w"
  sock_bind :: "'s \<Rightarrow> 'w \<Rightarrow> int \<times> 'w"
  sock_bind6 :: "'s \<Rightarrow> 'w \<Rightarrow> int \<times> 'w"
  set_connect_callback :: "'s \<Rightarrow> nat \<Rightarrow> 'w \<Rightarrow> 'w"
  set_ip_tos :: "'s \<Rightarrow> u8 \<Rightarrow> 'w \<Rightarrow> 'w"
  sock_connect :: "'s \<Rightarrow> 'a \<Rightarrow> 'w \<Rightarrow> bool option \<times> 'w"
  set_allow_broadcast :: "'s \<Rightarrow> 'w \<Rightarrow> 'w"
  shutdown_recv :: "'s \<Rightarrow> 'w \<Rightarrow> 'w"
  sock_send :: "'s \<Rightarrow> u32 \<Rightarrow> 'w \<Rightarrow> int \<times> 'w"
  sock_name :: "'s \<Rightarrow> 'w \<Rightarrow> 'a"
  sock_close :: "'s \<Rightarrow> 'w \<Rightarrow> 'w"
  tx_trace :: "nat \<Rightarrow> u32 \<Rightarrow> 'w \<Rightarrow> 'w"
  tx_trace_addresses :: "nat \<Rightarrow> u32 \<Rightarrow> 'a \<Rightarrow> 'a \<Rightarrow> 'w \<Rightarrow> 'w"

section \<open>The application\<close>

record ('a, 't, 's) tsa =
  m_local :: 'a
  m_peer :: 'a
  m_socketTypeId :: 't
  m_socket_tsa :: "'s option"
  m_connected :: bool
  m_tos :: u8
  m_packetInterval :: time
  m_packetSize :: u32
  m_packetCount :: u32
  m_sendPacketEvent :: "event_id option"

text \<open>A new object, with the initial values of the attributes in \<open>GetTypeId\<close>.\<close>

definition TriggeredSendApplication_new ::
    "('a, 't, 's, 'w) net_ops \<Rightarrow> ('a, 't, 's) tsa" where
  "TriggeredSendApplication_new N = \<lparr>
     m_local = invalid_address N,
     m_peer = invalid_address N,
     m_socketTypeId = udp_factory N,
     m_socket_tsa = None,
     m_connected = False,
     m_tos = 0,
     m_packetInterval = MilliSeconds 100,
     m_packetSize = 512,
     m_packetCount = 0,
     m_sendPacketEvent = None \<rparr>"

text \<open>
  Setting an attribute by its name. The checkers are those of \<open>GetTypeId\<close>: \<open>Tos\<close> is a
  \<open>uint8_t\<close>, \<open>PacketSize\<close> a \<open>uint32_t\<close> that is at least 1, and \<open>PacketInterval\<close> is at
  least a femtosecond, which an integral division by 1000000 turns into nanoseconds. A value that
  the checker does not accept is a fatal error of ns-3.
\<close>

datatype ('a, 't) attribute =
    LocalAddress 'a
  | RemoteAddress 'a
  | Protocol 't
  | Tos nat
  | PacketSize nat
  | PacketInterval time

definition set_attribute ::
    "('a, 't) attribute \<Rightarrow> ('a, 't, 's) tsa \<Rightarrow> ('a, 't, 's) tsa res" where
  "set_attribute x a =
     (case x of
        LocalAddress d \<Rightarrow> Inr (a\<lparr>m_local := d\<rparr>)
      | RemoteAddress d \<Rightarrow> Inr (a\<lparr>m_peer := d\<rparr>)
      | Protocol t \<Rightarrow> Inr (a\<lparr>m_socketTypeId := t\<rparr>)
      | Tos n \<Rightarrow>
          (if n < 2 ^ 8 then Inr (a\<lparr>m_tos := word_of_nat n\<rparr>)
           else Inl (Fatal ''invalid attribute value''))
      | PacketSize n \<Rightarrow>
          (if 1 \<le> n \<and> n < 2 ^ 32 then Inr (a\<lparr>m_packetSize := word_of_nat n\<rparr>)
           else Inl (Fatal ''invalid attribute value''))
      | PacketInterval t \<Rightarrow>
          (if FemtoSeconds 1 \<le> t then Inr (a\<lparr>m_packetInterval := t\<rparr>)
           else Inl (Fatal ''invalid attribute value'')))"

fun set_attributes ::
    "('a, 't) attribute list \<Rightarrow> ('a, 't, 's) tsa \<Rightarrow> ('a, 't, 's) tsa res" where
  "set_attributes [] a = Inr a"
| "set_attributes (x # xs) a = bind_res (set_attribute x a) (set_attributes xs)"

text \<open>
  \<open>TriggeredSendHelper\<close>: the constructor records two attributes for the object factory,
  \<open>SetAttribute\<close> of the base class adds more, and each application that is installed is a new
  object with these attributes.
\<close>

definition TriggeredSendHelper_new :: "'t \<Rightarrow> 'a \<Rightarrow> ('a, 't) attribute list" where
  "TriggeredSendHelper_new protocol address = [Protocol protocol, RemoteAddress address]"

definition helper_install ::
    "('a, 't, 's, 'w) net_ops \<Rightarrow> ('a, 't) attribute list \<Rightarrow> ('a, 't, 's) tsa res" where
  "helper_install N factory = set_attributes factory (TriggeredSendApplication_new N)"

text \<open>\<open>Send\<close> only schedules; the object itself does not change.\<close>

definition Send :: "('x callback, 'w) sim_ops \<Rightarrow> nat \<Rightarrow> u32 \<Rightarrow> 'w \<Rightarrow> 'w" where
  "Send S i numberOfPackets w =
     (if numberOfPackets = 0 then w
      else snd (sim_schedule_now S (AppProcessSendRequest i numberOfPackets) w))"

definition CancelEvents ::
    "('x callback, 'w) sim_ops \<Rightarrow> ('a, 't, 's) tsa \<times> 'w \<Rightarrow> ('a, 't, 's) tsa \<times> 'w" where
  "CancelEvents S = (\<lambda>(a, w).
     (a, if is_pending S (m_sendPacketEvent a) w then cancel_event S (m_sendPacketEvent a) w else w))"

definition DoDispose ::
    "('x callback, 'w) sim_ops \<Rightarrow> ('a, 't, 's) tsa \<times> 'w \<Rightarrow> ('a, 't, 's) tsa \<times> 'w" where
  "DoDispose S s = (let (a, w) = CancelEvents S s in (a\<lparr>m_socket_tsa := None\<rparr>, w))"

definition ConnectionSucceeded :: "('a, 't, 's) tsa \<Rightarrow> ('a, 't, 's) tsa" where
  "ConnectionSucceeded a = a\<lparr>m_connected := True\<rparr>"

definition ConnectionFailed :: "('a, 't, 's) tsa \<Rightarrow> ('a, 't, 's) tsa res" where
  "ConnectionFailed a = Inl (Fatal ''Socket failed to connect.'')"

text \<open>The binding of the new socket in \<open>StartApplication\<close>; the result is \<open>returnValue\<close>.\<close>

definition bind_socket ::
    "('a, 't, 's, 'w) net_ops \<Rightarrow> ('a, 't, 's) tsa \<Rightarrow> 's \<Rightarrow> 'w \<Rightarrow> (int \<times> 'w) res" where
  "bind_socket N a sock w =
     (if \<not> is_invalid N (m_local a) then
        (if is_inet N (m_peer a) \<and> is_inet6 N (m_local a) \<or>
            is_inet6 N (m_peer a) \<and> is_inet N (m_local a)
         then Inl (Abort ''Incompatible peer and local address IP version'')
         else Inr (sock_bind_to N sock (m_local a) w))
      else if is_inet6 N (m_peer a) then Inr (sock_bind6 N sock w)
      else if is_inet N (m_peer a) \<or> is_packet_socket N (m_peer a) then Inr (sock_bind N sock w)
      else Inr (-1, w))"

definition StartApplication ::
    "('x callback, 'w) sim_ops \<Rightarrow> ('a, 't, 's, 'w) net_ops \<Rightarrow> nat \<Rightarrow>
     ('a, 't, 's) tsa \<times> 'w \<Rightarrow> (('a, 't, 's) tsa \<times> 'w) res" where
  "StartApplication S N i = (\<lambda>(a, w).
     case m_socket_tsa a of
       Some _ \<Rightarrow> Inr (CancelEvents S (a, w))
     | None \<Rightarrow>
         (let (sock, w1) = create_socket N (m_socketTypeId a) w;
              a1 = a\<lparr>m_socket_tsa := Some sock\<rparr>
          in if is_invalid N (m_peer a) then Inl (Abort ''Remote attribute not properly set'')
             else bind_res (bind_socket N a1 sock w1) (\<lambda>(returnValue, w2).
               if returnValue = -1 then Inl (Fatal ''Failed to bind socket'')
               else
                 (let w3 = set_connect_callback N sock i w2;
                      w4 = (if is_inet N (m_peer a) then set_ip_tos N sock (m_tos a) w3 else w3);
                      (connected, w5) = sock_connect N sock (m_peer a) w4
                  in bind_res
                       (case connected of
                          None \<Rightarrow> Inr a1
                        | Some True \<Rightarrow> Inr (ConnectionSucceeded a1)
                        | Some False \<Rightarrow> ConnectionFailed a1)
                       (\<lambda>a2. Inr (CancelEvents S
                         (a2, shutdown_recv N sock (set_allow_broadcast N sock w5))))))))"

definition StopApplication ::
    "('x callback, 'w) sim_ops \<Rightarrow> ('a, 't, 's, 'w) net_ops \<Rightarrow>
     ('a, 't, 's) tsa \<times> 'w \<Rightarrow> ('a, 't, 's) tsa \<times> 'w" where
  "StopApplication S N s =
     (let (a, w) = CancelEvents S s
      in (a, case m_socket_tsa a of None \<Rightarrow> w | Some sock \<Rightarrow> sock_close N sock w))"

definition ProcessSendRequest ::
    "('x callback, 'w) sim_ops \<Rightarrow> nat \<Rightarrow> u32 \<Rightarrow> ('a, 't, 's) tsa \<times> 'w \<Rightarrow> ('a, 't, 's) tsa \<times> 'w" where
  "ProcessSendRequest S i numberOfPackets = (\<lambda>(a, w).
     if m_socket_tsa a \<noteq> None \<and> m_connected a then
       (if is_pending S (m_sendPacketEvent a) w then (a\<lparr>m_packetCount := numberOfPackets\<rparr>, w)
        else
          (let (e, w') = sim_schedule_now S (AppSendPacket i) w
           in (a\<lparr>m_packetCount := numberOfPackets, m_sendPacketEvent := Some e\<rparr>, w')))
     else (a, w))"

text \<open>
  The sending of one packet in \<open>SendPacket\<close>: the result of \<open>Socket::Send\<close>, a signed integer
  that is -1 for an error, is compared with the packet size as an unsigned one.
\<close>

definition send_one ::
    "('a, 't, 's, 'w) net_ops \<Rightarrow> nat \<Rightarrow> ('a, 't, 's) tsa \<Rightarrow> 's \<Rightarrow> 'w \<Rightarrow> 'w" where
  "send_one N i a sock w =
     (let (bytesSent, w1) = sock_send N sock (m_packetSize a) w
      in if (word_of_int bytesSent :: u32) = m_packetSize a then
           (let localAddress = sock_name N sock w1;
                w2 = (if is_inet N (m_peer a)
                      then tx_trace_addresses N i (m_packetSize a) localAddress (m_peer a) w1
                      else if is_inet6 N (m_peer a)
                      then tx_trace_addresses N i (m_packetSize a) localAddress (m_peer a) w1
                      else w1)
            in tx_trace N i (m_packetSize a) w2)
         else w1)"

definition SendPacket ::
    "('x callback, 'w) sim_ops \<Rightarrow> ('a, 't, 's, 'w) net_ops \<Rightarrow> nat \<Rightarrow>
     ('a, 't, 's) tsa \<times> 'w \<Rightarrow> (('a, 't, 's) tsa \<times> 'w) res" where
  "SendPacket S N i = (\<lambda>(a, w).
     if is_pending S (m_sendPacketEvent a) w then Inl Assert_failed
     else if 0 < m_packetCount a then
       (case m_socket_tsa a of
          None \<Rightarrow> Inl Undefined
        | Some sock \<Rightarrow>
            (let w1 = send_one N i a sock w;
                 (e, w2) = sim_schedule S (m_packetInterval a) (AppSendPacket i) w1
             in Inr (a\<lparr>m_packetCount := m_packetCount a - 1, m_sendPacketEvent := Some e\<rparr>, w2)))
     else Inr (a, w))"

section \<open>New applications\<close>

text \<open>What every attribute setting keeps of a new object.\<close>

definition fresh_app :: "('a, 't, 's) tsa \<Rightarrow> bool" where
  "fresh_app a \<longleftrightarrow> m_socket_tsa a = None \<and> \<not> m_connected a \<and> m_packetCount a = 0 \<and>
     m_sendPacketEvent a = None \<and> 1 \<le> m_packetSize a \<and> 0 \<le> m_packetInterval a"

lemma set_attribute_fresh:
  assumes "fresh_app a" and "set_attribute x a = Inr a'"
  shows "fresh_app a'"
proof (cases x)
  case (PacketSize n)
  with assms have n: "1 \<le> n" "n < 2 ^ 32" and a': "a' = a\<lparr>m_packetSize := word_of_nat n\<rparr>"
    by (auto simp: set_attribute_def split: if_splits)
  have "unat (word_of_nat n :: u32) = n" using n by (simp add: unat_of_nat take_bit_eq_mod)
  then have "(1 :: u32) \<le> word_of_nat n" using n(1) by (simp add: word_le_nat_alt)
  with assms(1) a' show ?thesis by (simp add: fresh_app_def)
qed (use assms in \<open>auto simp: set_attribute_def fresh_app_def FemtoSeconds_def split: if_splits\<close>)

lemma set_attributes_fresh: "fresh_app a \<Longrightarrow> set_attributes xs a = Inr a' \<Longrightarrow> fresh_app a'"
  by (induction xs arbitrary: a) (auto dest: set_attribute_fresh)

lemma helper_install_fresh: "helper_install N factory = Inr a \<Longrightarrow> fresh_app a"
  unfolding helper_install_def
  by (rule set_attributes_fresh)
    (simp_all add: TriggeredSendApplication_new_def fresh_app_def MilliSeconds_def)

section \<open>The contract of the network library\<close>

text \<open>
  The library, and the trace sinks that it calls, cannot schedule or cancel the private functions
  of the application; they may schedule anything of their own, such as the transmission of a
  packet by a device, or call \<open>Send\<close>.
\<close>

definition app_event :: "'x callback \<Rightarrow> bool" where
  "app_event c \<longleftrightarrow> (\<exists>i. c = AppSendPacket i)"

definition net_callback :: "'x callback \<Rightarrow> bool" where
  "net_callback c \<longleftrightarrow> gateway_callback c \<or> app_event c"

definition net_effect ::
    "('w \<Rightarrow> 'x callback calendar) \<Rightarrow> ('w \<Rightarrow> bool) \<Rightarrow> 'w \<Rightarrow> 'w \<Rightarrow> bool" where
  "net_effect cal valid w w' \<longleftrightarrow> valid w' \<and> keeps_events net_callback (cal w) (cal w')"

locale network = event_simulator S cal valid
  for S :: "('x callback, 'w) sim_ops" and cal :: "'w \<Rightarrow> 'x callback calendar" and valid :: "'w \<Rightarrow> bool" +
  fixes N :: "('a, 't, 's, 'w) net_ops"
  assumes create_socket: "valid w \<Longrightarrow> create_socket N t w = (s, w') \<Longrightarrow> net_effect cal valid w w'"
    and sock_bind_to: "valid w \<Longrightarrow> sock_bind_to N s d w = (r, w') \<Longrightarrow> net_effect cal valid w w'"
    and sock_bind: "valid w \<Longrightarrow> sock_bind N s w = (r, w') \<Longrightarrow> net_effect cal valid w w'"
    and sock_bind6: "valid w \<Longrightarrow> sock_bind6 N s w = (r, w') \<Longrightarrow> net_effect cal valid w w'"
    and sock_connect: "valid w \<Longrightarrow> sock_connect N s d w = (c, w') \<Longrightarrow> net_effect cal valid w w'"
    and sock_send: "valid w \<Longrightarrow> sock_send N s z w = (r, w') \<Longrightarrow> net_effect cal valid w w'"
    and set_connect_callback: "valid w \<Longrightarrow> net_effect cal valid w (set_connect_callback N s i w)"
    and set_ip_tos: "valid w \<Longrightarrow> net_effect cal valid w (set_ip_tos N s tos w)"
    and set_allow_broadcast: "valid w \<Longrightarrow> net_effect cal valid w (set_allow_broadcast N s w)"
    and shutdown_recv: "valid w \<Longrightarrow> net_effect cal valid w (shutdown_recv N s w)"
    and sock_close: "valid w \<Longrightarrow> net_effect cal valid w (sock_close N s w)"
    and tx_trace: "valid w \<Longrightarrow> net_effect cal valid w (tx_trace N i z w)"
    and tx_trace_addresses: "valid w \<Longrightarrow> net_effect cal valid w (tx_trace_addresses N i z d d' w)"

lemma net_effect_refl: "valid w \<Longrightarrow> net_effect cal valid w w"
  by (simp add: net_effect_def)

lemma net_effect_trans:
  "net_effect cal valid w1 w2 \<Longrightarrow> net_effect cal valid w2 w3 \<Longrightarrow> net_effect cal valid w1 w3"
  unfolding net_effect_def using keeps_events_trans by blast

lemma net_effect_valid: "net_effect cal valid w w' \<Longrightarrow> valid w'"
  by (simp add: net_effect_def)

context network begin

lemma send_one_net:
  assumes "valid w"
  shows "net_effect cal valid w (send_one N j a sock w)"
proof -
  obtain b w1 where s: "sock_send N sock (m_packetSize a) w = (b, w1)" by fastforce
  note e1 = sock_send[OF assms s]
  note v1 = net_effect_valid[OF e1]
  have ta: "net_effect cal valid w1 (tx_trace N j z (tx_trace_addresses N j z d d' w1))" for z d d'
    by (rule net_effect_trans[OF tx_trace_addresses[OF v1]
          tx_trace[OF net_effect_valid[OF tx_trace_addresses[OF v1]]]])
  show ?thesis
    using e1 net_effect_trans[OF e1 tx_trace[OF v1]] net_effect_trans[OF e1 ta]
    by (simp add: send_one_def s Let_def)
qed

lemma bind_socket_net:
  assumes v: "valid w" and run: "bind_socket N a sock w = Inr (r, w')"
  shows "net_effect cal valid w w'"
proof -
  have "sock_bind_to N sock (m_local a) w = (r, w') \<or> sock_bind6 N sock w = (r, w') \<or>
      sock_bind N sock w = (r, w') \<or> w' = w"
    using run by (auto simp: bind_socket_def split: if_splits)
  then show ?thesis
    using sock_bind_to[OF v] sock_bind6[OF v] sock_bind[OF v] net_effect_refl[of valid w, OF v] by blast
qed

text \<open>A first call of \<open>StartApplication\<close> that returns, up to its last statement.\<close>

lemma StartApplication_InrD:
  assumes v: "valid w" and run: "StartApplication S N i (a, w) = Inr (a', w')"
    and None: "m_socket_tsa a = None"
  shows "\<exists>a2 w2. net_effect cal valid w w2 \<and> m_sendPacketEvent a2 = m_sendPacketEvent a \<and>
    m_socket_tsa a2 \<noteq> None \<and> m_packetInterval a2 = m_packetInterval a \<and>
    CancelEvents S (a2, w2) = (a', w')"
proof -
  obtain sock w1 where c: "create_socket N (m_socketTypeId a) w = (sock, w1)" by fastforce
  let ?a = "a\<lparr>m_socket_tsa := Some sock\<rparr>"
  from run None c obtain r w2 where b: "bind_socket N ?a sock w1 = Inr (r, w2)"
    by (auto simp: StartApplication_def Let_def split: if_splits)
  define w3 where "w3 = set_connect_callback N sock i w2"
  define w4 where "w4 = (if is_inet N (m_peer a) then set_ip_tos N sock (m_tos a) w3 else w3)"
  obtain cn w5 where k: "sock_connect N sock (m_peer a) w4 = (cn, w5)" by fastforce
  define w6 where "w6 = set_allow_broadcast N sock w5"
  define w7 where "w7 = shutdown_recv N sock w6"
  note e1 = create_socket[OF v c]
  note e2 = bind_socket_net[OF net_effect_valid[OF e1] b]
  have e3: "net_effect cal valid w2 w3"
    unfolding w3_def by (rule set_connect_callback[OF net_effect_valid[OF e2]])
  have e4: "net_effect cal valid w3 w4"
    unfolding w4_def using set_ip_tos[OF net_effect_valid[OF e3]] net_effect_valid[OF e3]
    by (simp add: net_effect_refl)
  note e5 = sock_connect[OF net_effect_valid[OF e4] k]
  have e6: "net_effect cal valid w5 w6"
    unfolding w6_def by (rule set_allow_broadcast[OF net_effect_valid[OF e5]])
  have e7: "net_effect cal valid w6 w7"
    unfolding w7_def by (rule shutdown_recv[OF net_effect_valid[OF e6]])
  have e: "net_effect cal valid w w7"
    using e1 e2 e3 e4 e5 e6 e7 net_effect_trans by metis
  have ok: "\<not> is_invalid N (m_peer a)" "r \<noteq> -1"
    using run None c b by (auto simp: StartApplication_def Let_def split: if_splits)
  have fin: "bind_res (case cn of None \<Rightarrow> Inr ?a | Some True \<Rightarrow> Inr (ConnectionSucceeded ?a)
      | Some False \<Rightarrow> ConnectionFailed ?a) (\<lambda>a2. Inr (CancelEvents S (a2, w7))) = Inr (a', w')"
    using run unfolding StartApplication_def
    by (simp add: None c b ok Let_def k[unfolded w4_def w3_def] w6_def w7_def)
  show ?thesis
  proof (cases "cn = None")
    case True
    with fin e show ?thesis by (intro exI[of _ ?a] exI[of _ w7]) simp
  next
    case False
    then have "cn = Some True" using fin by (auto simp: ConnectionFailed_def split: bool.splits)
    with fin e show ?thesis
      by (intro exI[of _ "ConnectionSucceeded ?a"] exI[of _ w7]) (simp add: ConnectionSucceeded_def)
  qed
qed

end

text \<open>
  A network for the reference platform: an address is a kind (0 invalid, 1 IPv4, 2 IPv6,
  3 packet socket) with a number, a UDP socket connects at once, and every packet that is traced is
  recorded with its time.
\<close>

definition ref_net :: "(nat \<times> nat, string, nat, 'c ref_world) net_ops" where
  "ref_net = \<lparr>
     is_invalid = (\<lambda>d. fst d = 0),
     is_inet = (\<lambda>d. fst d = 1),
     is_inet6 = (\<lambda>d. fst d = 2),
     is_packet_socket = (\<lambda>d. fst d = 3),
     invalid_address = (0, 0),
     udp_factory = ''ns3::UdpSocketFactory'',
     create_socket = (\<lambda>t w. (7, w)),
     sock_bind_to = (\<lambda>s d w. (0, w)),
     sock_bind = (\<lambda>s w. (0, w)),
     sock_bind6 = (\<lambda>s w. (0, w)),
     set_connect_callback = (\<lambda>s i w. w),
     set_ip_tos = (\<lambda>s tos w. w),
     sock_connect = (\<lambda>s d w. (Some True, w)),
     set_allow_broadcast = (\<lambda>s w. w),
     shutdown_recv = (\<lambda>s w. w),
     sock_send = (\<lambda>s z w. (uint z, w)),
     sock_name = (\<lambda>s w. (1, 0)),
     sock_close = (\<lambda>s w. w),
     tx_trace = (\<lambda>i z w. w\<lparr>rw_packets := rw_packets w @ [(rw_now w, z)]\<rparr>),
     tx_trace_addresses = (\<lambda>i z d d' w. w) \<rparr>"

interpretation ref_network: network ref_sim ref_cal ref_valid ref_net
proof unfold_locales
  fix w w' :: "'a callback ref_world" and i z
  assume v: "ref_valid w"
  have eq: "ref_cal (tx_trace ref_net i z w) = ref_cal w"
    by (simp add: ref_net_def ref_cal_def)
  with v show "net_effect ref_cal ref_valid w (tx_trace ref_net i z w)"
    by (simp add: net_effect_def ref_valid_def)
qed (simp_all add: ref_net_def net_effect_def)

declare ref_net_def [ref_eval]
  TriggeredSendApplication_new_def [ref_eval] TriggeredSendHelper_new_def [ref_eval]
  helper_install_def [ref_eval] set_attribute_def [ref_eval] Send_def [ref_eval]
  CancelEvents_def [ref_eval] DoDispose_def [ref_eval] ConnectionSucceeded_def [ref_eval]
  bind_socket_def [ref_eval] StartApplication_def [ref_eval] StopApplication_def [ref_eval]
  ProcessSendRequest_def [ref_eval] send_one_def [ref_eval] SendPacket_def [ref_eval]

end
