(* ===== verification/Simple_Gateway.thy ===== *)
theory Simple_Gateway
  imports Gateway_Time External_Mobility Triggered_Send
begin

text \<open>
  The class \<open>SimpleGateway\<close> of \<open>examples/simple-gateway.cc\<close>: a gateway over a number of
  vehicles, each of which has an \<open>ExternalMobilityModel\<close> and a \<open>TriggeredSendApplication\<close>. It is
  the derived class on which the contract of \<open>Gateway_System\<close> is interpreted.
\<close>

section \<open>State\<close>

text \<open>
  The mobility model and the first application of each vehicle, in the order of the container
  \<open>m_vehicles\<close>, the member \<open>m_count\<close>, and what the course change callback logs.
\<close>

record ('v, 'a, 't, 's) simple =
  sg_mobility :: "'v mobility list"
  sg_apps :: "('a, 't, 's) tsa list"
  m_count :: "u16 list"
  sg_log :: "(time \<times> nat \<times> 'v \<times> 'v) list"

definition SimpleGateway_new ::
    "('c, 'w) sim_ops \<Rightarrow> 'v mobility list \<Rightarrow> ('a, 't, 's) tsa list \<Rightarrow> 'w \<Rightarrow>
     (('v, 'a, 't, 's) simple \<times> gateway) res" where
  "SimpleGateway_new S models apps w =
     bind_res (Gateway_new S (of_nat (length models)) '' '' [CHR 0x0D, CHR 0x0A] w) (\<lambda>g.
       Inr (\<lparr>sg_mobility = models, sg_apps = apps, m_count = replicate (length models) 0, sg_log = []\<rparr>, g))"

text \<open>\<open>m_count.at(std::stoi(id)) += 1\<close>; a negative index is a huge \<open>size_t\<close>.\<close>

definition HandleReceive :: "string \<Rightarrow> ('v, 'a, 't, 's) simple \<Rightarrow> ('v, 'a, 't, 's) simple res" where
  "HandleReceive vid u =
     (case stoi vid of
        Inl e \<Rightarrow> Inl (Uncaught e)
      | Inr n \<Rightarrow>
          (if 0 \<le> n \<and> n < int (length (m_count u))
           then Inr (u\<lparr>m_count := (m_count u)[nat n := m_count u ! nat n + 1]\<rparr>)
           else Inl (Uncaught Out_of_range)))"

section \<open>DoUpdate\<close>

definition ELEMENTS_PER_VEHICLE :: u32 where
  "ELEMENTS_PER_VEHICLE = 7"

text \<open>\<open>std::stoi(data[i])\<close>; an exception is not caught, and an index past the end is undefined.\<close>

definition stoi_at :: "string list \<Rightarrow> u32 \<Rightarrow> int res" where
  "stoi_at data i =
     (if length data \<le> unat i then Inl Undefined
      else case stoi (data ! unat i) of Inl e \<Rightarrow> Inl (Uncaught e) | Inr n \<Rightarrow> Inr n)"

text \<open>
  A vector from three consecutive elements. C++ leaves open in which order the three arguments are
  evaluated, which only matters for which exception ends the program.
\<close>

definition vector_at :: "'v vector_ops \<Rightarrow> string list \<Rightarrow> u32 \<Rightarrow> 'v res" where
  "vector_at V data i =
     bind_res (stoi_at data i) (\<lambda>x.
     bind_res (stoi_at data (i + 1)) (\<lambda>y.
     bind_res (stoi_at data (i + 2)) (\<lambda>z. Inr (v_make V x y z))))"

text \<open>
  One turn of the loop in \<open>DoUpdate\<close>. The comparison with \<open>data.size()\<close> is made on the 32-bit
  sum; a vehicle without a mobility model, an application or a counter cannot occur in the program
  (\<open>main\<close> installs them), and is a null pointer.
\<close>

definition update_vehicle ::
    "('x callback, 'w) sim_ops \<Rightarrow> 'v vector_ops \<Rightarrow> string list \<Rightarrow> u32 \<Rightarrow>
     ('v, 'a, 't, 's) simple \<times> gateway \<times> 'w \<Rightarrow> (('v, 'a, 't, 's) simple \<times> gateway \<times> 'w) res" where
  "update_vehicle S V data i = (\<lambda>(u, g, w).
     (let n = unat i; dataIndex = i * ELEMENTS_PER_VEHICLE in
      if length data < unat (dataIndex + ELEMENTS_PER_VEHICLE)
        then Inl (Fatal ''received data has insufficient size'')
      else if length (sg_mobility u) \<le> n \<or> length (sg_apps u) \<le> n \<or> length (m_count u) \<le> n
        then Inl Undefined
      else
        bind_res (vector_at V data dataIndex) (\<lambda>position.
        bind_res (vector_at V data (dataIndex + 3)) (\<lambda>velocity.
        bind_res (stoi_at data (dataIndex + 6)) (\<lambda>flag.
          (let m1 = DoSetPosition V position (sg_mobility u ! n);
               (m2, log) = SetVelocity V (ReportMobility (sim_now S w) n) velocity (m1, sg_log u);
               w1 = (if flag \<noteq> 0 then Send S n 3 w else w)
           in bind_res (SetValue i (to_string (unat (m_count u ! n))) g) (\<lambda>g1.
                Inr (u\<lparr>sg_mobility := (sg_mobility u)[n := m2], sg_log := log\<rparr>, g1, w1))))))))"

fun update_vehicles ::
    "('x callback, 'w) sim_ops \<Rightarrow> 'v vector_ops \<Rightarrow> string list \<Rightarrow> u32 list \<Rightarrow>
     ('v, 'a, 't, 's) simple \<times> gateway \<times> 'w \<Rightarrow> (('v, 'a, 't, 's) simple \<times> gateway \<times> 'w) res" where
  "update_vehicles S V data [] s = Inr s"
| "update_vehicles S V data (i # is) s =
     bind_res (update_vehicle S V data i s) (update_vehicles S V data is)"

definition DoUpdate ::
    "('x callback, 'w) sim_ops \<Rightarrow> 'w os_ops \<Rightarrow> 'v vector_ops \<Rightarrow> string list \<Rightarrow>
     ('v, 'a, 't, 's) simple \<times> gateway \<times> 'w \<Rightarrow> (('v, 'a, 't, 's) simple \<times> gateway \<times> 'w) res" where
  "DoUpdate S P V data = (\<lambda>(u, g, w).
     bind_res (update_vehicles S V data (map of_nat [0..<length (sg_mobility u)]) (u, g, w)) (\<lambda>(u1, g1, w1).
     bind_res (SendResponse P (g1, w1)) (\<lambda>(g2, w2). Inr (u1, g2, w2))))"

definition DoInitialize ::
    "('x callback, 'w) sim_ops \<Rightarrow> 'w os_ops \<Rightarrow> 'v vector_ops \<Rightarrow> string list \<Rightarrow>
     ('v, 'a, 't, 's) simple \<times> gateway \<times> 'w \<Rightarrow> (('v, 'a, 't, 's) simple \<times> gateway \<times> 'w) res" where
  "DoInitialize S P V data = DoUpdate S P V data"

section \<open>The other events of the program\<close>

text \<open>
  \<open>main\<close> starts the applications, and the network's own events (packets on the bus) end in
  calls of \<open>HandleReceive\<close> through the trace of the packet sinks: \<open>net_event\<close> gives the
  effect of such an event on the rest of the program and the identifiers in these calls.
\<close>

datatype 'y simple_event = Start_app nat | Network 'y

definition on_app ::
    "nat \<Rightarrow> (('a, 't, 's) tsa \<times> 'w \<Rightarrow> (('a, 't, 's) tsa \<times> 'w) res) \<Rightarrow>
     ('v, 'a, 't, 's) simple \<times> gateway \<times> 'w \<Rightarrow> (('v, 'a, 't, 's) simple \<times> gateway \<times> 'w) res" where
  "on_app i f = (\<lambda>(u, g, w).
     if length (sg_apps u) \<le> i then Inl Undefined
     else bind_res (f (sg_apps u ! i, w)) (\<lambda>(a, w'). Inr (u\<lparr>sg_apps := (sg_apps u)[i := a]\<rparr>, g, w')))"

fun receive_all :: "string list \<Rightarrow> ('v, 'a, 't, 's) simple \<Rightarrow> ('v, 'a, 't, 's) simple res" where
  "receive_all [] u = Inr u"
| "receive_all (vid # vids) u = bind_res (HandleReceive vid u) (receive_all vids)"

definition simple_other ::
    "('y simple_event callback, 'w) sim_ops \<Rightarrow> ('a, 't, 's, 'w) net_ops \<Rightarrow>
     ('y \<Rightarrow> 'w \<Rightarrow> string list \<times> 'w) \<Rightarrow> 'y simple_event callback \<Rightarrow>
     ('v, 'a, 't, 's) simple \<times> gateway \<times> 'w \<Rightarrow> (('v, 'a, 't, 's) simple \<times> gateway \<times> 'w) res" where
  "simple_other S N net_event c s =
     (case c of
        AppProcessSendRequest i n \<Rightarrow> on_app i (\<lambda>aw. Inr (ProcessSendRequest S i n aw)) s
      | AppSendPacket i \<Rightarrow> on_app i (SendPacket S N i) s
      | UserEvent (Start_app i) \<Rightarrow> on_app i (StartApplication S N i) s
      | UserEvent (Network y) \<Rightarrow>
          (case s of (u, g, w) \<Rightarrow>
             (let (ids, w') = net_event y w
              in bind_res (receive_all ids u) (\<lambda>u'. Inr (u', g, w'))))
      | _ \<Rightarrow> Inr s)"

definition simple_host ::
    "('y simple_event callback, 'w) sim_ops \<Rightarrow> 'w os_ops \<Rightarrow> 'v vector_ops \<Rightarrow> ('a, 't, 's, 'w) net_ops \<Rightarrow>
     ('y \<Rightarrow> 'w \<Rightarrow> string list \<times> 'w) \<Rightarrow>
     ('y simple_event, ('v, 'a, 't, 's) simple, 'w) gw_host" where
  "simple_host S P V N net_event =
     \<lparr>do_initialize = DoInitialize S P V, do_update = DoUpdate S P V,
      other_event = simple_other S N net_event\<rparr>"

section \<open>The contract of the derived class\<close>

text \<open>
  An application's event identifier does not belong to the gateway, and its packet interval is one
  that the attribute's checker accepts.
\<close>

definition app_own :: "('a, 't, 's) tsa \<Rightarrow> 'x callback calendar \<Rightarrow> bool" where
  "app_own a k \<longleftrightarrow> 0 \<le> m_packetInterval a \<and>
     (\<forall>e. m_sendPacketEvent a = Some e \<longrightarrow> e \<in> cal_used k \<and>
        (\<forall>v \<in> set (cal_events k). ev_id v = e \<longrightarrow> \<not> gateway_callback (ev_call v)) \<and>
        (\<forall>x \<in> set (cal_destroy k). fst x = e \<longrightarrow> \<not> gateway_callback (snd x)))"

definition apps_own :: "('a, 't, 's) tsa list \<Rightarrow> 'x callback calendar \<Rightarrow> bool" where
  "apps_own as k \<longleftrightarrow> (\<forall>a \<in> set as. app_own a k)"

definition simple_valid ::
    "('w \<Rightarrow> 'x callback calendar) \<Rightarrow> ('w \<Rightarrow> bool) \<Rightarrow> ('v, 'a, 't, 's) simple \<Rightarrow> 'w \<Rightarrow> bool" where
  "simple_valid cal valid u w \<longleftrightarrow> valid w \<and> apps_own (sg_apps u) (cal w)"

lemma app_own_fresh: "app_own a k \<Longrightarrow> fresh_ids k k' \<Longrightarrow> app_own a k'"
  unfolding app_own_def fresh_ids_def by blast

lemma apps_own_fresh: "apps_own as k \<Longrightarrow> fresh_ids k k' \<Longrightarrow> apps_own as k'"
  using app_own_fresh unfolding apps_own_def by blast

lemma app_own_cong:
  "m_sendPacketEvent a' = m_sendPacketEvent a \<Longrightarrow> m_packetInterval a' = m_packetInterval a \<Longrightarrow>
   app_own a' k = app_own a k"
  by (simp add: app_own_def)

lemma app_own_schedule:
  assumes "cal_ok k" and "e \<notin> cal_used k" and "\<not> gateway_callback c" and "m_sendPacketEvent a = Some e"
    and "0 \<le> m_packetInterval a"
  shows "app_own a (cal_schedule e d c k)"
proof -
  have "e \<notin> ev_id ` set (cal_events k)" "e \<notin> fst ` set (cal_destroy k)"
    using assms(1,2) unfolding cal_ok_iff by blast+
  with assms(3-5) show ?thesis by (auto simp: app_own_def image_iff)
qed

text \<open>What a function of an application does, for the gateway.\<close>

definition app_keeps ::
    "('w \<Rightarrow> 'x callback calendar) \<Rightarrow> ('w \<Rightarrow> bool) \<Rightarrow> 'w \<Rightarrow> ('a, 't, 's) tsa \<Rightarrow> 'w \<Rightarrow> bool" where
  "app_keeps cal valid w a' w' \<longleftrightarrow>
     valid w' \<and> keeps_gateway (cal w) (cal w') \<and> app_own a' (cal w')"

definition gw_effect :: "('w \<Rightarrow> 'x callback calendar) \<Rightarrow> ('w \<Rightarrow> bool) \<Rightarrow> 'w \<Rightarrow> 'w \<Rightarrow> bool" where
  "gw_effect cal valid w w' \<longleftrightarrow> valid w' \<and> keeps_gateway (cal w) (cal w')"

lemma gw_effect_refl: "valid w \<Longrightarrow> gw_effect cal valid w w"
  by (simp add: gw_effect_def)

lemma gw_effect_trans:
  "gw_effect cal valid w1 w2 \<Longrightarrow> gw_effect cal valid w2 w3 \<Longrightarrow> gw_effect cal valid w1 w3"
  unfolding gw_effect_def using keeps_events_trans by blast

lemma gw_effect_valid: "gw_effect cal valid w w' \<Longrightarrow> valid w'"
  by (simp add: gw_effect_def)

lemma gw_effect_net: "net_effect cal valid w w' \<Longrightarrow> gw_effect cal valid w w'"
  unfolding gw_effect_def net_effect_def
  by (elim conjE, intro conjI, assumption, erule keeps_events_mono) (simp add: net_callback_def)

lemma gw_effect_own: "gw_effect cal valid w w' \<Longrightarrow> app_own a (cal w) \<Longrightarrow> app_own a (cal w')"
  unfolding gw_effect_def using app_own_fresh keeps_events_fresh by blast

lemma app_keeps_trans:
  "gw_effect cal valid w w1 \<Longrightarrow> app_keeps cal valid w1 a w2 \<Longrightarrow> app_keeps cal valid w a w2"
  unfolding app_keeps_def gw_effect_def using keeps_events_trans by blast

lemma app_keepsI: "gw_effect cal valid w w' \<Longrightarrow> app_own a (cal w') \<Longrightarrow> app_keeps cal valid w a w'"
  by (simp add: app_keeps_def gw_effect_def)

context network begin

lemma Send_gateway:
  assumes v: "valid w"
  shows "gw_effect cal valid w (Send S i n w)"
proof -
  obtain e w' where s: "sim_schedule_now S (AppProcessSendRequest i n) w = (e, w')" by fastforce
  from schedule_now[OF v this] have "gw_effect cal valid w w'"
    by (simp add: gw_effect_def keeps_events_schedule)
  with s v show ?thesis by (simp add: Send_def gw_effect_refl)
qed

lemma CancelEvents_gateway:
  assumes v: "valid w" and own: "app_own a (cal w)" and run: "CancelEvents S (a, w) = (a', w')"
  shows "a' = a \<and> gw_effect cal valid w w'"
proof -
  let ?e = "m_sendPacketEvent a"
  from run have w': "a' = a" "w' = (if is_pending S ?e w then cancel_event S ?e w else w)"
    by (auto simp: CancelEvents_def)
  note c = cancel_if_pending[OF v, of ?e, folded w'(2)]
  have "keeps_gateway (cal w) (cal w')"
  proof (cases ?e)
    case None
    with c show ?thesis by simp
  next
    case (Some e)
    with own have "keeps_gateway (cal w) (cal_cancel e (cal w))"
      unfolding app_own_def by (intro keeps_events_cancel) blast+
    with Some c show ?thesis by simp
  qed
  with w' c show ?thesis by (simp add: gw_effect_def)
qed

lemma schedule_own_event:
  assumes v: "valid w" and e: "e \<notin> cal_used (cal w)" and v': "valid w'"
    and k: "cal w' = cal_schedule e d (AppSendPacket i) (cal w)" and a: "m_sendPacketEvent a = Some e"
    and int: "0 \<le> m_packetInterval a"
  shows "app_keeps cal valid w a w'"
  unfolding app_keeps_def k
  using v' keeps_events_schedule[OF _ e] app_own_schedule[OF cal_ok[OF v] e _ a int] by simp

lemma ProcessSendRequest_gateway:
  assumes v: "valid w" and own: "app_own a (cal w)" and run: "ProcessSendRequest S i n (a, w) = (a', w')"
  shows "app_keeps cal valid w a' w'"
proof -
  obtain e w1 where s: "sim_schedule_now S (AppSendPacket i) w = (e, w1)" by fastforce
  have int: "m_packetInterval a' = m_packetInterval a"
    using run s by (auto simp: ProcessSendRequest_def split: if_splits)
  have "(m_sendPacketEvent a' = m_sendPacketEvent a \<and> w' = w) \<or>
      (m_sendPacketEvent a' = Some e \<and> w' = w1)"
    using run s by (auto simp: ProcessSendRequest_def split: if_splits)
  then show ?thesis
  proof
    assume "m_sendPacketEvent a' = m_sendPacketEvent a \<and> w' = w"
    with v own int show ?thesis by (simp add: app_keeps_def app_own_cong[of a' a])
  next
    assume "m_sendPacketEvent a' = Some e \<and> w' = w1"
    moreover have "0 \<le> m_packetInterval a'" using own int by (simp add: app_own_def)
    ultimately show ?thesis using schedule_now[OF v s] schedule_own_event[OF v] by blast
  qed
qed

lemma SendPacket_gateway:
  assumes v: "valid w" and own: "app_own a (cal w)"
    and run: "SendPacket S N i (a, w) = Inr (a', w')"
  shows "app_keeps cal valid w a' w'"
proof (cases "m_packetCount a = 0")
  case True
  with run v own show ?thesis by (auto simp: SendPacket_def app_keeps_def split: if_splits)
next
  case False
  with run obtain sock where sock: "m_socket_tsa a = Some sock"
    by (auto simp: SendPacket_def word_gt_0 split: if_splits option.splits)
  have int: "0 \<le> m_packetInterval a" using own by (simp add: app_own_def)
  let ?w = "send_one N i a sock w"
  note e = gw_effect_net[OF send_one_net[OF v]]
  from schedule_ex[OF gw_effect_valid[OF e] int] obtain e2 w2 where
    s: "sim_schedule S (m_packetInterval a) (AppSendPacket i) ?w = (e2, w2)" "valid w2"
      "e2 \<notin> cal_used (cal ?w)" "cal w2 = cal_schedule e2 (m_packetInterval a) (AppSendPacket i) (cal ?w)"
    by blast
  from run False sock s(1) have a': "m_sendPacketEvent a' = Some e2" "w' = w2"
    "m_packetInterval a' = m_packetInterval a"
    by (auto simp: SendPacket_def word_gt_0 split: if_splits)
  have "app_keeps cal valid ?w a' w2"
    by (rule schedule_own_event[OF gw_effect_valid[OF e] s(3,2,4) a'(1)]) (simp add: a'(3) int)
  with app_keeps_trans[OF e] a'(2) show ?thesis by blast
qed

lemma StartApplication_gateway:
  assumes v: "valid w" and own: "app_own a (cal w)" and run: "StartApplication S N i (a, w) = Inr (a', w')"
  shows "app_keeps cal valid w a' w'"
proof -
  obtain a2 w2 where e: "gw_effect cal valid w w2" and a2: "m_sendPacketEvent a2 = m_sendPacketEvent a"
    "m_packetInterval a2 = m_packetInterval a" and c: "CancelEvents S (a2, w2) = (a', w')"
  proof (cases "m_socket_tsa a")
    case None
    from StartApplication_InrD[OF v run None] obtain b w3 where "net_effect cal valid w w3"
      "m_sendPacketEvent b = m_sendPacketEvent a" "m_packetInterval b = m_packetInterval a"
      "CancelEvents S (b, w3) = (a', w')" by blast
    then show ?thesis by (intro that[of w3 b] gw_effect_net)
  next
    case (Some sock)
    with run show ?thesis using that[of w a] v by (simp add: StartApplication_def gw_effect_refl)
  qed
  have own2: "app_own a2 (cal w2)" using gw_effect_own[OF e own] by (simp add: app_own_cong[OF a2])
  from CancelEvents_gateway[OF gw_effect_valid[OF e] own2 c] have
    x: "a' = a2" "gw_effect cal valid w2 w'" by simp_all
  show ?thesis
    unfolding x(1) by (rule app_keepsI[OF gw_effect_trans[OF e x(2)] gw_effect_own[OF x(2) own2]])
qed

end

section \<open>The contract is met\<close>

lemma SetValue_InrD: "SetValue i v g = Inr g' \<Longrightarrow> \<exists>ds. g' = g\<lparr>m_data := ds\<rparr>"
  by (auto simp: SetValue_def split: if_splits)

lemma SendResponse_InrD:
  "SendResponse P (g, w) = Inr (g', w') \<Longrightarrow> g' = g \<and> (\<exists>s m r. os_send P s m w = (r, w'))"
  by (fastforce simp: SendResponse_def Let_def split: if_splits option.splits prod.splits)

lemma HandleReceive_apps: "HandleReceive i u = Inr u' \<Longrightarrow> sg_apps u' = sg_apps u"
  by (auto simp: HandleReceive_def split: sum.splits if_splits)

lemma receive_all_apps: "receive_all vids u = Inr u' \<Longrightarrow> sg_apps u' = sg_apps u"
  by (induction vids arbitrary: u) (auto dest: HandleReceive_apps)

text \<open>
  What the program of the example relies on: the contracts of the simulator, the sockets and the
  network, and that the events of the network are the network's own.
\<close>

locale simple_platform = network S cal valid N + gateway_platform S cal valid P
  for S :: "('y simple_event callback, 'w) sim_ops" and cal :: "'w \<Rightarrow> 'y simple_event callback calendar"
    and valid :: "'w \<Rightarrow> bool" and N :: "('a, 't, 's, 'w) net_ops" and P :: "'w os_ops" +
  fixes V :: "'v vector_ops" and net_event :: "'y \<Rightarrow> 'w \<Rightarrow> string list \<times> 'w"
  assumes net_event: "valid w \<Longrightarrow> net_event y w = (vids, w') \<Longrightarrow> net_effect cal valid w w'"
begin

lemma update_vehicle_keeps:
  assumes v: "valid w" and run: "update_vehicle S V data i (u, g, w) = Inr (u', g', w')"
  shows "gw_effect cal valid w w' \<and> sg_apps u' = sg_apps u \<and> (\<exists>ds. g' = g\<lparr>m_data := ds\<rparr>)"
proof -
  have "(w' = w \<or> w' = Send S (unat i) 3 w) \<and> sg_apps u' = sg_apps u \<and> (\<exists>k x. SetValue k x g = Inr g')"
    using run by (auto simp: update_vehicle_def Let_def split: if_splits prod.splits)
  then show ?thesis
    using Send_gateway[OF v] gw_effect_refl[of valid w, OF v] SetValue_InrD by blast
qed

lemma update_vehicles_keeps:
  assumes "valid w" and "update_vehicles S V data is (u, g, w) = Inr (u', g', w')"
  shows "gw_effect cal valid w w' \<and> sg_apps u' = sg_apps u \<and> (\<exists>ds. g' = g\<lparr>m_data := ds\<rparr>)"
  using assms
proof (induction "is" arbitrary: u g w)
  case Nil
  then show ?case by (auto simp: gw_effect_refl intro: exI[of _ "m_data g"])
next
  case (Cons i "is")
  then obtain u1 g1 w1 where r: "update_vehicle S V data i (u, g, w) = Inr (u1, g1, w1)"
    "update_vehicles S V data is (u1, g1, w1) = Inr (u', g', w')" by auto
  from update_vehicle_keeps[OF Cons.prems(1) r(1)] have
    1: "gw_effect cal valid w w1" "sg_apps u1 = sg_apps u" "\<exists>ds. g1 = g\<lparr>m_data := ds\<rparr>" by blast+
  from Cons.IH[OF gw_effect_valid[OF 1(1)] r(2)] have
    2: "gw_effect cal valid w1 w'" "sg_apps u' = sg_apps u1" "\<exists>ds. g' = g1\<lparr>m_data := ds\<rparr>" by blast+
  from gw_effect_trans[OF 1(1) 2(1)] data_trans[OF 2(3) 1(3)] 1(2) 2(2) show ?case by simp
qed

lemma os_send_gateway: "valid w \<Longrightarrow> os_send P s m w = (r, w') \<Longrightarrow> gw_effect cal valid w w'"
  using os_send by (fastforce simp: gw_effect_def)

lemma DoUpdate_keeps:
  assumes v: "valid w" and run: "DoUpdate S P V data (u, g, w) = Inr (u', g', w')"
  shows "gw_effect cal valid w w' \<and> sg_apps u' = sg_apps u \<and> (\<exists>ds. g' = g\<lparr>m_data := ds\<rparr>)"
proof -
  from run obtain g1 w1 where
    r: "update_vehicles S V data (map of_nat [0..<length (sg_mobility u)]) (u, g, w) = Inr (u', g1, w1)"
      "SendResponse P (g1, w1) = Inr (g', w')"
    by (auto simp: DoUpdate_def)
  from update_vehicles_keeps[OF v r(1)] have e: "gw_effect cal valid w w1"
    and a: "sg_apps u' = sg_apps u" and g: "\<exists>ds. g1 = g\<lparr>m_data := ds\<rparr>" by blast+
  from SendResponse_InrD[OF r(2)] obtain sock m r' where g1: "g' = g1" "os_send P sock m w1 = (r', w')"
    by blast
  from gw_effect_trans[OF e os_send_gateway[OF gw_effect_valid[OF e] g1(2)]] a g g1(1) show ?thesis by simp
qed

lemma on_app_keeps:
  assumes sv: "simple_valid cal valid u w"
    and f: "\<And>a a' w'. app_own a (cal w) \<Longrightarrow> f (a, w) = Inr (a', w') \<Longrightarrow> app_keeps cal valid w a' w'"
    and run: "on_app i f (u, g, w) = Inr (u', g', w')"
  shows "simple_valid cal valid u' w' \<and> keeps_gateway (cal w) (cal w') \<and> g' = g"
proof -
  from run obtain a' where i: "i < length (sg_apps u)" and r: "f (sg_apps u ! i, w) = Inr (a', w')"
    and u': "u' = u\<lparr>sg_apps := (sg_apps u)[i := a']\<rparr>" "g' = g"
    by (auto simp: on_app_def split: if_splits)
  have own: "\<forall>a \<in> set (sg_apps u). app_own a (cal w)" and v: "valid w"
    using sv by (simp_all add: simple_valid_def apps_own_def)
  have k: "app_keeps cal valid w a' w'" by (rule f[OF _ r]) (use own i in simp)
  then have "fresh_ids (cal w) (cal w')" unfolding app_keeps_def using keeps_events_fresh by blast
  with own have "app_own a (cal w')" if "a \<in> set (sg_apps u)" for a
    using that app_own_fresh by blast
  with k have "apps_own (sg_apps u') (cal w')"
    unfolding apps_own_def u' app_keeps_def by (auto dest: set_update_subset_insert[THEN subsetD])
  with k u' show ?thesis by (simp add: simple_valid_def app_keeps_def)
qed

lemma simple_valid_effect:
  assumes sv: "simple_valid cal valid u w" and e: "gw_effect cal valid w w'" and a: "sg_apps u' = sg_apps u"
  shows "simple_valid cal valid u' w' \<and> keeps_gateway (cal w) (cal w')"
proof -
  have kg: "keeps_gateway (cal w) (cal w')" "valid w'" using e by (simp_all add: gw_effect_def)
  from sv have "apps_own (sg_apps u) (cal w)" by (simp add: simple_valid_def)
  from apps_own_fresh[OF this keeps_events_fresh[OF kg(1)]] kg a show ?thesis
    by (simp add: simple_valid_def)
qed

lemma simple_other_keeps:
  assumes sv: "simple_valid cal valid u w"
    and run: "simple_other S N net_event c (u, g, w) = Inr (u', g', w')"
  shows "simple_valid cal valid u' w' \<and> keeps_gateway (cal w) (cal w') \<and> g' = g"
proof -
  have v: "valid w" using sv by (simp add: simple_valid_def)
  consider (request) i n where "c = AppProcessSendRequest i n" | (packet) i where "c = AppSendPacket i"
    | (start) i where "c = UserEvent (Start_app i)" | (net) y where "c = UserEvent (Network y)"
    | (none) "(u', g', w') = (u, g, w)"
    using run by (cases c) (auto simp: simple_other_def split: simple_event.splits)
  then show ?thesis
  proof cases
    case (request i n)
    with run have r: "on_app i (\<lambda>aw. Inr (ProcessSendRequest S i n aw)) (u, g, w) = Inr (u', g', w')"
      by (simp add: simple_other_def)
    show ?thesis
      by (rule on_app_keeps[OF sv _ r]) (use ProcessSendRequest_gateway[OF v] in auto)
  next
    case (packet i)
    with run have r: "on_app i (SendPacket S N i) (u, g, w) = Inr (u', g', w')"
      by (simp add: simple_other_def)
    show ?thesis by (rule on_app_keeps[OF sv SendPacket_gateway[OF v] r])
  next
    case (start i)
    with run have r: "on_app i (StartApplication S N i) (u, g, w) = Inr (u', g', w')"
      by (simp add: simple_other_def)
    show ?thesis by (rule on_app_keeps[OF sv StartApplication_gateway[OF v] r])
  next
    case (net y)
    obtain vids w1 where n: "net_event y w = (vids, w1)" by fastforce
    with net run have "receive_all vids u = Inr u'" "g' = g" "w' = w1" by (auto simp: simple_other_def)
    with simple_valid_effect[OF sv gw_effect_net[OF net_event[OF v n]]] receive_all_apps show ?thesis
      by blast
  next
    case none
    with sv show ?thesis by simp
  qed
qed

lemma simple_gateway_host:
  "gateway_host S cal (simple_valid cal valid) P (simple_host S P V N net_event)"
proof (rule gateway_host.intro, goal_cases)
  case (1 u)
  show ?case
    unfolding simple_valid_def by (rule restrict_platform) (rule apps_own_fresh)
next
  case (2 u w data g u' g' w')
  then have "valid w" "DoUpdate S P V data (u, g, w) = Inr (u', g', w')"
    by (simp_all add: simple_valid_def simple_host_def DoInitialize_def)
  from DoUpdate_keeps[OF this] simple_valid_effect[OF 2(1)] show ?case by blast
next
  case (3 u w data g u' g' w')
  then have "valid w" "DoUpdate S P V data (u, g, w) = Inr (u', g', w')"
    by (simp_all add: simple_valid_def simple_host_def)
  from DoUpdate_keeps[OF this] simple_valid_effect[OF 3(1)] show ?case by blast
next
  case (4 u w c g u' g' w')
  then have "simple_other S N net_event c (u, g, w) = Inr (u', g', w')" by (simp add: simple_host_def)
  from simple_other_keeps[OF 4(1) this] show ?case by (auto intro: exI[of _ "m_data g"])
qed

end

sublocale simple_platform \<subseteq> host: gateway_host S cal "simple_valid cal valid" P "simple_host S P V N net_event"
  by (rule simple_gateway_host)

text \<open>The example on the reference platform; the network's own events do nothing there.\<close>

definition ref_net_event :: "string list \<Rightarrow> 'c ref_world \<Rightarrow> string list \<times> 'c ref_world" where
  "ref_net_event vids w = (vids, w)"

interpretation ref_simple: simple_platform ref_sim ref_cal ref_valid ref_net ref_os int_vectors ref_net_event
  by unfold_locales (simp add: ref_net_event_def net_effect_def)

end
