(* ===== verification/Simple_Connection.thy ===== *)
theory Simple_Connection
  imports Gateway_Answers Simple_Gateway
begin

text \<open>
  The gateway of the example on its connection: \<open>DoUpdate\<close> sends one response and nothing else of
  the program writes to the gateway's socket, so that the class meets the contract of
  \<open>Gateway_Answers\<close>.
\<close>

section \<open>The connection\<close>

text \<open>
  The socket takes every message that it is given; the simulator and the sockets of the simulated
  network have nothing to do with it.
\<close>

locale simple_connection = simple_platform S cal valid N P V net_event
  for S :: "('y simple_event callback, 'w) sim_ops" and cal :: "'w \<Rightarrow> 'y simple_event callback calendar"
    and valid :: "'w \<Rightarrow> bool" and N :: "('a, 't, 's, 'w) net_ops" and P :: "'w os_ops"
    and V :: "'v vector_ops" and net_event :: "'y \<Rightarrow> 'w \<Rightarrow> string list \<times> 'w" +
  fixes outbox :: "'w \<Rightarrow> string list"
  assumes conn_schedule: "outbox (snd (sim_schedule S d c w)) = outbox w"
    and conn_schedule_now: "outbox (snd (sim_schedule_now S c w)) = outbox w"
    and conn_context: "outbox (sim_schedule_with_context S x d c w) = outbox w"
    and conn_cancel: "outbox (sim_cancel S e w) = outbox w"
    and conn_stop: "outbox (sim_stop S w) = outbox w"
    and conn_next: "sim_next S w = Some (c, w') \<Longrightarrow> outbox w' = outbox w"
    and conn_next_destroy: "sim_next_destroy S w = Some (c, w') \<Longrightarrow> outbox w' = outbox w"
    and conn_send: "outbox (snd (os_send P s m w)) = outbox w @ [m]"
    and conn_close: "outbox (os_close P s w) = outbox w"
    and conn_create: "outbox (snd (create_socket N t w)) = outbox w"
    and conn_bind_to: "outbox (snd (sock_bind_to N k d' w)) = outbox w"
    and conn_bind: "outbox (snd (sock_bind N k w)) = outbox w"
    and conn_bind6: "outbox (snd (sock_bind6 N k w)) = outbox w"
    and conn_callback: "outbox (set_connect_callback N k i w) = outbox w"
    and conn_tos: "outbox (set_ip_tos N k tos w) = outbox w"
    and conn_connect: "outbox (snd (sock_connect N k d' w)) = outbox w"
    and conn_broadcast: "outbox (set_allow_broadcast N k w) = outbox w"
    and conn_shutdown: "outbox (shutdown_recv N k w) = outbox w"
    and conn_sock_send: "outbox (snd (sock_send N k z w)) = outbox w"
    and conn_trace: "outbox (tx_trace N i z w) = outbox w"
    and conn_trace_addresses: "outbox (tx_trace_addresses N i z d1 d2 w) = outbox w"
    and conn_net_event: "outbox (snd (net_event y w)) = outbox w"
begin

lemmas conn_laws = conn_schedule conn_schedule_now conn_context conn_cancel conn_stop conn_close
  conn_create conn_bind_to conn_bind conn_bind6 conn_callback conn_tos conn_connect conn_broadcast
  conn_shutdown conn_sock_send conn_trace conn_trace_addresses conn_net_event

section \<open>The applications\<close>

lemma pair_out:
  "sim_schedule S d c w = (e, w') \<Longrightarrow> outbox w' = outbox w"
  "sim_schedule_now S c w = (e, w') \<Longrightarrow> outbox w' = outbox w"
  "sock_send N k z w = (b, w') \<Longrightarrow> outbox w' = outbox w"
  "create_socket N t w = (k, w') \<Longrightarrow> outbox w' = outbox w"
  "sock_connect N k d' w = (q, w') \<Longrightarrow> outbox w' = outbox w"
  "net_event y w = (vids, w') \<Longrightarrow> outbox w' = outbox w"
  "os_send P s m w = (r, w') \<Longrightarrow> outbox w' = outbox w @ [m]"
  using conn_schedule[of d c w] conn_schedule_now[of c w] conn_sock_send[of k z w] conn_create[of t w]
    conn_connect[of k d' w] conn_net_event[of y w] conn_send[of s m w] by simp_all

lemma cancel_event_conn: "outbox (cancel_event S i w) = outbox w"
  by (simp add: cancel_event_def conn_cancel split: option.splits)

lemma Send_conn: "outbox (Send S i n w) = outbox w"
  by (simp add: Send_def conn_schedule_now)

lemma CancelEvents_conn: "CancelEvents S (a, w) = (a', w') \<Longrightarrow> outbox w' = outbox w"
  by (auto simp: CancelEvents_def cancel_event_conn)

lemma ProcessSendRequest_conn: "ProcessSendRequest S i n (a, w) = (a', w') \<Longrightarrow> outbox w' = outbox w"
  by (auto simp: ProcessSendRequest_def dest!: pair_out(2) split: if_splits prod.splits)

lemma send_one_conn: "outbox (send_one N i a k w) = outbox w"
  using conn_sock_send[of k "m_packetSize a" w]
  by (simp add: send_one_def Let_def conn_trace conn_trace_addresses split_beta)

lemma SendPacket_conn: "SendPacket S N i (a, w) = Inr (a', w') \<Longrightarrow> outbox w' = outbox w"
  by (auto simp: SendPacket_def Let_def send_one_conn dest!: pair_out(1)
      split: if_splits option.splits prod.splits)

lemma bind_socket_conn: "bind_socket N a k w = Inr (r, w') \<Longrightarrow> outbox w' = outbox w"
  using conn_bind_to[of k "m_local a" w] conn_bind6[of k w] conn_bind[of k w]
  by (auto simp: bind_socket_def split: if_splits)

lemma StartApplication_conn:
  assumes "StartApplication S N i (a, w) = Inr (a', w')"
  shows "outbox w' = outbox w"
  using assms
  by (auto simp: StartApplication_def Let_def conn_laws split: option.splits if_splits prod.splits
      dest!: CancelEvents_conn bind_socket_conn pair_out(4,5))

lemma on_app_conn:
  assumes f: "\<And>a a' w'. f (a, w) = Inr (a', w') \<Longrightarrow> outbox w' = outbox w"
    and run: "on_app i f (u, g, w) = Inr (u', g', w')"
  shows "outbox w' = outbox w"
  using run f by (auto simp: on_app_def split: if_splits)

lemma simple_other_conn:
  assumes run: "simple_other S N net_event c (u, g, w) = Inr (u', g', w')"
  shows "outbox w' = outbox w"
proof -
  consider (request) i n where "c = AppProcessSendRequest i n" | (packet) i where "c = AppSendPacket i"
    | (start) i where "c = UserEvent (Start_app i)" | (net) y where "c = UserEvent (Network y)"
    | (none) "w' = w"
    using run by (cases c) (auto simp: simple_other_def split: simple_event.splits)
  then show ?thesis
  proof cases
    case (request i n)
    with run have "on_app i (\<lambda>aw. Inr (ProcessSendRequest S i n aw)) (u, g, w) = Inr (u', g', w')"
      by (simp add: simple_other_def)
    from on_app_conn[OF _ this] ProcessSendRequest_conn show ?thesis by blast
  next
    case (packet i)
    with run have "on_app i (SendPacket S N i) (u, g, w) = Inr (u', g', w')" by (simp add: simple_other_def)
    from on_app_conn[OF SendPacket_conn this] show ?thesis .
  next
    case (start i)
    with run have "on_app i (StartApplication S N i) (u, g, w) = Inr (u', g', w')" by (simp add: simple_other_def)
    from on_app_conn[OF StartApplication_conn this] show ?thesis .
  next
    case (net y)
    obtain vids w1 where n: "net_event y w = (vids, w1)" by fastforce
    with net run have "w' = w1" by (auto simp: simple_other_def)
    with pair_out(6)[OF n] show ?thesis by simp
  qed simp
qed

section \<open>The updates\<close>

lemma update_vehicle_conn:
  assumes "update_vehicle S V data i (u, g, w) = Inr (u', g', w')"
  shows "outbox w' = outbox w"
  using assms by (auto simp: update_vehicle_def Let_def Send_conn split: if_splits prod.splits)

lemma update_vehicles_conn:
  "update_vehicles S V data is (u, g, w) = Inr (u', g', w') \<Longrightarrow> outbox w' = outbox w"
proof (induction "is" arbitrary: u g w)
  case (Cons i "is")
  then obtain u1 g1 w1 where "update_vehicle S V data i (u, g, w) = Inr (u1, g1, w1)"
    "update_vehicles S V data is (u1, g1, w1) = Inr (u', g', w')" by auto
  with Cons.IH update_vehicle_conn show ?case by metis
qed simp

text \<open>\<open>DoUpdate\<close> sends the response that is made of the values that it has set.\<close>

lemma DoUpdate_conn:
  assumes "DoUpdate S P V data (u, g, w) = Inr (u', g', w')"
  shows "\<exists>m. outbox w' = outbox w @ [m]"
proof -
  from assms obtain u1 g1 w1 where
    r: "update_vehicles S V data (map of_nat [0..<length (sg_mobility u)]) (u, g, w) = Inr (u1, g1, w1)"
    "SendResponse P (g1, w1) = Inr (g', w')" by (auto simp: DoUpdate_def)
  from SendResponse_InrD[OF r(2)] obtain s m k where "os_send P s m w1 = (k, w')" by blast
  from pair_out(7)[OF this] update_vehicles_conn[OF r(1)] show ?thesis by simp
qed

lemma simple_gateway_answers:
  "gateway_answers S cal (simple_valid cal valid) P (simple_host S P V N net_event) outbox"
proof (intro gateway_answers.intro gateway_answers_axioms.intro, goal_cases)
  case 1
  show ?case by (rule simple_gateway_host)
next
  case (10 u w data g u' g' w')
  then have "DoUpdate S P V data (u, g, w) = Inr (u', g', w')" by (simp add: simple_host_def DoInitialize_def)
  then show ?case by (rule DoUpdate_conn)
next
  case (11 u w data g u' g' w')
  then have "DoUpdate S P V data (u, g, w) = Inr (u', g', w')" by (simp add: simple_host_def)
  then show ?case by (rule DoUpdate_conn)
next
  case (12 u w c g u' g' w')
  then have "simple_other S N net_event c (u, g, w) = Inr (u', g', w')" by (simp add: simple_host_def)
  then show ?case by (rule simple_other_conn)
qed (simp_all add: conn_laws conn_next conn_next_destroy)

end

sublocale simple_connection \<subseteq> answers: gateway_answers S cal "simple_valid cal valid" P
    "simple_host S P V N net_event" outbox
  by (rule simple_gateway_answers)

interpretation ref_conn: simple_connection ref_sim ref_cal ref_valid ref_net ref_os int_vectors
    ref_net_event rw_sent
  by unfold_locales (auto simp: ref_sim_def ref_os_def ref_net_def ref_net_event_def ref_insert_def
      split: if_splits list.splits)

end
