(* ===== verification/Gateway_Shutdown.thy ===== *)
theory Gateway_Shutdown
  imports Gateway_Data
begin

text \<open>
  How a gateway in the event loop is stopped: no handler schedules \<open>Stop\<close> or moves the clock, so
  that a connected gateway keeps running until its receiving thread has found the connection closed
  or broken, or until the event loop has ended.
\<close>

section \<open>Handlers neither stop the gateway nor move the clock\<close>

definition stop_pending :: "'x callback calendar \<Rightarrow> bool" where
  "stop_pending k \<longleftrightarrow> (\<exists>v \<in> set (cal_events k). ev_call v = GatewayStop)"

text \<open>
  \<open>ForwardUp\<close> and \<open>DoInitialize\<close> are only scheduled without a delay, so they are never pending for a
  time that has not come.
\<close>

definition instant :: "'x callback \<Rightarrow> bool" where
  "instant c \<longleftrightarrow> c = GatewayForwardUp \<or> (\<exists>d. c = GatewayDoInitialize d)"

lemma instant_simps [simp]:
  "instant GatewayForwardUp" "instant (GatewayDoInitialize d)" "\<not> instant GatewayStop"
  "\<not> instant GatewayWaitForNextUpdate" "\<not> instant (GatewayHandleUpdate d)"
  by (simp_all add: instant_def)

lemma instant_gateway: "instant c \<Longrightarrow> gateway_callback c"
  by (auto simp: instant_def)

definition prompt :: "'x callback calendar \<Rightarrow> bool" where
  "prompt k \<longleftrightarrow> (\<forall>v \<in> set (cal_events k). instant (ev_call v) \<longrightarrow> ev_time v \<le> cal_now k)"

definition calm :: "'x callback calendar \<Rightarrow> 'x callback calendar \<Rightarrow> bool" where
  "calm k k' \<longleftrightarrow> cal_now k' = cal_now k \<and> (stop_pending k' \<longrightarrow> stop_pending k) \<and> (prompt k \<longrightarrow> prompt k')"

lemma calm_refl [simp]: "calm k k"
  by (simp add: calm_def)

lemma calm_trans: "calm k1 k2 \<Longrightarrow> calm k2 k3 \<Longrightarrow> calm k1 k3"
  by (simp add: calm_def)

lemma stop_pending_schedule [simp]:
  "stop_pending (cal_schedule e d c k) \<longleftrightarrow> c = GatewayStop \<or> stop_pending k"
  by (auto simp: stop_pending_def)

lemma prompt_schedule [simp]: "instant c \<longrightarrow> d \<le> 0 \<Longrightarrow> prompt k \<Longrightarrow> prompt (cal_schedule e d c k)"
  by (auto simp: prompt_def)

lemma calm_schedule: "c \<noteq> GatewayStop \<Longrightarrow> instant c \<longrightarrow> d \<le> 0 \<Longrightarrow> calm k (cal_schedule e d c k)"
  by (simp add: calm_def)

lemma calm_cancel: "calm k (cal_cancel_opt i k)"
  using cal_cancel_opt_subset(1)[of i k] by (auto simp: calm_def stop_pending_def prompt_def)

lemma calm_stopped: "calm k (k\<lparr>cal_stopped := b\<rparr>)"
  by (simp add: calm_def stop_pending_def prompt_def)

lemma calm_keeps:
  assumes "keeps_gateway k k'"
  shows "calm k k'"
proof -
  have "stop_pending k' \<longrightarrow> stop_pending k"
    using keeps_events_event[OF assms] by (auto simp: stop_pending_def)
  moreover have "prompt k \<longrightarrow> prompt k'"
    unfolding prompt_def keeps_events_now[OF assms]
    using keeps_events_event[OF assms instant_gateway] by blast
  ultimately show ?thesis using assms by (simp add: calm_def)
qed

context gateway_platform begin

lemma WaitForNextUpdate_calm:
  assumes v: "valid w" and run: "WaitForNextUpdate S (g, w) = (g', w')"
  shows "calm (cal w) (cal w')"
  using v run
proof (cases rule: WaitForNextUpdate_cal)
  case (wait e)
  then show ?thesis by (simp only:) (rule calm_trans[OF calm_cancel calm_schedule]; simp)
qed simp

lemma process_message_calm:
  assumes v: "valid w" and run: "process_message S T vs (g, w) = Inr (g', w')"
  shows "calm (cal w) (cal w')"
  using v run
proof (cases rule: process_message_cal)
  case (normal e d)
  then show ?thesis by (simp only:) (rule calm_trans[OF calm_cancel calm_schedule]; simp)
qed (simp_all add: calm_stopped calm_schedule)

lemma Stop_finish_calm:
  assumes "valid w" and "Stop_finish S P c (g, w) = (g', w')"
  shows "calm (cal w) (cal w')"
  unfolding Stop_finish_cal(2)[OF assms] by (rule calm_trans[OF calm_cancel calm_cancel])

end

context gateway_host begin

lemmas host_calm_wait = gateway_platform.WaitForNextUpdate_calm[OF platform]
lemmas host_calm_message = gateway_platform.process_message_calm[OF platform]
lemmas host_calm_stop = gateway_platform.Stop_finish_calm[OF platform]

lemma foreign_calm:
  assumes "valid u' w' \<and> keeps_gateway (cal w) (cal w') \<and> (\<exists>ds. g' = g\<lparr>m_data := ds\<rparr>)"
  shows "calm (cal w) (cal w')"
proof -
  from assms have "keeps_gateway (cal w) (cal w')" by (elim conjE)
  then show ?thesis by (rule calm_keeps)
qed

lemma HandleUpdate_calm:
  assumes v: "valid u w" and run: "HandleUpdate S (do_update H) data (u, g, w) = Inr (u', g', w')"
  shows "calm (cal w) (cal w')"
proof (cases "sim_now S w = m_timePause g")
  case True
  obtain e w1 where s: "sim_schedule_now S GatewayWaitForNextUpdate w = (e, w1)" by fastforce
  from True run s have d: "do_update H data (u, g\<lparr>m_eventWait := Some e\<rparr>, w1) = Inr (u', g', w')"
    by (simp add: HandleUpdate_def)
  from sim_scheduled_now[OF v s] have v1: "valid u w1"
    and c1: "cal w1 = cal_schedule e 0 GatewayWaitForNextUpdate (cal w)" by blast+
  have "calm (cal w) (cal w1)" unfolding c1 by (rule calm_schedule) simp_all
  from calm_trans[OF this foreign_calm[OF do_update[OF v1 d]]] show ?thesis .
next
  case False
  with run have d: "do_update H data (u, g, w) = Inr (u', g', w')" by (simp add: HandleUpdate_def)
  from foreign_calm[OF do_update[OF v d]] show ?thesis .
qed

lemma dispatch_calm:
  assumes v: "valid u w" and c: "c \<noteq> GatewayStop" and run: "dispatch S H c (u, g, w) = Inr (u', g', w')"
  shows "calm (cal w) (cal w')"
proof (cases "gateway_callback c")
  case False
  then have "other_event H c (u, g, w) = Inr (u', g', w')" using run by (cases c) (simp_all add: dispatch_def)
  from foreign_calm[OF other_event[OF v False this]] show ?thesis .
next
  case True
  then consider "c = GatewayForwardUp" | "c = GatewayWaitForNextUpdate"
    | d where "c = GatewayHandleUpdate d" | d where "c = GatewayDoInitialize d" using c by (cases c) auto
  then show ?thesis
  proof cases
    case 1
    with run have "ForwardUp S (g, w) = Inr (g', w')" by (auto simp: dispatch_def)
    then show ?thesis by (auto simp: ForwardUp_def dest: host_calm_message[OF v] split: list.splits option.splits)
  next
    case 2
    with run have "WaitForNextUpdate S (g, w) = (g', w')" by (simp add: dispatch_def)
    then show ?thesis by (rule host_calm_wait[OF v])
  next
    case (3 d)
    with run have "HandleUpdate S (do_update H) d (u, g, w) = Inr (u', g', w')" by (simp add: dispatch_def)
    then show ?thesis by (rule HandleUpdate_calm[OF v])
  next
    case (4 d)
    with run have "do_initialize H d (u, g, w) = Inr (u', g', w')" by (simp add: dispatch_def)
    from foreign_calm[OF do_initialize[OF v this]] show ?thesis .
  qed
qed

end

section \<open>Steps\<close>

text \<open>The main thread is in the event loop, possibly waiting in \<open>Stop\<close>.\<close>

definition in_loop :: "('u, 'w) gw_sys \<Rightarrow> bool" where
  "in_loop s \<longleftrightarrow> s_main s = Main_Run \<or> s_main s = Main_Join False"

text \<open>The gateway has been stopped, or it will be because the thread has lost the connection.\<close>

definition stop_sign :: "('w \<Rightarrow> 'x callback calendar) \<Rightarrow> ('u, 'w) gw_sys \<Rightarrow> bool" where
  "stop_sign cal s \<longleftrightarrow>
     (\<exists>d. s_thread s = T_Lost d) \<or> stop_pending (cal (s_world s)) \<or> m_state (s_gw s) \<noteq> CONNECTED"

text \<open>\<open>s'\<close> may only be stopping where \<open>s\<close> was, and the clock has not gone back.\<close>

definition steady :: "('w \<Rightarrow> 'x callback calendar) \<Rightarrow> ('u, 'w) gw_sys \<Rightarrow> ('u, 'w) gw_sys \<Rightarrow> bool" where
  "steady cal s s' \<longleftrightarrow>
     in_loop s \<and> (stop_sign cal s' \<longrightarrow> stop_sign cal s) \<and>
     cal_now (cal (s_world s)) \<le> cal_now (cal (s_world s'))"

context gateway_host begin

lemma main_stop_calm:
  assumes v: "valid (s_user s) (s_world s)"
  shows "calm (cal (s_world s)) (cal (s_world (main_stop S P s)))"
proof (cases "m_state (s_gw s) = CONNECTED \<and> m_thread (s_gw s)")
  case True
  then show ?thesis by (simp add: main_stop_def Stop_signal_def)
next
  case False
  obtain g2 w2 where f: "Stop_finish S P (m_state (s_gw s) = CONNECTED)
      (s_gw s\<lparr>m_state := STOPPING\<rparr>, s_world s) = (g2, w2)" by fastforce
  from host_calm_stop[OF v f] False f show ?thesis by (auto simp: main_stop_def Stop_signal_def)
qed

lemma main_event_steady:
  assumes v: "valid (s_user s) w" and pop: "gw_popped t0 x c (s_gw s) (cal w)" and m: "s_main s = Main_Run"
    and nx: "cal_next (cal (s_world s)) = Some (c, cal w)" and ok: "cal_ok (cal (s_world s))"
    and l: "in_loop (main_event S P H c (s\<lparr>s_world := w\<rparr>))"
  shows "steady cal s (main_event S P H c (s\<lparr>s_world := w\<rparr>))"
proof -
  obtain e where ev: "cal_events (cal (s_world s)) = (e, cal_now (cal w), c) # cal_events (cal w)"
    using nx by (rule cal_next_SomeD)
  have sp: "stop_pending (cal (s_world s)) \<longleftrightarrow> c = GatewayStop \<or> stop_pending (cal w)"
    by (simp add: stop_pending_def ev)
  note mono = cal_next_now[OF ok nx]
  have il: "in_loop s" using m by (simp add: in_loop_def)
  show ?thesis
  proof (cases "c = GatewayStop")
    case True
    from main_stop_calm[of "s\<lparr>s_world := w\<rparr>"] v True mono sp il show ?thesis
      by (simp add: steady_def main_event_def calm_def stop_sign_def)
  next
    case False
    show ?thesis
    proof (cases "dispatch S H c (s_user s, s_gw s, w)")
      case (Inl f)
      with False l show ?thesis by (simp add: main_event_def in_loop_def)
    next
      case (Inr q)
      obtain u g' w' where q: "q = (u, g', w')" by (cases q)
      note run = Inr[unfolded q]
      have "m_state g' = m_state (s_gw s)" using dispatch_ok[OF v pop False run] by (simp add: gw_frame_def)
      with dispatch_calm[OF v False run] False run mono sp il show ?thesis
        by (auto simp: steady_def main_event_def calm_def stop_sign_def)
    qed
  qed
qed

lemma main_join_steady:
  assumes v: "valid (s_user s) (s_world s)" and m: "s_main s = Main_Join b" and st: "m_state (s_gw s) = STOPPING"
    and l: "in_loop (main_join S P b s)"
  shows "steady cal s (main_join S P b s)"
proof -
  obtain g2 w2 where f: "Stop_finish S P True (s_gw s, s_world s) = (g2, w2)" by fastforce
  have "\<not> b" using l f by (cases b) (auto simp: main_join_def in_loop_def)
  with host_calm_stop[OF v f] f st m show ?thesis
    by (simp add: steady_def in_loop_def main_join_def calm_def stop_sign_def)
qed

lemma thread_step_steady:
  assumes v: "valid (s_user s) (s_world s)" and run: "thread_step S r s = Some s'" and l: "in_loop s'"
    and r: "\<forall>d. s_thread s = T_Recv d \<longrightarrow> (\<exists>bs. r = Received bs)"
  shows "steady cal s s'"
proof -
  have ctx: "cal_now (cal (sim_schedule_with_context S n 0 c (s_world s))) = cal_now (cal (s_world s)) \<and>
      (stop_pending (cal (sim_schedule_with_context S n 0 c (s_world s))) \<longleftrightarrow>
        c = GatewayStop \<or> stop_pending (cal (s_world s)))" for n c
    using sim_scheduled_context[OF v, of 0 n c] by auto
  show ?thesis
    using run l r
    by (auto simp: thread_step_def Let_def steady_def in_loop_def stop_sign_def ctx
        split: thread_pc.splits option.splits recv_result.splits if_splits)
qed

text \<open>A step that ends in the event loop started there, and only the end of the connection is a new stop sign.\<close>

lemma gw_step_steady:
  assumes step: "gw_step S P H s l s'" and ok: "sys_ok cal valid t0 s" and l: "in_loop s'"
    and r: "l \<noteq> L_Recv Closed" "l \<noteq> L_Recv Failed"
  shows "steady cal s s'"
proof -
  from ok gw_step_alive[OF step] have v: "valid (s_user s) (s_world s)"
    and g: "gw_ok t0 (forward_extra (s_thread s)) (s_gw s) (cal (s_world s))"
    and j: "(\<exists>b. s_main s = Main_Join b) \<longrightarrow> m_state (s_gw s) = STOPPING" by (simp_all add: sys_ok_def)
  show ?thesis
    using step
  proof (cases rule: gw_step.cases)
    case thread
    with thread_step_steady[OF v _ l] show ?thesis by blast
  next
    case (recv d x)
    then have "\<exists>bs. x = Received bs" using r by (cases x) auto
    with recv thread_step_steady[OF v _ l] show ?thesis by blast
  next
    case (run c w)
    from sim_next_event[OF v run(4)] have nk: "cal_next (cal (s_world s)) = Some (c, cal w)" by blast
    from host_popped[OF v g run(4)] main_event_steady[OF _ _ run(3) nk sim_ok[OF v]] l show ?thesis
      unfolding run(2) by blast
  next
    case run_end
    with l show ?thesis by (simp add: in_loop_def)
  next
    case (destroy c w)
    have "\<not> in_loop s'"
      unfolding destroy(2) main_event_def using destroy(3)
      by (auto simp: in_loop_def main_stop_def Stop_signal_def Let_def split: prod.splits sum.splits)
    with l show ?thesis by simp
  next
    case (join b d)
    from main_join_steady[OF v join(3)] j join l show ?thesis by blast
  qed
qed

lemma gw_step_in_loop:
  assumes step: "gw_step S P H s l s'" and l: "in_loop s'"
  shows "in_loop s"
  using step
proof (cases rule: gw_step.cases)
  case thread
  then show ?thesis using l
    by (auto simp: thread_step_def Let_def in_loop_def split: thread_pc.splits option.splits if_splits)
next
  case (recv d x)
  then show ?thesis using l
    by (auto simp: thread_step_def Let_def in_loop_def split: recv_result.splits)
next
  case (destroy c w)
  have "\<not> in_loop s'"
    unfolding destroy(2) main_event_def using destroy(3)
    by (auto simp: in_loop_def main_stop_def Stop_signal_def Let_def split: prod.splits sum.splits)
  with l show ?thesis by simp
next
  case (join b d)
  then show ?thesis using l
    by (auto simp: in_loop_def main_join_def split: prod.splits if_splits)
qed (use l in \<open>auto simp: in_loop_def\<close>)

lemma recv_clock:
  assumes "thread_step S r s = Some s'" and "s_thread s = T_Recv d"
  shows "s_world s' = s_world s"
  using assms by (auto simp: thread_step_def Let_def split: recv_result.splits)

text \<open>In the event loop the clock is not before its start.\<close>

lemma reachable_clock:
  "gw_reachable S cal valid P H s0 s \<Longrightarrow> in_loop s \<Longrightarrow>
   cal_now (cal (s_world s0)) \<le> cal_now (cal (s_world s))"
proof (induction rule: gw_reachable.induct)
  case (step s0 s l s')
  note step' = step.hyps(2) and il = gw_step_in_loop[OF step.hyps(2) step.prems]
  have "cal_now (cal (s_world s)) \<le> cal_now (cal (s_world s'))"
  proof (cases "l = L_Recv Closed \<or> l = L_Recv Failed")
    case True
    from step' True obtain r d where "thread_step S r s = Some s'" "s_thread s = T_Recv d"
      by (cases rule: gw_step.cases) auto
    from recv_clock[OF this] show ?thesis by simp
  next
    case False
    with gw_step_steady[OF step' reachable_ok[OF step.hyps(1)] step.prems] show ?thesis
      by (simp add: steady_def)
  qed
  with step.IH[OF il] show ?case by simp
qed simp

lemma gw_initial_steady:
  assumes "gw_initial S cal valid P s"
  shows "\<not> stop_sign cal s"
proof -
  obtain k ed ew where
    c: "cal (s_world s) = cal_schedule ew 0 GatewayWaitForNextUpdate (cal_schedule_destroy ed GatewayStop k)"
    and ev: "\<forall>v \<in> set (cal_events k). \<not> gateway_callback (ev_call v)" by (rule gw_initial_calendar[OF assms])
  from assms obtain g w addr port where
    "Connect S P addr port (g, w) = Inr (s_gw s, s_world s)" and t: "s_thread s = T_Loop"
    unfolding gw_initial_def by blast
  from Connect_InrD[OF this(1)] have "m_state (s_gw s) = CONNECTED" by auto
  moreover have "\<not> stop_pending (cal_schedule_destroy ed GatewayStop k)"
    using ev by (auto simp: stop_pending_def cal_schedule_destroy_def)
  ultimately show ?thesis using t by (simp add: stop_sign_def c)
qed

end

end
