(* ===== verification/Gateway_Properties.thy ===== *)
theory Gateway_Properties
  imports Simple_Gateway
begin

text \<open>
  The properties of the running gateway, for every simulator, socket layer and derived class that
  meet their contracts and for every order of the steps of the two threads. The witnesses run the
  gateway of \<open>examples/simple-gateway.cc\<close>, with no vehicle, on the reference platform.
\<close>

section \<open>A concrete system\<close>

type_synonym ref_user = "(int \<times> int \<times> int, nat \<times> nat, string, nat) simple"
type_synonym ref_callback = "string list simple_event callback"
type_synonym ref_sys = "(ref_user, ref_callback ref_world) gw_sys"

abbreviation ref_host :: "(string list simple_event, ref_user, ref_callback ref_world) gw_host" where
  "ref_host \<equiv> simple_host ref_sim ref_os int_vectors ref_net ref_net_event"

abbreviation ref_ok :: "ref_user \<Rightarrow> ref_callback ref_world \<Rightarrow> bool" where
  "ref_ok \<equiv> simple_valid ref_cal ref_valid"

definition CRLF :: string where
  "CRLF = [CHR 0x0D, CHR 0x0A]"

definition ref_user0 :: ref_user where
  "ref_user0 = \<lparr>sg_mobility = [], sg_apps = [], m_count = [], sg_log = []\<rparr>"

text \<open>The gateway after \<open>Connect\<close>, which scheduled the events 0 and 1.\<close>

definition ref_gateway :: gateway where
  "ref_gateway = \<lparr>m_context = 0, m_eventWait = Some 1, m_eventDestroy = Some 0, m_state = CONNECTED,
     m_timeStart = Seconds (-1), m_timePause = Seconds 0, m_socket = Some 3, m_thread = True,
     m_messageQueue = [], m_delimiterField = '' '', m_delimiterMessage = CRLF,
     m_messageBuffer = [], m_data = []\<rparr>"

definition ref_connected :: "ref_callback ref_world" where
  "ref_connected = (ref_init 0)\<lparr>rw_uid := 2, rw_destroy := [(0, GatewayStop)],
     rw_events := [(1, 0, GatewayWaitForNextUpdate)]\<rparr>"

definition ref_start :: ref_sys where
  "ref_start = \<lparr>s_user = ref_user0, s_gw = ref_gateway, s_world = ref_connected, s_thread = T_Loop,
     s_main = Main_Run, s_received = [], s_forwarded = []\<rparr>"

lemma ref_host_ok: "gateway_host ref_sim ref_cal ref_ok ref_os ref_host"
  by (rule ref_simple.simple_gateway_host)

lemma ref_start_initial: "gw_initial ref_sim ref_cal ref_ok ref_os ref_start"
proof -
  let ?g0 = "\<lparr>m_context = 0, m_eventWait = None, m_eventDestroy = None, m_state = CREATED,
     m_timeStart = Seconds (-1), m_timePause = Seconds 0, m_socket = None, m_thread = False,
     m_messageQueue = [], m_delimiterField = '' '', m_delimiterMessage = CRLF,
     m_messageBuffer = [], m_data = []\<rparr>"
  let ?w0 = "ref_init 0 :: ref_callback ref_world"
  have n: "Gateway_new ref_sim 0 '' '' CRLF ?w0 = Inr ?g0"
    by (simp add: Gateway_new_def ref_sim_simps CRLF_def)
  have v: "ref_ok (s_user ref_start) ?w0"
    by (simp add: simple_valid_def ref_start_def ref_user0_def apps_own_def)
  have e: "\<forall>v \<in> set (cal_events (ref_cal ?w0)). \<not> gateway_callback (ev_call v)"
    "\<forall>v \<in> set (cal_destroy (ref_cal ?w0)). \<not> gateway_callback (snd v)"
    by (simp_all add: ref_cal_def ref_init_def)
  have c: "Connect ref_sim ref_os ''127.0.0.1'' 8000 (?g0\<lparr>m_data := []\<rparr>, ?w0) =
      Inr (s_gw ref_start, s_world ref_start)"
    by (simp add: Connect_def ref_eval ref_start_def ref_gateway_def ref_connected_def)
  show ?thesis
    unfolding gw_initial_def
  proof (intro conjI exI)
    show "Gateway_new ref_sim 0 '' '' CRLF ?w0 = Inr ?g0" by (rule n)
  qed (use v e c in \<open>simp_all add: ref_start_def\<close>)
qed

lemma ref_start_reachable: "gw_reachable ref_sim ref_cal ref_ok ref_os ref_host ref_start ref_start"
  by (rule gw_reachable.start[OF ref_start_initial])

text \<open>The receiving thread finds nothing in its buffer and waits in \<open>recv\<close>.\<close>

definition ref_waiting :: ref_sys where
  "ref_waiting = ref_start\<lparr>s_thread := T_Recv []\<rparr>"

lemma ref_waiting_reachable: "gw_reachable ref_sim ref_cal ref_ok ref_os ref_host ref_start ref_waiting"
proof -
  let ?s1 = "ref_start\<lparr>s_thread := T_Find []\<rparr>"
  have "gw_step ref_sim ref_os ref_host ref_start L_Thread ?s1"
    by (rule gw_step.thread) (simp_all add: ref_start_def ref_gateway_def thread_step_def)
  note 1 = gw_reachable.step[OF ref_start_reachable this]
  have "gw_step ref_sim ref_os ref_host ?s1 L_Thread ref_waiting"
    by (rule gw_step.thread)
      (simp_all add: ref_start_def ref_waiting_def ref_gateway_def thread_step_def CRLF_def)
  then show ?thesis by (rule gw_reachable.step[OF 1])
qed

section \<open>Time\<close>

lemma ref_start_next:
  "sim_next ref_sim (s_world ref_start) =
     Some (GatewayWaitForNextUpdate, ref_connected\<lparr>rw_events := []\<rparr>)"
  by (simp add: ref_eval ref_start_def ref_connected_def)

text \<open>C1: Lock step. While the gateway is connected, the event loop moves the simulation clock only
  when the server has granted an update, that is, when a call of \<open>HandleUpdate\<close> is pending for
  the time \<open>m_timePause\<close>, and never past that time; otherwise the next event is at the current
  time. This holds in every reachable state, however the receiving thread is interleaved.\<close>

theorem lockstep:
  assumes "gateway_host S cal valid P H" and "gw_reachable S cal valid P H s0 s"
    and "s_main s = Main_Run" and "m_state (s_gw s) = CONNECTED"
    and "sim_next S (s_world s) = Some (c, w)"
  shows "sim_now S w = sim_now S (s_world s) \<or>
    sim_now S (s_world s) < sim_now S w \<and> sim_now S w \<le> m_timePause (s_gw s) \<and>
    (\<exists>e data. (e, m_timePause (s_gw s), GatewayHandleUpdate data) \<in> set (cal_events (cal (s_world s))))"
  by (rule gateway_host.clock_step[OF assms])

theorem lockstep_witness:
  "sim_now ref_sim (ref_connected\<lparr>rw_events := []\<rparr>) = sim_now ref_sim ref_connected"
proof -
  have m: "s_main ref_start = Main_Run" "m_state (s_gw ref_start) = CONNECTED"
    by (simp_all add: ref_start_def ref_gateway_def)
  from lockstep[OF ref_host_ok ref_start_reachable m ref_start_next] show ?thesis
    by (simp add: ref_start_def ref_connected_def ref_init_def ref_cal_def)
qed

text \<open>The clock never overtakes the server: in every reachable state with a connected gateway the
  current time is at most \<open>m_timePause\<close>, the time of the last update that was received,
  or it is still the time at which \<open>Connect\<close> was called.\<close>

theorem clock_within_grant:
  assumes "gateway_host S cal valid P H" and "gw_reachable S cal valid P H s0 s"
    and "\<forall>f. s_main s \<noteq> Main_Failed f" and "m_state (s_gw s) = CONNECTED"
  shows "sim_now S (s_world s) \<le> m_timePause (s_gw s) \<or> sim_now S (s_world s) = sim_now S (s_world s0)"
  by (rule gateway_host.clock_bound[OF assms])

theorem clock_within_grant_witness:
  "sim_now ref_sim (s_world ref_waiting) \<le> m_timePause (s_gw ref_waiting) \<or>
   sim_now ref_sim (s_world ref_waiting) = sim_now ref_sim (s_world ref_start)"
  by (rule clock_within_grant[OF ref_host_ok ref_waiting_reachable])
    (simp_all add: ref_waiting_def ref_start_def ref_gateway_def)

text \<open>C9: The simulation does not end by itself while the gateway is connected: unless somebody called
  \<open>Simulator::Stop\<close>, the event loop always has a next event, so it waits for the server instead
  of running out of events.\<close>

theorem loop_never_runs_dry:
  assumes "gateway_host S cal valid P H" and "gw_reachable S cal valid P H s0 s"
    and "s_main s = Main_Run" and "m_state (s_gw s) = CONNECTED"
    and "\<not> cal_stopped (cal (s_world s))"
  shows "\<exists>c w. sim_next S (s_world s) = Some (c, w)"
  by (rule gateway_host.loop_alive[OF assms])

theorem loop_never_runs_dry_witness: "\<exists>c w. sim_next ref_sim (s_world ref_waiting) = Some (c, w)"
  by (rule loop_never_runs_dry[OF ref_host_ok ref_waiting_reachable])
    (simp_all add: ref_waiting_def ref_start_def ref_gateway_def ref_connected_def ref_init_def ref_cal_def)

section \<open>Messages\<close>

text \<open>C10: No byte is lost, reordered or split differently by the way the stream arrives: whenever the
  receiving thread waits in \<open>recv\<close>, the messages that the main thread has processed, followed by
  those in the queue, are exactly the complete messages in all the bytes received so far, and the
  thread holds exactly the rest, whatever chunks \<open>recv\<close> returned.\<close>

theorem stream_reassembled:
  assumes "gateway_host S cal valid P H" and "gw_reachable S cal valid P H s0 s"
    and "s_thread s = T_Recv d"
  shows "frames (m_delimiterMessage (s_gw s)) (s_received s) =
    (s_forwarded s @ m_messageQueue (s_gw s), d)"
proof -
  from gateway_host.reachable_stream[OF assms(1,2)]
  have ok: "stream_ok (m_delimiterMessage (s_gw s0)) s" .
  then have "m_delimiterMessage (s_gw s) = m_delimiterMessage (s_gw s0)"
    "m_delimiterMessage (s_gw s0) \<noteq> []" "find_sub (m_delimiterMessage (s_gw s0)) d = None"
    using assms(3) by (simp_all add: stream_ok_def pc_ok_def)
  with stream_ok_frames[OF ok] assms(3) show ?thesis by (simp add: thread_data_def frames_None)
qed

theorem stream_reassembled_witness:
  "frames CRLF (s_received ref_waiting) = (s_forwarded ref_waiting @ m_messageQueue (s_gw ref_waiting), [])"
  using stream_reassembled[OF ref_host_ok ref_waiting_reachable, of "[]"]
  by (simp add: ref_waiting_def ref_start_def ref_gateway_def)

text \<open>One call of \<open>ForwardUp\<close> for each message: in every reachable state the number of pending
  \<open>ForwardUp\<close> events, plus the one that the thread is about to schedule, is the length of the queue.\<close>

theorem forward_events_match_queue:
  assumes "gateway_host S cal valid P H" and "gw_reachable S cal valid P H s0 s"
    and "\<forall>f. s_main s \<noteq> Main_Failed f"
  shows "length (m_messageQueue (s_gw s)) =
    length (filter (\<lambda>v. ev_call v = GatewayForwardUp) (cal_events (cal (s_world s)))) +
    (if s_thread s = T_Forward then 1 else 0)"
  by (rule gateway_host.forward_matches_queue[OF assms])

theorem forward_events_match_queue_witness:
  "length (m_messageQueue (s_gw ref_waiting)) =
    length (filter (\<lambda>v. ev_call v = GatewayForwardUp) (cal_events (ref_cal (s_world ref_waiting)))) +
    (if s_thread ref_waiting = T_Forward then 1 else 0)"
  by (rule forward_events_match_queue[OF ref_host_ok ref_waiting_reachable])
    (simp add: ref_waiting_def ref_start_def)

section \<open>The end of the connection\<close>

text \<open>The gateway's state only moves forward, from \<open>CREATED\<close> over \<open>CONNECTED\<close> to
  \<open>STOPPING\<close>: no step of either thread takes it back.\<close>

theorem state_moves_forward:
  assumes "gateway_host S cal valid P H" and "gw_reachable S cal valid P H s0 s"
    and "gw_step S P H s l s'"
  shows "m_state (s_gw s) \<le> m_state (s_gw s')"
  by (rule gateway_host.gw_step_state[OF assms(1,3) gateway_host.reachable_ok[OF assms(1,2)]])

lemma ref_recv_step: "gw_step ref_sim ref_os ref_host ref_waiting (L_Recv Closed) (ref_waiting\<lparr>s_thread := T_Lost []\<rparr>)"
  by (rule gw_step.recv[where d = "[]"])
    (simp_all add: ref_waiting_def ref_start_def recv_ok_def thread_step_def)

theorem state_moves_forward_witness:
  "m_state (s_gw ref_waiting) \<le> m_state (s_gw (ref_waiting\<lparr>s_thread := T_Lost []\<rparr>))"
  by (rule state_moves_forward[OF ref_host_ok ref_waiting_reachable ref_recv_step])

text \<open>C28: When the connection is closed, nothing that was received completely is lost: the receiving
  thread, about to search its data \<open>d\<close>, queues every complete message in it, schedules
  \<open>ForwardUp\<close> for each and \<open>Stop\<close> after all of them, and ends with the incomplete rest, which it
  drops.\<close>

theorem thread_drains_on_close:
  assumes "m_delimiterMessage (s_gw s) \<noteq> []" and "s_thread s = T_Find d"
    and "m_state (s_gw s) = CONNECTED"
  shows "let (ms, rest) = frames (m_delimiterMessage (s_gw s)) d;
             s' = thread_run S (4 * length ms + 3) s
    in s_thread s' = T_Done rest \<and> m_messageQueue (s_gw s') = m_messageQueue (s_gw s) @ ms \<and>
       s_world s' = schedule_as_gateway S (s_gw s) GatewayStop
         ((schedule_as_gateway S (s_gw s) GatewayForwardUp ^^ length ms) (s_world s))"
  using thread_run_drain[OF assms(1,2) refl assms(3)] by (simp add: split_beta Let_def)

theorem thread_drains_on_close_witness:
  "s_thread (thread_run ref_sim 7 (ref_start\<lparr>s_thread := T_Find (''1 0'' @ CRLF @ ''2'')\<rparr>)) = T_Done ''2'' \<and>
   m_messageQueue (s_gw (thread_run ref_sim 7 (ref_start\<lparr>s_thread := T_Find (''1 0'' @ CRLF @ ''2'')\<rparr>))) = [''1 0'']"
proof -
  let ?s = "ref_start\<lparr>s_thread := T_Find (''1 0'' @ CRLF @ ''2'')\<rparr>"
  have f: "frames CRLF (''1 0'' @ CRLF @ ''2'') = ([''1 0''], ''2'')" by code_simp
  have g: "m_delimiterMessage (s_gw ?s) = CRLF" "CRLF \<noteq> []" "s_thread ?s = T_Find (''1 0'' @ CRLF @ ''2'')"
    "m_state (s_gw ?s) = CONNECTED" "m_messageQueue (s_gw ?s) = []"
    by (simp_all add: ref_start_def ref_gateway_def CRLF_def)
  have "m_delimiterMessage (s_gw ?s) \<noteq> []" by (simp only: g(1,2)) simp
  from thread_drains_on_close[OF this g(3,4), of ref_sim] show ?thesis
    unfolding g(1) f g(5) by (simp add: Let_def)
qed

text \<open>Termination of the receiving thread: once the gateway is stopping, a thread that gets no more
  data ends within four steps, wherever it is, so \<open>Stop\<close> can join it.\<close>

theorem thread_ends_when_stopping:
  assumes "m_state (s_gw s) = STOPPING"
  shows "\<exists>d. s_thread (thread_run S 4 s) = T_Done d"
  by (rule thread_run_stopping[OF assms])

theorem thread_ends_when_stopping_witness:
  "\<exists>d. s_thread (thread_run ref_sim 4 (ref_waiting\<lparr>s_gw := ref_gateway\<lparr>m_state := STOPPING\<rparr>\<rparr>)) = T_Done d"
  by (rule thread_ends_when_stopping) simp



end
