(* ===== verification/Gateway_Functions.thy ===== *)
theory Gateway_Functions
  imports Gateway_Properties
begin

text \<open>
  The functional behaviour of the gateway's member functions on every branch, errors included:
  the protocol of a message, the pacing, the response, and the findings about delimiters and time
  stamps.
\<close>

section \<open>A gateway that received its first message\<close>

text \<open>The reference time is 10 s, the clock is at 0, and the event 1 is the wait event.\<close>

definition ref_running :: gateway where
  "ref_running = ref_gateway\<lparr>m_timeStart := Seconds 10\<rparr>"

lemma ref_connected_valid: "ref_valid ref_connected"
  by (simp add: ref_valid_def ref_connected_def ref_cal_def ref_init_def cal_ok_def cal_ids_def)

section \<open>Receiving a message\<close>

text \<open>A numeral does not contain a delimiter with a byte that is neither a digit nor a minus sign.\<close>

lemma to_string_int_no_delimiter:
  assumes "c \<in> set d" and "\<not> is_digit c" and "c \<noteq> CHR ''-''"
  shows "find_sub d (to_string_int n) = None"
proof (rule find_sub_None_if_char[OF assms(1)])
  show "c \<notin> set (to_string_int n)"
    using assms(2,3) to_string_digits by (auto simp: to_string_int_def)
qed

lemma message_time_numerals:
  assumes "in_int32 s" and "0 \<le> n" and "n < 2 ^ 32"
  shows "message_time (to_string_int s # to_string_int n # vs) = Inr (Seconds s + n)"
proof -
  have "in_int64 n" "in_int64 (Seconds s + n)"
    using assms by (auto simp: in_int64_def in_int32_def Seconds_def)
  with stoi_to_string_int[OF assms(1)] stol_to_string_int[of n] show ?thesis
    by (simp add: message_time_def NanoSeconds_def)
qed

text \<open>C17: A message that follows the protocol is read back exactly: \<open>ForwardUp\<close> takes the front of the
  queue, and with a field delimiter that has no border and cannot occur in a number, the header is
  the time stamp that the server wrote and the data are the values that it wrote, unchanged and in
  order. A negative time stamp stops the simulator; the first other one becomes the reference
  time and schedules \<open>DoInitialize\<close> now; a later one is a normal update.\<close>

theorem ForwardUp_reads_protocol:
  assumes "m_delimiterField g \<noteq> []" and "unbordered (m_delimiterField g)"
    and "c \<in> set (m_delimiterField g)" and "\<not> is_digit c" and "c \<noteq> CHR ''-''"
    and "\<forall>v \<in> set vs. find_sub (m_delimiterField g) v = None"
    and "in_int32 s" and "0 \<le> n" and "n < 2 ^ 32"
    and "m_messageQueue g = join (m_delimiterField g) (to_string_int s # to_string_int n # vs) # queue"
  shows "ForwardUp S (g, w) =
    (let T = Seconds s + n; g1 = g\<lparr>m_messageQueue := queue\<rparr> in
     if T < 0 then Inr (g1, sim_stop S w)
     else if m_timeStart g < 0
       then Inr (g1\<lparr>m_timeStart := T\<rparr>, snd (sim_schedule_now S (GatewayDoInitialize vs) w))
     else process_message S T vs (g1, w))"
proof -
  have "split_fields (m_delimiterField g)
      (join (m_delimiterField g) (to_string_int s # to_string_int n # vs)) =
    Some (to_string_int s # to_string_int n # vs)"
    by (rule split_fields_join[OF assms(1,2)])
      (use assms(6) to_string_int_no_delimiter[OF assms(3-5)] in auto)
  then show ?thesis
    unfolding ForwardUp_def
    by (simp add: assms(10) message_time_numerals[OF assms(7-9)] process_message_def Let_def split_beta)
qed

theorem ForwardUp_reads_protocol_witness:
  "ForwardUp ref_sim (ref_gateway\<lparr>m_messageQueue := [''10 0 a b'']\<rparr>, ref_connected) =
     Inr (ref_gateway\<lparr>m_messageQueue := [], m_timeStart := 10000000000\<rparr>,
          snd (sim_schedule_now ref_sim (GatewayDoInitialize [''a'', ''b'']) ref_connected))"
proof -
  have j: "join '' '' (to_string_int 10 # to_string_int 0 # [''a'', ''b'']) = ''10 0 a b''"
    by code_simp
  have "ForwardUp ref_sim (ref_gateway\<lparr>m_messageQueue := [''10 0 a b'']\<rparr>, ref_connected) =
    (let T = Seconds 10 + 0; g1 = ref_gateway\<lparr>m_messageQueue := [''10 0 a b'']\<rparr>\<lparr>m_messageQueue := []\<rparr> in
     if T < 0 then Inr (g1, sim_stop ref_sim ref_connected)
     else if m_timeStart (ref_gateway\<lparr>m_messageQueue := [''10 0 a b'']\<rparr>) < 0
       then Inr (g1\<lparr>m_timeStart := T\<rparr>,
         snd (sim_schedule_now ref_sim (GatewayDoInitialize [''a'', ''b'']) ref_connected))
     else process_message ref_sim T [''a'', ''b''] (g1, ref_connected))"
    by (rule ForwardUp_reads_protocol[where c = "CHR '' ''"])
      (simp_all add: ref_gateway_def unbordered_def is_digit_def in_int32_def find_sub_None_if_char
        j[simplified])
  then show ?thesis by (simp add: ref_gateway_def Seconds_def)
qed

text \<open>The header is checked: with a message at the front of the queue, \<open>ForwardUp\<close> ends in the
  fatal error for an invalid header exactly when the message has fewer than two fields, or
  \<open>stoi\<close> or \<open>stol\<close> throws on one of the first two.\<close>

theorem ForwardUp_header_errors:
  assumes "m_messageQueue g = message # queue" and "split_fields (m_delimiterField g) message = Some fs"
  shows "ForwardUp S (g, w) = Inl (Fatal ''received invalid message header'') \<longleftrightarrow>
    length fs < 2 \<or> (\<exists>e. stoi (fs ! 0) = Inl e) \<or> (\<exists>e. stol (fs ! 1) = Inl e)"
proof -
  have other: "process_message S t vs (g', w) \<noteq> Inl (Fatal ''received invalid message header'')" for t vs g'
    by (auto simp: process_message_def Let_def bind_res_eq_Inl time_checked_def split_beta split: if_splits)
  have len: "length fs < 2 \<longleftrightarrow> (\<forall>a b c. fs \<noteq> a # b # c)"
    by (cases fs; cases "tl fs") auto
  show ?thesis
  proof (cases "length fs < 2")
    case True
    then have "message_time fs = Inl (Fatal ''received invalid message header'')"
      by (auto simp: message_time_def len split: list.splits)
    with True assms show ?thesis by (simp add: ForwardUp_def)
  next
    case False
    then obtain a b c where fs: "fs = a # b # c" using len by blast
    show ?thesis
      using assms other
      by (auto simp: ForwardUp_def fs message_time_def bind_res_eq_Inl time_checked_def split: sum.splits)
  qed
qed

theorem ForwardUp_header_errors_witness:
  "ForwardUp ref_sim (ref_gateway\<lparr>m_messageQueue := [''10'']\<rparr>, ref_connected) =
     Inl (Fatal ''received invalid message header'')"
proof -
  let ?g = "ref_gateway\<lparr>m_messageQueue := [''10'']\<rparr>"
  have q: "m_messageQueue ?g = ''10'' # []" by simp
  have "split_fields (m_delimiterField ?g) ''10'' = Some [''10'']"
    by (simp add: split_fields_frames frames_None find_sub_None_if_char ref_gateway_def)
  from ForwardUp_header_errors[OF q this, of ref_sim ref_connected] show ?thesis by simp
qed

text \<open>C27: The loop that splits a message always ends, for every message and every non-empty field
  delimiter (the constructor refuses an empty one): the result is a non-empty list of fields that do
  not contain the delimiter, and joining them gives the message back.\<close>

theorem split_loop_terminates:
  assumes "D \<noteq> []"
  shows "\<exists>vs. split_fields D message = Some vs \<and> vs \<noteq> [] \<and> join D vs = message \<and>
    (\<forall>v \<in> set vs. find_sub D v = None)"
  using split_fields_frames[OF assms, of message] join_split_fields[OF assms] split_fields_free[OF assms]
  by auto

theorem split_loop_terminates_witness:
  "\<exists>vs. split_fields '';;'' ''a;;;b'' = Some vs \<and> vs \<noteq> [] \<and> join '';;'' vs = ''a;;;b'' \<and>
    (\<forall>v \<in> set vs. find_sub '';;'' v = None)"
  by (rule split_loop_terminates) simp

text \<open>C26: Pacing: a message in the normal phase moves \<open>m_timePause\<close> to its time stamp, relative to the
  first one, schedules \<open>HandleUpdate\<close> with its values for exactly this time, and ends the pause. A
  time stamp before the current time is a fatal error; one for the current time is accepted.\<close>

theorem update_at_time_stamp:
  assumes "gateway_platform S cal valid P" and "valid w"
    and "0 \<le> T" and "0 \<le> m_timeStart g"
    and "in_int64 (T - m_timeStart g)" and "in_int64 (T - m_timeStart g - sim_now S w)"
    and "\<forall>i. m_eventWait g = Some i \<longrightarrow> i \<in> cal_used (cal w)"
  shows "if T - m_timeStart g < sim_now S w
    then process_message S T vs (g, w) = Inl (Fatal ''received timestamps were not increasing values'')
    else \<exists>e w'. process_message S T vs (g, w) = Inr (g\<lparr>m_timePause := T - m_timeStart g\<rparr>, w') \<and>
      valid w' \<and> sim_now S w' = sim_now S w \<and>
      (e, T - m_timeStart g, GatewayHandleUpdate vs) \<in> set (cal_events (cal w')) \<and>
      \<not> is_pending S (m_eventWait g) w'"
  by (rule gateway_platform.process_message_normal[OF assms])

theorem update_at_time_stamp_witness:
  "\<exists>e w'. process_message ref_sim (Seconds 11) [''a''] (ref_running, ref_connected) =
      Inr (ref_running\<lparr>m_timePause := Seconds 1\<rparr>, w') \<and>
    (e, Seconds 1, GatewayHandleUpdate [''a'']) \<in> set (cal_events (ref_cal w'))"
  using update_at_time_stamp[OF ref_gw.gateway_platform_axioms ref_connected_valid, of "Seconds 11" ref_running "[''a'']"]
  by (auto simp: ref_running_def ref_gateway_def Seconds_def in_int64_def ref_eval ref_connected_def ref_cal_def)

section \<open>The pause\<close>

text \<open>The wait loop holds time: executing \<open>WaitForNextUpdate\<close> in a gateway that is not stopping
  leaves exactly its successor pending under \<open>m_eventWait\<close>, and whatever event is executed next, it
  is at the current time.\<close>

theorem wait_holds_time:
  assumes "gateway_platform S cal valid P" and "valid w" and "m_state g \<noteq> STOPPING"
    and "WaitForNextUpdate S (g, w) = (g', w')"
  shows "\<exists>e. m_eventWait g' = Some e \<and> sim_pending S e w' \<and> sim_now S w' = sim_now S w \<and>
    (\<forall>c w''. sim_next S w' = Some (c, w'') \<longrightarrow> sim_now S w'' = sim_now S w)"
  by (rule gateway_platform.WaitForNextUpdate_freezes[OF assms])

theorem wait_holds_time_witness:
  "\<exists>e. m_eventWait (fst (WaitForNextUpdate ref_sim (ref_running, ref_connected))) = Some e \<and>
     sim_pending ref_sim e (snd (WaitForNextUpdate ref_sim (ref_running, ref_connected)))"
proof -
  have "m_state ref_running \<noteq> STOPPING" by (simp add: ref_running_def ref_gateway_def)
  from wait_holds_time[OF ref_gw.gateway_platform_axioms ref_connected_valid this, of
      "fst (WaitForNextUpdate ref_sim (ref_running, ref_connected))"
      "snd (WaitForNextUpdate ref_sim (ref_running, ref_connected))"] show ?thesis by auto
qed

text \<open>\<open>HandleUpdate\<close> pauses exactly at the granted time: if the clock is at \<open>m_timePause\<close>, a new wait
  event is pending and the next event cannot move the clock when the derived class gets the
  data; otherwise the derived class gets the data with nothing else changed.\<close>

theorem HandleUpdate_pauses:
  assumes "gateway_platform S cal valid P" and "valid w"
  shows "if sim_now S w = m_timePause g
    then \<exists>e w1. HandleUpdate S du data (u, g, w) = du data (u, g\<lparr>m_eventWait := Some e\<rparr>, w1) \<and>
      valid w1 \<and> sim_pending S e w1 \<and> sim_now S w1 = sim_now S w \<and>
      (\<forall>c w'. sim_next S w1 = Some (c, w') \<longrightarrow> sim_now S w' = sim_now S w)
    else HandleUpdate S du data (u, g, w) = du data (u, g, w)"
proof (cases "sim_now S w = m_timePause g")
  case True
  obtain e w1 where s: "sim_schedule_now S GatewayWaitForNextUpdate w = (e, w1)" by fastforce
  from gateway_platform.schedule_wait[OF assms s] True s show ?thesis by (auto simp: HandleUpdate_def)
qed (simp add: HandleUpdate_def)

theorem HandleUpdate_pauses_witness:
  "\<exists>e w1. HandleUpdate ref_sim (\<lambda>data s. Inr s) [] ((), ref_running, ref_connected) =
     Inr ((), ref_running\<lparr>m_eventWait := Some e\<rparr>, w1) \<and> sim_pending ref_sim e w1"
proof -
  have "sim_now ref_sim ref_connected = m_timePause ref_running"
    by (simp add: ref_running_def ref_gateway_def ref_connected_def ref_eval)
  with HandleUpdate_pauses[OF ref_gw.gateway_platform_axioms ref_connected_valid,
      of ref_running "\<lambda>data s. Inr s" "[]" "()"] show ?thesis by auto
qed

section \<open>Connecting and stopping\<close>

text \<open>C30: \<open>Connect\<close> returns exactly when it is the first call and the socket calls succeed; every other
  case is a fatal error. When it returns, the gateway is connected, its thread runs, and a
  wait event is pending that holds the clock at the current time.\<close>

theorem Connect_result:
  assumes "gateway_platform S cal valid P" and "valid w"
    and "os_socket P w = (sock, w1)" and "os_connect P sock addr port w1 = (rc, w2)"
  shows "if m_state g = CREATED \<and> 0 \<le> sock \<and> 0 < os_pton P addr \<and> 0 \<le> rc
    then \<exists>g' w' e. Connect S P addr port (g, w) = Inr (g', w') \<and> m_state g' = CONNECTED \<and>
      m_thread g' \<and> m_socket g' = Some sock \<and> m_eventWait g' = Some e \<and> sim_pending S e w' \<and>
      (\<forall>c w''. sim_next S w' = Some (c, w'') \<longrightarrow> sim_now S w'' = sim_now S w)
    else \<exists>message. Connect S P addr port (g, w) = Inl (Fatal message)"
proof (cases "m_state g = CREATED \<and> 0 \<le> sock \<and> 0 < os_pton P addr \<and> 0 \<le> rc")
  case True
  note sim = gateway_platform.axioms(1)[OF assms(1)]
  from gateway_platform.os_socket[OF assms(1-3)] have v1: "valid w1" and c1: "cal w1 = cal w" by blast+
  from gateway_platform.os_connect[OF assms(1) v1 assms(4)] have v2: "valid w2" and c2: "cal w2 = cal w"
    using c1 by auto
  obtain ed w3 where d: "sim_schedule_destroy S GatewayStop w2 = (ed, w3)" by fastforce
  from event_simulator.schedule_destroy[OF sim v2 d] have v3: "valid w3"
    and c3: "cal w3 = cal_schedule_destroy ed GatewayStop (cal w2)" by blast+
  obtain ew w4 where s: "sim_schedule_now S GatewayWaitForNextUpdate w3 = (ew, w4)" by fastforce
  have "sim_now S w3 = sim_now S w"
    by (simp add: event_simulator.now[OF sim v3] event_simulator.now[OF sim assms(2)] c3 c2
        cal_schedule_destroy_def)
  with gateway_platform.schedule_wait[OF assms(1) v3 s] True assms(3,4) d s show ?thesis
    by (simp add: Connect_def)
next
  case False
  then show ?thesis using assms(3,4) by (auto simp: Connect_def Let_def)
qed

theorem Connect_result_witness:
  "\<exists>message. Connect ref_sim ref_os ''127.0.0.1'' 8000 (ref_running, ref_connected) = Inl (Fatal message)"
  using Connect_result[OF ref_gw.gateway_platform_axioms ref_connected_valid, of 3 ref_connected
      "''127.0.0.1''" 8000 0 ref_connected ref_running]
  by (simp add: ref_os_simps ref_running_def ref_gateway_def)

text \<open>\<open>Stop\<close> cleans up: afterwards the gateway is stopping, neither of its two events is pending, so
  the clock is free again and nothing is left for the end of the simulation, and a second
  call changes nothing.\<close>

theorem Stop_cleans_up:
  assumes "gateway_platform S cal valid P" and "valid w" and "Gateway_Stop S P (g, w) = (g', w')"
  shows "m_state g' = STOPPING \<and> valid w' \<and>
    \<not> is_pending S (m_eventWait g') w' \<and> \<not> is_pending S (m_eventDestroy g') w' \<and>
    Gateway_Stop S P (g', w') = (g', w')"
  by (rule gateway_platform.Gateway_Stop_ok[OF assms])

theorem Stop_cleans_up_witness:
  "\<not> is_pending ref_sim (Some 1) (snd (Gateway_Stop ref_sim ref_os (ref_running, ref_connected)))"
proof -
  let ?r = "Gateway_Stop ref_sim ref_os (ref_running, ref_connected)"
  have "Gateway_Stop ref_sim ref_os (ref_running, ref_connected) = (fst ?r, snd ?r)" by simp
  note s = Stop_cleans_up[OF ref_gw.gateway_platform_axioms ref_connected_valid this]
  have "m_eventWait (fst ?r) = Some 1"
    by (simp add: Gateway_Stop_def Stop_signal_def ref_running_def ref_gateway_def)
  with s show ?thesis by simp
qed

section \<open>The response\<close>

text \<open>The response values contain neither delimiter.\<close>

definition data_ok :: "gateway \<Rightarrow> bool" where
  "data_ok g \<longleftrightarrow>
     (\<forall>v \<in> set (m_data g).
        find_sub (m_delimiterField g) v = None \<and> find_sub (m_delimiterMessage g) v = None)"

text \<open>The constructor refuses an empty delimiter and a message delimiter inside the field delimiter,
  and otherwise makes a gateway with the given delimiters, as many empty values as asked for, no
  reference time and nothing queued; its values contain no delimiter.\<close>

theorem Gateway_new_result:
  "if df = [] \<or> dm = [] \<or> sublist dm df
   then \<exists>message. Gateway_new S n df dm w = Inl (Fatal message)
   else \<exists>g. Gateway_new S n df dm w = Inr g \<and> m_state g = CREATED \<and>
     m_delimiterField g = df \<and> m_delimiterMessage g = dm \<and>
     m_data g = replicate (unat n) [] \<and> data_ok g \<and>
     m_timeStart g < 0 \<and> m_messageQueue g = [] \<and> m_messageBuffer g = [] \<and>
     m_eventWait g = None \<and> m_eventDestroy g = None"
proof -
  have s: "find_sub dm df = None \<longleftrightarrow> \<not> sublist dm df" by (rule find_sub_None_iff_sublist)
  show ?thesis
  proof (cases "df = [] \<or> dm = [] \<or> sublist dm df")
    case True
    with s show ?thesis by (auto simp: Gateway_new_def)
  next
    case False
    with s show ?thesis by (simp add: Gateway_new_def data_ok_def Seconds_def)
  qed
qed

text \<open>\<open>SetValue\<close> stores a value or fails: it returns exactly for an index in range and a value
  without the delimiters; then that value is replaced, every other one and the rest of the gateway
  are kept, and the values still contain no delimiter.\<close>

theorem SetValue_result:
  assumes "data_ok g"
  shows "if unat i < length (m_data g) \<and> \<not> sublist (m_delimiterField g) v \<and>
      \<not> sublist (m_delimiterMessage g) v
    then \<exists>g'. SetValue i v g = Inr g' \<and> data_ok g' \<and> length (m_data g') = length (m_data g) \<and>
      m_data g' ! unat i = v \<and> (\<forall>j < length (m_data g). j \<noteq> unat i \<longrightarrow> m_data g' ! j = m_data g ! j) \<and>
      g'\<lparr>m_data := m_data g\<rparr> = g
    else \<exists>message. SetValue i v g = Inl (Fatal message)"
proof -
  note s = find_sub_None_iff_sublist[of "m_delimiterField g" v] find_sub_None_iff_sublist[of "m_delimiterMessage g" v]
  show ?thesis
  proof (cases "unat i < length (m_data g) \<and> \<not> sublist (m_delimiterField g) v \<and>
      \<not> sublist (m_delimiterMessage g) v")
    case True
    let ?g = "g\<lparr>m_data := (m_data g)[unat i := v]\<rparr>"
    have "SetValue i v g = Inr ?g" using True s by (simp add: SetValue_def)
    moreover have "data_ok ?g"
      using assms True s set_update_subset_insert[of "m_data g" "unat i" v]
      by (auto simp: data_ok_def)
    ultimately show ?thesis using True by simp
  next
    case False
    with s show ?thesis by (auto simp: SetValue_def)
  qed
qed

theorem SetValue_result_witness:
  "\<exists>g'. SetValue 0 ''7'' (ref_gateway\<lparr>m_data := [''a'', ''b'']\<rparr>) = Inr g' \<and> m_data g' ! 0 = ''7'' \<and>
     m_data g' ! 1 = ''b''"
proof -
  have "data_ok (ref_gateway\<lparr>m_data := [''a'', ''b'']\<rparr>)"
    by (simp add: data_ok_def ref_gateway_def CRLF_def)
  from SetValue_result[OF this, of 0 "''7''"] show ?thesis
    by (auto simp: ref_gateway_def CRLF_def simp flip: find_sub_None_iff_sublist)
qed

text \<open>C19: The response can be read back: for delimiters without a border and without a common
  character, \<open>SendResponse\<close> sends exactly one message, and splitting the message at the field
  delimiter gives the values that were set, all of them, in order.\<close>

theorem response_reads_back:
  assumes "m_state g = CONNECTED" and "m_socket g = Some sock"
    and "data_ok g" and "m_data g \<noteq> []"
    and "m_delimiterField g \<noteq> []" and "unbordered (m_delimiterField g)"
    and "m_delimiterMessage g \<noteq> []" and "unbordered (m_delimiterMessage g)"
    and "set (m_delimiterField g) \<inter> set (m_delimiterMessage g) = {}"
  shows "\<exists>message body. SendResponse P (g, w) = Inr (g, snd (os_send P sock message w)) \<and>
    frames (m_delimiterMessage g) message = ([body], []) \<and>
    split_fields (m_delimiterField g) body = Some (m_data g)"
proof -
  let ?D = "m_delimiterField g" and ?M = "m_delimiterMessage g"
  have free: "\<forall>v \<in> set (m_data g). find_sub ?D v = None" "\<forall>v \<in> set (m_data g). find_sub ?M v = None"
    using assms(3) by (simp_all add: data_ok_def)
  have "find_sub ?M (join ?D (m_data g)) = None"
    by (rule find_sub_join_None[OF assms(7,5,9) free(2)])
  from find_sub_at_delimiter[OF this assms(8), of "[]"]
  have "frames ?M (join ?D (m_data g) @ ?M @ []) = ([join ?D (m_data g)], [])"
    using frames_message[OF assms(7), of "join ?D (m_data g)" "[]"] assms(7) by (simp add: frames_None)
  moreover have "split_fields ?D (join ?D (m_data g)) = Some (m_data g)"
    by (rule split_fields_join[OF assms(5,6,4) free(1)])
  ultimately show ?thesis
    using assms(1,2) by (auto simp: SendResponse_def response_message_eq split_beta)
qed

theorem response_reads_back_witness:
  "\<exists>message body. SendResponse ref_os (ref_gateway\<lparr>m_data := [''3'', [], ''5'']\<rparr>, ref_connected) =
      Inr (ref_gateway\<lparr>m_data := [''3'', [], ''5'']\<rparr>, snd (os_send ref_os 3 message ref_connected)) \<and>
    frames CRLF message = ([body], []) \<and> split_fields '' '' body = Some [''3'', [], ''5'']"
  using response_reads_back[of "ref_gateway\<lparr>m_data := [''3'', [], ''5'']\<rparr>" 3 ref_os ref_connected]
  by (simp add: ref_gateway_def CRLF_def data_ok_def unbordered_def)

text \<open>The delimiters have to be chosen with care: the constructor accepts the field delimiter
  \<open>;;\<close>, and \<open>SetValue\<close> accepts the value \<open>a;\<close>, which does not contain it; but the
  response is then split differently from what was set, since the value runs into the delimiter.\<close>

theorem bordered_delimiter_is_ambiguous:
  "\<exists>g0 g1 g2. Gateway_new S 2 '';;'' CRLF w = Inr g0 \<and>
     SetValue 0 ''a;'' g0 = Inr g1 \<and> SetValue 1 ''b'' g1 = Inr g2 \<and>
     response_message (m_delimiterField g2) (m_delimiterMessage g2) (m_data g2) = ''a;;;b'' @ CRLF \<and>
     split_fields (m_delimiterField g2) ''a;;;b'' = Some [''a'', '';b''] \<and>
     m_data g2 = [''a;'', ''b'']"
proof -
  have "split_fields '';;'' ''a;;;b'' = Some [''a'', '';b'']"
    by (simp add: split_fields_def split_loop.simps)
  moreover have "replicate 2 ([] :: string) = [[], []]" by (simp add: numeral_2_eq_2)
  ultimately show ?thesis
    by (simp add: Gateway_new_def SetValue_def CRLF_def response_message_def)
qed

end
