(* ===== verification/Gateway_Scenarios.thy ===== *)
theory Gateway_Scenarios
  imports Gateway_Functions
begin

text \<open>
  Runs of the gateway of \<open>examples/simple-gateway.cc\<close>, with no vehicle, on the reference platform:
  what the documentation describes, and where the code differs from it.
\<close>

declare Gateway_new_def [ref_eval] Connect_def [ref_eval] SetValue_def [ref_eval]
  SendResponse_def [ref_eval] Stop_signal_def [ref_eval] Stop_finish_def [ref_eval]
  WaitForNextUpdate_def [ref_eval] ForwardUp_def [ref_eval] process_message_def [ref_eval]
  HandleUpdate_def [ref_eval] dispatch_def [ref_eval] thread_step_def [ref_eval]
  main_stop_def [ref_eval] main_join_def [ref_eval] main_event_def [ref_eval] gw_exec_def [ref_eval]
  main_alive_def [ref_eval] recv_ok_def [ref_eval] BUFFER_SIZE_def [ref_eval]
  simple_host_def [ref_eval] DoInitialize_def [ref_eval] DoUpdate_def [ref_eval]
  response_message_def [ref_eval] ref_start_def [ref_eval] ref_gateway_def [ref_eval]
  ref_connected_def [ref_eval] ref_user0_def [ref_eval] CRLF_def [ref_eval]
  time_checked_def [ref_eval] in_int64_def [ref_eval]

text \<open>The messages of the runs.\<close>

lemma scenario_fields [ref_eval]:
  "split_fields '' '' ''10 0'' = Some [''10'', ''0'']"
  "split_fields '' '' ''11 0'' = Some [''11'', ''0'']"
  "split_fields '' '' ''12 0'' = Some [''12'', ''0'']"
  "split_fields '' '' ''-1 0'' = Some [''-1'', ''0'']"
  by (simp_all add: split_fields_def split_loop.simps)

lemma scenario_times [ref_eval]:
  "message_time [''10'', ''0''] = Inr (Seconds 10)"
  "message_time [''11'', ''0''] = Inr (Seconds 11)"
  "message_time [''12'', ''0''] = Inr (Seconds 12)"
  "message_time [''-1'', ''0''] = Inr (Seconds (-1))"
  by code_simp+

text \<open>The thread starts and waits in \<open>recv\<close>; one turn of its loop for a complete message.\<close>

abbreviation (input) thread_starts :: "gw_label list" where
  "thread_starts \<equiv> [L_Thread, L_Thread]"

abbreviation (input) thread_message :: "gw_label list" where
  "thread_message \<equiv> [L_Thread, L_Thread, L_Thread, L_Thread]"

section \<open>A co-simulation\<close>

text \<open>
  The server sends the reference time 10 s in two chunks and, with its second chunk, the time 12 s;
  then the message that ends the simulation, and it closes the connection.
\<close>

definition cosimulation_labels :: "gw_label list" where
  "cosimulation_labels =
     thread_starts @ [L_Recv (Received ''10 ''), L_Thread, L_Recv (Received (''0'' @ CRLF @ ''12 0'' @ CRLF))] @
     thread_message @ thread_message @ [L_Thread] @
     [L_Event, L_Event, L_Event, L_Event, L_Event] @
     [L_Recv (Received (''-1 0'' @ CRLF))] @ thread_message @ [L_Thread] @
     [L_Event, L_Event, L_End, L_Event, L_Recv Closed, L_Thread, L_Join]"

text \<open>A whole co-simulation: the receiving thread reassembles the messages from the chunks, the
  gateway answers each of the two time-stamped messages, simulation time ends at the 2 s between
  the first time stamp and the second, the terminate message stops the simulator, and the
  destruction of the simulation joins the thread and closes the socket.\<close>

theorem cosimulation_run:
  "\<exists>s. gw_reachable ref_sim ref_cal ref_ok ref_os ref_host ref_start s \<and>
     s_main s = Main_Destroy \<and> s_thread s = T_Done [] \<and>
     m_state (s_gw s) = STOPPING \<and> \<not> m_thread (s_gw s) \<and> rw_closed (s_world s) \<and>
     sim_now ref_sim (s_world s) = Seconds 2 \<and>
     s_forwarded s = [''10 0'', ''12 0'', ''-1 0''] \<and> rw_sent (s_world s) = [CRLF, CRLF]"
proof -
  have "\<exists>s. gw_execs ref_sim ref_os ref_host cosimulation_labels ref_start = Some s \<and>
     s_main s = Main_Destroy \<and> s_thread s = T_Done [] \<and>
     m_state (s_gw s) = STOPPING \<and> \<not> m_thread (s_gw s) \<and> rw_closed (s_world s) \<and>
     sim_now ref_sim (s_world s) = Seconds 2 \<and>
     s_forwarded s = [''10 0'', ''12 0'', ''-1 0''] \<and> rw_sent (s_world s) = [CRLF, CRLF]"
    by (simp add: ref_eval cosimulation_labels_def)
  with gw_execs_reachable[OF ref_start_reachable] show ?thesis by blast
qed

section \<open>Where the code differs from the documentation\<close>

text \<open>The example of the section on time management in the README, with \<open>Connect\<close> called at the
  simulation time of 5 s, a first time stamp of 10 s and a second one of 11 s, does not advance the
  clock to 6 s: the pause time is computed as 1 s, before the current time, and the program ends
  in a fatal error.\<close>

theorem readme_time_example_fails:
  assumes "gateway_platform S cal valid P" and "valid w"
    and "sim_now S w = Seconds 5" and "m_timeStart g = Seconds 10"
    and "\<forall>i. m_eventWait g = Some i \<longrightarrow> i \<in> cal_used (cal w)"
  shows "process_message S (Seconds 11) vs (g, w) =
    Inl (Fatal ''received timestamps were not increasing values'')"
proof -
  have t: "0 \<le> Seconds 11" "0 \<le> m_timeStart g" "in_int64 (Seconds 11 - m_timeStart g)"
    "in_int64 (Seconds 11 - m_timeStart g - sim_now S w)"
    using assms(3,4) by (simp_all add: Seconds_def in_int64_def)
  from gateway_platform.process_message_normal[OF assms(1,2) t assms(5), of vs] show ?thesis
    using assms(3,4) by (simp add: Seconds_def)
qed

theorem readme_time_example_fails_witness:
  "process_message ref_sim (Seconds 11) [''a''] (ref_running, ref_connected\<lparr>rw_now := Seconds 5,
     rw_events := [(1, Seconds 5, GatewayWaitForNextUpdate)]\<rparr>) =
     Inl (Fatal ''received timestamps were not increasing values'')"
  by (rule readme_time_example_fails[OF ref_gw.gateway_platform_axioms])
    (simp_all add: ref_running_def ref_gateway_def ref_connected_def ref_valid_def ref_cal_def
      ref_init_def cal_ok_def cal_ids_def ref_sim_simps)

text \<open>C31: The time stamps need not increase, as the documentation asks, when the messages arrive close
  together: a second message with an earlier time stamp than the first is accepted as long as
  the clock has not passed it, both updates are pending, and \<open>m_timePause\<close> goes back.\<close>

theorem decreasing_time_stamps_accepted:
  assumes "gateway_platform S cal valid P" and "valid w"
    and "0 \<le> m_timeStart g" and "m_timeStart g + sim_now S w \<le> T2" and "T2 < T1" and "T1 < 2 ^ 63"
    and "0 \<le> sim_now S w" and "\<forall>i. m_eventWait g = Some i \<longrightarrow> i \<in> cal_used (cal w)"
  shows "\<exists>g1 w1 g2 w2 e1 e2.
    process_message S T1 vs1 (g, w) = Inr (g1, w1) \<and> m_timePause g1 = T1 - m_timeStart g \<and>
    process_message S T2 vs2 (g1, w1) = Inr (g2, w2) \<and> m_timePause g2 = T2 - m_timeStart g \<and>
    m_timePause g2 < m_timePause g1 \<and>
    (e1, T1 - m_timeStart g, GatewayHandleUpdate vs1) \<in> set (cal_events (cal w1)) \<and>
    (e2, T2 - m_timeStart g, GatewayHandleUpdate vs2) \<in> set (cal_events (cal w2))"
proof -
  have r1: "0 \<le> T1" "in_int64 (T1 - m_timeStart g)" "in_int64 (T1 - m_timeStart g - sim_now S w)"
    and r2: "0 \<le> T2" "in_int64 (T2 - m_timeStart g)" "in_int64 (T2 - m_timeStart g - sim_now S w)"
    using assms(3-7) by (simp_all add: in_int64_def)
  from gateway_platform.process_message_normal[OF assms(1,2) r1(1) assms(3) r1(2,3) assms(8), of vs1] assms(4,5)
  obtain e1 w1 where p1: "process_message S T1 vs1 (g, w) = Inr (g\<lparr>m_timePause := T1 - m_timeStart g\<rparr>, w1)"
    and v1: "valid w1" and n1: "sim_now S w1 = sim_now S w"
    and e1: "(e1, T1 - m_timeStart g, GatewayHandleUpdate vs1) \<in> set (cal_events (cal w1))"
    by auto
  let ?g = "g\<lparr>m_timePause := T1 - m_timeStart g\<rparr>"
  have used: "\<forall>i. m_eventWait ?g = Some i \<longrightarrow> i \<in> cal_used (cal w1)"
    using gateway_platform.process_message_used[OF assms(1,2) p1] assms(8) by auto
  have "0 \<le> m_timeStart ?g" "in_int64 (T2 - m_timeStart ?g)" "in_int64 (T2 - m_timeStart ?g - sim_now S w1)"
    using assms(3) r2 n1 by simp_all
  from gateway_platform.process_message_normal[OF assms(1) v1 r2(1) this used, of vs2] assms(4) n1
  obtain e2 w2 where "process_message S T2 vs2 (?g, w1) = Inr (?g\<lparr>m_timePause := T2 - m_timeStart g\<rparr>, w2)"
    and "(e2, T2 - m_timeStart g, GatewayHandleUpdate vs2) \<in> set (cal_events (cal w2))"
    by auto
  with p1 e1 assms(5) show ?thesis by fastforce
qed

theorem decreasing_time_stamps_accepted_witness:
  "\<exists>g1 w1 g2 w2. process_message ref_sim (Seconds 12) [''a''] (ref_running, ref_connected) = Inr (g1, w1) \<and>
     process_message ref_sim (Seconds 11) [''b''] (g1, w1) = Inr (g2, w2) \<and> m_timePause g2 < m_timePause g1"
proof -
  have "0 \<le> m_timeStart ref_running" "m_timeStart ref_running + sim_now ref_sim ref_connected \<le> Seconds 11"
    "Seconds 11 < Seconds 12" "Seconds 12 < 2 ^ 63" "0 \<le> sim_now ref_sim ref_connected"
    "\<forall>i. m_eventWait ref_running = Some i \<longrightarrow> i \<in> cal_used (ref_cal ref_connected)"
    by (simp_all add: ref_running_def ref_eval ref_cal_def)
  from decreasing_time_stamps_accepted[OF ref_gw.gateway_platform_axioms ref_connected_valid this,
      of "[''a'']" "[''b'']"] show ?thesis by blast
qed

text \<open>C39: A server that closes the connection right after a message ends the simulation in an error:
  the pending \<open>DoInitialize\<close> or \<open>HandleUpdate\<close> is not cancelled by \<open>Stop\<close>, and the derived class
  of the example then calls \<open>SendResponse\<close> on the stopped gateway, a fatal error.\<close>

theorem close_with_pending_update_is_fatal:
  "\<exists>s. gw_reachable ref_sim ref_cal ref_ok ref_os ref_host ref_start s \<and>
     s_received s = ''10 0'' @ CRLF @ ''11 0'' @ CRLF \<and>
     s_main s = Main_Failed (Fatal ''Gateway::SendResponse called without an active connection'')"
proof -
  have "\<exists>s. gw_execs ref_sim ref_os ref_host
      (thread_starts @ [L_Recv (Received (''10 0'' @ CRLF @ ''11 0'' @ CRLF))] @
       thread_message @ thread_message @ [L_Thread, L_Recv Closed, L_Thread] @
       [L_Event, L_Event, L_Event, L_Event, L_Join, L_Event]) ref_start = Some s \<and>
     s_received s = ''10 0'' @ CRLF @ ''11 0'' @ CRLF \<and>
     s_main s = Main_Failed (Fatal ''Gateway::SendResponse called without an active connection'')"
    by (simp add: ref_eval)
  with gw_execs_reachable[OF ref_start_reachable] show ?thesis by blast
qed

end
