(* ===== verification/External_Mobility_Example.thy ===== *)
theory External_Mobility_Example
  imports External_Mobility Platform
begin

text \<open>
  The program \<open>examples/external-mobility-example.cc\<close>: a function that moves all nodes of a
  group and schedules itself again, over the mobility models of the nodes.
\<close>

text \<open>The events of the program: a call of \<open>UpdateMobility\<close>, and the end of the simulation.\<close>

datatype 'v mobility_event =
    Update_mobility "nat list" 'v 'v time
  | Stop_simulation

text \<open>
  The mobility models of the nodes, by node number (a number beyond the list is a node without a
  model, for which \<open>GetObject\<close> gives a null pointer), and what \<open>ReportMobility\<close> has logged: time, node, position and velocity.
\<close>

record 'v scene =
  sc_models :: "'v mobility list"
  sc_reports :: "(time \<times> nat \<times> 'v \<times> 'v) list"

text \<open>The body of the loop in \<open>UpdateMobility\<close>.\<close>

definition update_node ::
    "'v vector_ops \<Rightarrow> time \<Rightarrow> 'v \<Rightarrow> 'v \<Rightarrow> nat \<Rightarrow> 'v scene \<Rightarrow> 'v scene res" where
  "update_node V now positionDelta velocityDelta n sc =
     (if length (sc_models sc) \<le> n then Inl Undefined
      else
        (let m = sc_models sc ! n;
             m1 = DoSetPosition V (v_plus V (DoGetPosition m) positionDelta) m;
             (m2, reports) = SetVelocity V (ReportMobility now n)
               (v_plus V (DoGetVelocity m1) velocityDelta) (m1, sc_reports sc)
         in Inr (sc\<lparr>sc_models := (sc_models sc)[n := m2], sc_reports := reports\<rparr>)))"

fun update_nodes ::
    "'v vector_ops \<Rightarrow> time \<Rightarrow> 'v \<Rightarrow> 'v \<Rightarrow> nat list \<Rightarrow> 'v scene \<Rightarrow> 'v scene res" where
  "update_nodes V now dp dv [] sc = Inr sc"
| "update_nodes V now dp dv (n # ns) sc =
     bind_res (update_node V now dp dv n sc) (update_nodes V now dp dv ns)"

definition UpdateMobility ::
    "('v mobility_event callback, 'w) sim_ops \<Rightarrow> 'v vector_ops \<Rightarrow> nat list \<Rightarrow> 'v \<Rightarrow> 'v \<Rightarrow> time \<Rightarrow>
     'v scene \<times> 'w \<Rightarrow> ('v scene \<times> 'w) res" where
  "UpdateMobility S V nodes positionDelta velocityDelta timeDelta = (\<lambda>(sc, w).
     bind_res (update_nodes V (sim_now S w) positionDelta velocityDelta nodes sc) (\<lambda>sc'.
       Inr (sc', snd (sim_schedule S timeDelta
         (UserEvent (Update_mobility nodes positionDelta velocityDelta timeDelta)) w))))"

fun mobility_loop ::
    "('v mobility_event callback, 'w) sim_ops \<Rightarrow> 'v vector_ops \<Rightarrow> nat \<Rightarrow>
     'v scene \<times> 'w \<Rightarrow> ('v scene \<times> 'w) res" where
  "mobility_loop S V 0 s = Inr s"
| "mobility_loop S V (Suc fuel) (sc, w) =
     (case sim_next S w of
        None \<Rightarrow> Inr (sc, w)
      | Some (c, w') \<Rightarrow>
          (case c of
             UserEvent (Update_mobility ns dp dv dt) \<Rightarrow>
               bind_res (UpdateMobility S V ns dp dv dt (sc, w')) (mobility_loop S V fuel)
           | UserEvent Stop_simulation \<Rightarrow> mobility_loop S V fuel (sc, sim_stop S w')
           | _ \<Rightarrow> mobility_loop S V fuel (sc, w')))"

text \<open>\<open>main\<close>: node 0 is the group A, node 1 the group B.\<close>

definition mobility_start :: "'v vector_ops \<Rightarrow> 'v scene" where
  "mobility_start V =
     \<lparr>sc_models = replicate 2 (DoSetPosition V (v_make V 0 0 0) (ExternalMobilityModel_new V)),
      sc_reports = []\<rparr>"

definition mobility_schedule :: "'v vector_ops \<Rightarrow> (time \<times> 'v mobility_event callback) list" where
  "mobility_schedule V =
     [(Seconds 2, UserEvent (Update_mobility [0] (v_make V 1 0 0) (v_make V 1 0 0) (Seconds 2))),
      (Seconds 1, UserEvent (Update_mobility [1] (v_make V 0 0 1) (v_make V 0 0 1) (Seconds 1))),
      (Seconds 10, UserEvent Stop_simulation)]"

definition mobility_run ::
    "('v mobility_event callback, 'w) sim_ops \<Rightarrow> 'v vector_ops \<Rightarrow> nat \<Rightarrow> 'w \<Rightarrow> ('v scene \<times> 'w) res" where
  "mobility_run S V fuel w =
     mobility_loop S V fuel
       (mobility_start V, fold (\<lambda>(t, c) w. snd (sim_schedule S t c w)) (mobility_schedule V) w)"

section \<open>Lemmas\<close>

text \<open>For vectors that \<open>!=\<close> compares exactly, setting a value makes it the value.\<close>

lemma DoSetPosition_exact: "v_neq V = (\<noteq>) \<Longrightarrow> DoSetPosition V p m = m\<lparr>m_position := p\<rparr>"
  by (simp add: DoSetPosition_def)

lemma SetVelocity_exact:
  "v_neq V = (\<noteq>) \<Longrightarrow> SetVelocity V notify v (m, w) =
     (m\<lparr>m_velocity := v\<rparr>, if v = m_velocity m then w else notify (m\<lparr>m_velocity := v\<rparr>) w)"
  by (simp add: SetVelocity_def Let_def)

text \<open>One update of a node, for vectors that \<open>!=\<close> compares exactly.\<close>

definition moved :: "'v vector_ops \<Rightarrow> 'v \<Rightarrow> 'v \<Rightarrow> 'v mobility \<Rightarrow> 'v mobility" where
  "moved V dp dv m =
     m\<lparr>m_position := v_plus V (m_position m) dp, m_velocity := v_plus V (m_velocity m) dv\<rparr>"

lemma update_node_Inr:
  assumes "v_neq V = (\<noteq>)" and "n < length (sc_models sc)"
  shows "update_node V now dp dv n sc =
    (let m' = moved V dp dv (sc_models sc ! n)
     in Inr (sc\<lparr>sc_models := (sc_models sc)[n := m'],
          sc_reports := sc_reports sc @
            (if m_velocity m' = m_velocity (sc_models sc ! n) then []
             else [(now, n, m_position m', m_velocity m')])\<rparr>))"
  using assms
  by (simp add: update_node_def moved_def SetVelocity_exact DoSetPosition_exact Let_def
      ReportMobility_def DoGetPosition_def DoGetVelocity_def)

lemma update_nodes_Inr:
  assumes "v_neq V = (\<noteq>)" and "\<forall>n \<in> set ns. n < length (sc_models sc)" and "distinct ns"
    and "\<forall>v. v_plus V v dv \<noteq> v"
  shows "\<exists>sc'. update_nodes V now dp dv ns sc = Inr sc' \<and>
    length (sc_models sc') = length (sc_models sc) \<and>
    (\<forall>n < length (sc_models sc). sc_models sc' ! n =
       (if n \<in> set ns then moved V dp dv (sc_models sc ! n) else sc_models sc ! n)) \<and>
    sc_reports sc' = sc_reports sc @
      map (\<lambda>n. (now, n, m_position (sc_models sc' ! n), m_velocity (sc_models sc' ! n))) ns"
  using assms(2,3)
proof (induction ns arbitrary: sc)
  case (Cons n ns)
  let ?m = "moved V dp dv (sc_models sc ! n)"
  let ?sc = "sc\<lparr>sc_models := (sc_models sc)[n := ?m],
    sc_reports := sc_reports sc @ [(now, n, m_position ?m, m_velocity ?m)]\<rparr>"
  have n: "n < length (sc_models sc)" using Cons.prems(1) by simp
  have "m_velocity ?m \<noteq> m_velocity (sc_models sc ! n)" using assms(4) by (simp add: moved_def)
  then have u: "update_node V now dp dv n sc = Inr ?sc"
    by (simp add: update_node_Inr[OF assms(1) n] Let_def)
  from Cons.IH[of ?sc] Cons.prems obtain sc' where
    sc': "update_nodes V now dp dv ns ?sc = Inr sc'" "length (sc_models sc') = length (sc_models ?sc)"
    "\<forall>i < length (sc_models ?sc). sc_models sc' ! i =
       (if i \<in> set ns then moved V dp dv (sc_models ?sc ! i) else sc_models ?sc ! i)"
    "sc_reports sc' = sc_reports ?sc @
      map (\<lambda>n. (now, n, m_position (sc_models sc' ! n), m_velocity (sc_models sc' ! n))) ns"
    by auto
  have "sc_models sc' ! n = ?m" using sc'(3) n Cons.prems(2) by simp
  moreover have "sc_models sc' ! i =
      (if i \<in> set (n # ns) then moved V dp dv (sc_models sc ! i) else sc_models sc ! i)"
    if "i < length (sc_models sc)" for i
    using sc'(3) that Cons.prems(2) n by (cases "i = n") auto
  ultimately show ?case using u sc'(1,2,4) by auto
qed simp

declare update_node_def [ref_eval] UpdateMobility_def [ref_eval] mobility_start_def [ref_eval]
  mobility_schedule_def [ref_eval] mobility_run_def [ref_eval] ReportMobility_def [ref_eval]
  SetVelocity_def [ref_eval] DoSetPosition_def [ref_eval] DoGetPosition_def [ref_eval]
  DoGetVelocity_def [ref_eval] ExternalMobilityModel_new_def [ref_eval] int_vectors_def [ref_eval]

lemma mobility_loop_numeral [ref_eval]:
  "mobility_loop S V (numeral k) (sc, w) =
     (case sim_next S w of
        None \<Rightarrow> Inr (sc, w)
      | Some (c, w') \<Rightarrow>
          (case c of
             UserEvent (Update_mobility ns dp dv dt) \<Rightarrow>
               bind_res (UpdateMobility S V ns dp dv dt (sc, w')) (mobility_loop S V (pred_numeral k))
           | UserEvent Stop_simulation \<Rightarrow> mobility_loop S V (pred_numeral k) (sc, sim_stop S w')
           | _ \<Rightarrow> mobility_loop S V (pred_numeral k) (sc, w')))"
  by (simp add: numeral_eq_Suc)

text \<open>What the example logs.\<close>

definition mobility_reports :: "('v scene \<times> 'w) res \<Rightarrow> (time \<times> nat \<times> 'v \<times> 'v) list" where
  "mobility_reports r = (case r of Inl _ \<Rightarrow> [] | Inr (sc, w) \<Rightarrow> sc_reports sc)"

end
