(* ===== verification/Simple_Cosim.thy ===== *)
theory Simple_Cosim
  imports Simple_Gateway Simple_Server External_Mobility_Example
begin

text \<open>
  The example's gateway and server together: what \<open>DoUpdate\<close> does with well-formed data, and
  what a message of the server becomes in the gateway.
\<close>

section \<open>DoUpdate on well-formed data\<close>

text \<open>\<open>z j\<close> is the number in the element \<open>j\<close> of the data.\<close>

definition numbers :: "string list \<Rightarrow> nat \<Rightarrow> (nat \<Rightarrow> int) \<Rightarrow> bool" where
  "numbers data n z \<longleftrightarrow> n \<le> length data \<and> (\<forall>j < n. stoi (data ! j) = Inr (z j))"

definition vehicle_target :: "'v vector_ops \<Rightarrow> (nat \<Rightarrow> int) \<Rightarrow> nat \<Rightarrow> 'v mobility" where
  "vehicle_target V z i =
     \<lparr>m_position = v_make V (z (7 * i)) (z (7 * i + 1)) (z (7 * i + 2)),
      m_velocity = v_make V (z (7 * i + 3)) (z (7 * i + 4)) (z (7 * i + 5))\<rparr>"

text \<open>The requests to send, for the vehicles whose send flag is not zero.\<close>

definition send_flags :: "('x callback, 'w) sim_ops \<Rightarrow> (nat \<Rightarrow> int) \<Rightarrow> nat \<Rightarrow> 'w \<Rightarrow> 'w" where
  "send_flags S z n = fold (\<lambda>i w. if z (7 * i + 6) \<noteq> 0 then Send S i 3 w else w) [0..<n]"

lemma unat_index:
  assumes "7 * i + c < 2 ^ 32"
  shows "unat (of_nat i * 7 + of_nat c :: u32) = 7 * i + c"
proof -
  have "of_nat i * 7 + of_nat c = (of_nat (7 * i + c) :: u32)" by simp
  then show ?thesis using assms by (simp only: unat_of_nat) (simp add: take_bit_eq_mod)
qed

lemma unat_indices:
  assumes "7 * i + 7 < 2 ^ 32"
  shows "unat (of_nat i * 7 :: u32) = 7 * i" "unat (of_nat i * 7 + 1 :: u32) = 7 * i + 1"
    "unat (of_nat i * 7 + 2 :: u32) = 7 * i + 2" "unat (of_nat i * 7 + 3 :: u32) = 7 * i + 3"
    "unat (of_nat i * 7 + 3 + 1 :: u32) = 7 * i + 4" "unat (of_nat i * 7 + 3 + 2 :: u32) = 7 * i + 5"
    "unat (of_nat i * 7 + 6 :: u32) = 7 * i + 6" "unat (of_nat i * 7 + 7 :: u32) = 7 * i + 7"
    "unat (of_nat i :: u32) = i"
  using unat_index[of i 0] unat_index[of i 1] unat_index[of i 2] unat_index[of i 3]
    unat_index[of i 4] unat_index[of i 5] unat_index[of i 6] unat_index[of i 7] assms
  by (simp_all add: add.assoc unat_of_nat take_bit_eq_mod)

lemma stoi_at_number:
  "numbers data n z \<Longrightarrow> unat k < n \<Longrightarrow> stoi_at data k = Inr (z (unat k))"
  by (auto simp: numbers_def stoi_at_def)

lemma vector_at_numbers:
  assumes "numbers data n z" and "unat k = j" "unat (k + 1) = j + 1" "unat (k + 2) = j + 2" "j + 2 < n"
  shows "vector_at V data k = Inr (v_make V (z j) (z (j + 1)) (z (j + 2)))"
  using stoi_at_number[OF assms(1), of k] stoi_at_number[OF assms(1), of "k + 1"]
    stoi_at_number[OF assms(1), of "k + 2"] assms(2-)
  by (simp add: vector_at_def)

lemma mobility_eq: "(m :: 'v mobility)\<lparr>m_position := p, m_velocity := v\<rparr> = \<lparr>m_position = p, m_velocity = v\<rparr>"
  by (cases m) simp

lemma update_vehicle_numbers:
  assumes V: "v_neq V = (\<noteq>)" and z: "numbers data n z" and n: "7 * i + 7 \<le> n" "7 * i + 7 < 2 ^ 32"
    and len: "i < length (sg_mobility u)" "i < length (sg_apps u)" "i < length (m_count u)"
      "i < length (m_data g)"
    and free: "find_sub (m_delimiterField g) (to_string (unat (m_count u ! i))) = None"
      "find_sub (m_delimiterMessage g) (to_string (unat (m_count u ! i))) = None"
  shows "\<exists>log. update_vehicle S V data (of_nat i) (u, g, w) =
    Inr (u\<lparr>sg_mobility := (sg_mobility u)[i := vehicle_target V z i], sg_log := log\<rparr>,
         g\<lparr>m_data := (m_data g)[i := to_string (unat (m_count u ! i))]\<rparr>,
         if z (7 * i + 6) \<noteq> 0 then Send S i 3 w else w)"
proof -
  note ix = unat_indices[OF n(2)]
  have p: "vector_at V data (of_nat i * 7) = Inr (m_position (vehicle_target V z i))"
    using vector_at_numbers[OF z ix(1-3), of V] n(1) by (simp add: vehicle_target_def)
  have "unat (of_nat i * 7 + 3 + 1 :: u32) = 7 * i + 3 + 1" "unat (of_nat i * 7 + 3 + 2 :: u32) = 7 * i + 3 + 2"
    using ix(5,6) by simp_all
  from vector_at_numbers[OF z ix(4) this, of V] n(1)
  have v: "vector_at V data (of_nat i * 7 + 3) = Inr (m_velocity (vehicle_target V z i))"
    by (simp add: vehicle_target_def ac_simps)
  have f: "stoi_at data (of_nat i * 7 + 6) = Inr (z (7 * i + 6))"
    using stoi_at_number[OF z, of "of_nat i * 7 + 6"] ix(7) n(1) by simp
  have l: "\<not> length data < unat (of_nat i * 7 + 7 :: u32)"
    using z n(1) by (simp add: ix(8) numbers_def)
  let ?t = "vehicle_target V z i"
  have "\<exists>log. SetVelocity V (ReportMobility (sim_now S w) i) (m_velocity ?t)
      (DoSetPosition V (m_position ?t) (sg_mobility u ! i), sg_log u) = (?t, log)"
    by (simp add: SetVelocity_exact[OF V] DoSetPosition_exact[OF V] mobility_eq)
  then obtain log where sv: "SetVelocity V (ReportMobility (sim_now S w) i) (m_velocity ?t)
      (DoSetPosition V (m_position ?t) (sg_mobility u ! i), sg_log u) = (?t, log)" by blast
  show ?thesis
    unfolding update_vehicle_def ELEMENTS_PER_VEHICLE_def Let_def p v f split ix(9)
    using len free l sv by (auto simp: SetValue_def ix(9))
qed

text \<open>The elements of a list up to an index, from a function.\<close>

definition filled :: "(nat \<Rightarrow> 'a) \<Rightarrow> nat \<Rightarrow> 'a list \<Rightarrow> 'a list" where
  "filled f k xs = map f [0..<k] @ drop k xs"

lemma filled_0 [simp]: "filled f 0 xs = xs"
  by (simp add: filled_def)

lemma length_filled [simp]: "k \<le> length xs \<Longrightarrow> length (filled f k xs) = length xs"
  by (simp add: filled_def)

lemma filled_Suc: "k < length xs \<Longrightarrow> (filled f k xs)[k := f k] = filled f (Suc k) xs"
  by (simp add: filled_def list_update_append flip: Cons_nth_drop_Suc)

lemma filled_all: "k = length xs \<Longrightarrow> filled f k xs = map f [0..<k]"
  by (simp add: filled_def)

lemma update_vehicles_append:
  "update_vehicles S V data (is @ js) s =
     bind_res (update_vehicles S V data is s) (update_vehicles S V data js)"
proof (induction "is" arbitrary: s)
  case (Cons i "is")
  then show ?case by (cases "update_vehicle S V data i s") simp_all
qed simp

lemma update_vehicles_numbers:
  assumes V: "v_neq V = (\<noteq>)" and z: "numbers data n z" and k: "7 * k \<le> n" "7 * k < 2 ^ 32"
    and len: "k \<le> length (sg_mobility u)" "k \<le> length (sg_apps u)" "k \<le> length (m_count u)"
      "k \<le> length (m_data g)"
    and free: "\<forall>c. find_sub (m_delimiterField g) (to_string c) = None"
      "\<forall>c. find_sub (m_delimiterMessage g) (to_string c) = None"
  shows "\<exists>log. update_vehicles S V data (map of_nat [0..<k]) (u, g, w) =
    Inr (u\<lparr>sg_mobility := filled (vehicle_target V z) k (sg_mobility u), sg_log := log\<rparr>,
         g\<lparr>m_data := filled (\<lambda>i. to_string (unat (m_count u ! i))) k (m_data g)\<rparr>,
         send_flags S z k w)"
  using k len
proof (induction k)
  case 0
  have "u = u\<lparr>sg_mobility := sg_mobility u, sg_log := sg_log u\<rparr>" by simp
  then show ?case by (auto simp: send_flags_def intro: exI[of _ "sg_log u"])
next
  case (Suc k)
  then obtain log where IH: "update_vehicles S V data (map of_nat [0..<k]) (u, g, w) =
    Inr (u\<lparr>sg_mobility := filled (vehicle_target V z) k (sg_mobility u), sg_log := log\<rparr>,
         g\<lparr>m_data := filled (\<lambda>i. to_string (unat (m_count u ! i))) k (m_data g)\<rparr>,
         send_flags S z k w)" (is "_ = Inr (?u, ?g, ?w)") by auto
  from update_vehicle_numbers[OF V z, of k ?u ?g S ?w] Suc.prems free obtain log' where
    "update_vehicle S V data (of_nat k) (?u, ?g, ?w) =
      Inr (?u\<lparr>sg_mobility := (sg_mobility ?u)[k := vehicle_target V z k], sg_log := log'\<rparr>,
         ?g\<lparr>m_data := (m_data ?g)[k := to_string (unat (m_count ?u ! k))]\<rparr>,
         if z (7 * k + 6) \<noteq> 0 then Send S k 3 ?w else ?w)"
    by auto
  with IH Suc.prems show ?case
    by (intro exI[of _ log']) (simp add: update_vehicles_append filled_Suc[of k _ "vehicle_target V z"]
        filled_Suc[of k _ "\<lambda>i. to_string (unat (m_count u ! i))"] send_flags_def)
qed

text \<open>The whole function, for the default delimiters.\<close>

definition default_delimiters :: "gateway \<Rightarrow> bool" where
  "default_delimiters g \<longleftrightarrow>
     m_delimiterField g = '' '' \<and> m_delimiterMessage g = [CHR 0x0D, CHR 0x0A]"

lemma default_delimiters_free:
  "default_delimiters g \<Longrightarrow>
     find_sub (m_delimiterField g) (to_string c) = None \<and> find_sub (m_delimiterMessage g) (to_string c) = None"
  by (auto simp: default_delimiters_def is_digit_def intro!: to_string_no_delimiter)

definition counts :: "('v, 'a, 't, 's) simple \<Rightarrow> string list" where
  "counts u = map (\<lambda>c. to_string (unat c)) (m_count u)"

definition simple_sized :: "nat \<Rightarrow> ('v, 'a, 't, 's) simple \<Rightarrow> gateway \<Rightarrow> bool" where
  "simple_sized n u g \<longleftrightarrow>
     length (sg_mobility u) = n \<and> length (sg_apps u) = n \<and> length (m_count u) = n \<and>
     length (m_data g) = n"

lemma DoUpdate_numbers:
  assumes V: "v_neq V = (\<noteq>)" and z: "numbers data (7 * n) z" and n: "7 * n < 2 ^ 32"
    and sz: "simple_sized n u g" and dl: "default_delimiters g"
    and st: "m_state g = CONNECTED" "m_socket g = Some sock"
  shows "\<exists>log. DoUpdate S P V data (u, g, w) =
    Inr (u\<lparr>sg_mobility := map (vehicle_target V z) [0..<n], sg_log := log\<rparr>,
         g\<lparr>m_data := counts u\<rparr>,
         snd (os_send P sock (response_message '' '' [CHR 0x0D, CHR 0x0A] (counts u)) (send_flags S z n w)))"
proof -
  have c: "map (\<lambda>i. to_string (unat (m_count u ! i))) [0..<n] = counts u"
    using sz by (auto simp: counts_def simple_sized_def intro!: nth_equalityI)
  have "\<exists>log. update_vehicles S V data (map of_nat [0..<n]) (u, g, w) =
    Inr (u\<lparr>sg_mobility := filled (vehicle_target V z) n (sg_mobility u), sg_log := log\<rparr>,
         g\<lparr>m_data := filled (\<lambda>i. to_string (unat (m_count u ! i))) n (m_data g)\<rparr>,
         send_flags S z n w)"
    by (rule update_vehicles_numbers[OF V z _ n])
      (use sz dl default_delimiters_free in \<open>auto simp: simple_sized_def\<close>)
  then obtain log where r: "update_vehicles S V data (map of_nat [0..<n]) (u, g, w) =
    Inr (u\<lparr>sg_mobility := map (vehicle_target V z) [0..<n], sg_log := log\<rparr>,
         g\<lparr>m_data := counts u\<rparr>, send_flags S z n w)"
    using sz c by (auto simp: filled_all simple_sized_def)
  have "length (sg_mobility u) = n" using sz by (simp add: simple_sized_def)
  with r st dl show ?thesis
    by (auto simp: DoUpdate_def SendResponse_def default_delimiters_def Let_def split_beta)
qed

section \<open>A message of the server in the gateway\<close>

lemma server_fields_free:
  "f \<in> set (server_fields nodes t st) \<Longrightarrow>
     find_sub '' '' f = None \<and> find_sub [CHR 0x0D, CHR 0x0A] f = None"
  using server_fields_numbers to_string_no_delimiter[of "CHR '' ''" "'' ''"]
    to_string_no_delimiter[of "CHR 0x0D" "[CHR 0x0D, CHR 0x0A]"]
  by (auto simp: is_digit_def dest!: server_fields_numbers)

lemma crlf_unbordered: "unbordered [CHR 0x0D, CHR 0x0A]"
  by (simp add: unbordered_def)

lemma space_unbordered: "unbordered '' ''"
  by (simp add: unbordered_def)

text \<open>The stream: each message of the server is one message of the gateway.\<close>

lemma server_body_framed:
  "find_sub [CHR 0x0D, CHR 0x0A] (server_body nodes t st @ [CHR 0x0D, CHR 0x0A]) =
     Some (length (server_body nodes t st))"
  using find_sub_at_delimiter[OF find_sub_join_None crlf_unbordered, of "'' ''" "server_fields nodes t st" "[]"]
    server_fields_free by (simp add: server_body_join)

lemma server_frames:
  "frames [CHR 0x0D, CHR 0x0A] (concat (map (\<lambda>(t, st). server_message nodes t st) ts)) =
     (map (\<lambda>(t, st). server_body nodes t st) ts, [])"
proof -
  have eq: "concat (map (\<lambda>(t, st). server_message nodes t st) ts) =
      concat (map (\<lambda>m. m @ [CHR 0x0D, CHR 0x0A]) (map (\<lambda>(t, st). server_body nodes t st) ts)) @ []"
    by (induction ts) (auto simp: server_message_def)
  have ms: "\<forall>m \<in> set (map (\<lambda>(t, st). server_body nodes t st) ts).
      find_sub [CHR 0x0D, CHR 0x0A] (m @ [CHR 0x0D, CHR 0x0A]) = Some (length m)"
    using server_body_framed by auto
  show ?thesis
    unfolding eq by (subst frames_messages[OF _ ms]) (simp_all add: frames_None)
qed

text \<open>The fields.\<close>

lemma server_body_fields: "split_fields '' '' (server_body nodes t st) = Some (server_fields nodes t st)"
  unfolding server_body_join
  using server_fields_free by (intro split_fields_join space_unbordered) (auto simp: server_fields_def)

lemma server_header:
  "message_time (server_fields nodes t st) =
     (if unat t < 2 ^ 31 then Inr (Seconds (uint t)) else Inl (Fatal ''received invalid message header''))"
proof -
  define n where "n = unat t"
  have t: "unat t = n" "uint t = int n" by (simp_all add: n_def)
  have "stol ''0'' = Inr 0"
    using stol_to_string_int[of 0] by (simp add: to_string_int_def to_string_0 in_int64_def)
  moreover have "in_int64 (int n * 1000000000)" if "n < 2147483648"
    using that by (simp add: in_int64_def)
  ultimately show ?thesis
    by (simp add: message_time_def server_fields_def stoi_to_string Seconds_def NanoSeconds_def t)
qed

end
