(* ===== verification/Cosim_Properties.thy ===== *)
theory Cosim_Properties
  imports Gateway_Functions Simple_Cosim Server_Run
begin

text \<open>
  The properties of the co-simulation example: the server's stream as the gateway reads it, and what
  the gateway does with the vehicles.
\<close>

section \<open>The data of a message\<close>

text \<open>The numbers in the data of a message, by their index.\<close>

definition server_number :: "server_state \<Rightarrow> nat \<Rightarrow> int" where
  "server_number st j =
     (let i = j div 7 in
      [uint (xPosition st ! i), int i, 0, uint (xVelocity st ! i), 0, 0, uint (broadcast st ! i)] ! (j mod 7))"

lemma stoi_u16: "stoi (to_string (unat (x :: u16))) = Inr (uint x)"
proof -
  have "uint x < 2 ^ 16" using unsigned_less[of x, where ?'a = int] by simp
  then show ?thesis by (simp add: stoi_to_string)
qed

lemma less_7_cases: "(c :: nat) < 7 \<Longrightarrow> c \<in> {0, 1, 2, 3, 4, 5, 6}"
  by auto

lemma server_data_numbers:
  "numbers (server_data nodes st) (7 * unat nodes) (server_number st)"
  unfolding numbers_def
proof (intro conjI allI impI)
  fix j
  assume j: "j < 7 * unat nodes"
  let ?i = "j div 7" and ?c = "j mod 7"
  have i: "?i < unat nodes" using j by (simp add: less_mult_imp_div_less mult.commute)
  have c: "?c < 7" by simp
  have eq: "j = 7 * ?i + ?c" by simp
  have "server_data nodes st ! (7 * ?i + ?c) = vehicle_fields st ?i ! ?c"
    unfolding server_data_def
    by (subst nth_concat_same_length[where k = 7]) (use i c in \<open>auto simp: vehicle_fields_def\<close>)
  then have d: "server_data nodes st ! j = vehicle_fields st ?i ! ?c" using eq by simp
  have z: "stoi ''0'' = Inr 0" using stoi_to_string[of 0] by (simp add: to_string_0)
  have "unat nodes < 2 ^ 16" using unsigned_less[of nodes, where ?'a = nat] by simp
  then have n: "stoi (to_string ?i) = Inr (int ?i)" using i by (simp add: stoi_to_string)
  show "stoi (server_data nodes st ! j) = Inr (server_number st j)"
    unfolding d server_number_def Let_def using less_7_cases[OF c]
    by (elim insertE emptyE) (simp_all add: vehicle_fields_def stoi_u16 z n)
qed (simp add: server_data_length)

lemma server_number_simps:
  "server_number st (7 * i) = uint (xPosition st ! i)" "server_number st (7 * i + 1) = int i"
  "server_number st (7 * i + 2) = 0" "server_number st (7 * i + 3) = uint (xVelocity st ! i)"
  "server_number st (7 * i + 4) = 0" "server_number st (7 * i + 5) = 0"
  "server_number st (7 * i + 6) = uint (broadcast st ! i)"
proof -
  have "(7 * i + c) div 7 = i \<and> (7 * i + c) mod 7 = c" if "c < 7" for c :: nat
    using that by simp
  note this[of 0] this[of 1] this[of 2] this[of 3] this[of 4] this[of 5] this[of 6]
  then show "server_number st (7 * i) = uint (xPosition st ! i)" "server_number st (7 * i + 1) = int i"
    "server_number st (7 * i + 2) = 0" "server_number st (7 * i + 3) = uint (xVelocity st ! i)"
    "server_number st (7 * i + 4) = 0" "server_number st (7 * i + 5) = 0"
    "server_number st (7 * i + 6) = uint (broadcast st ! i)"
    by (simp_all add: server_number_def Let_def)
qed

text \<open>A gateway with one vehicle, and a state of the server for it.\<close>

definition one_vehicle :: ref_user where
  "one_vehicle = \<lparr>sg_mobility = [ExternalMobilityModel_new int_vectors],
     sg_apps = [TriggeredSendApplication_new
       (ref_net :: (nat \<times> nat, string, nat, ref_callback ref_world) net_ops)], m_count = [2], sg_log = []\<rparr>"

definition one_gateway :: gateway where
  "one_gateway = ref_gateway\<lparr>m_data := [[]]\<rparr>"

definition one_server :: server_state where
  "one_server = \<lparr>xVelocity = [5], xPosition = [70], broadcast = [1]\<rparr>"

lemma one_vehicle_ok:
  "simple_sized 1 one_vehicle one_gateway" "default_delimiters one_gateway"
  "m_state one_gateway = CONNECTED" "m_socket one_gateway = Some 3" "v_neq int_vectors = (\<noteq>)"
  by (simp_all add: simple_sized_def one_vehicle_def one_gateway_def ref_gateway_def default_delimiters_def
      CRLF_def int_vectors_def)

lemma DoUpdate_server_data:
  assumes "v_neq V = (\<noteq>)" and "simple_sized (unat nodes) u g" and "default_delimiters g"
    and "m_state g = CONNECTED" and "m_socket g = Some sock"
  shows "\<exists>log. DoUpdate S P V (server_data nodes st) (u, g, w) =
    Inr (u\<lparr>sg_mobility := map (\<lambda>i. \<lparr>m_position = v_make V (uint (xPosition st ! i)) (int i) 0,
                                  m_velocity = v_make V (uint (xVelocity st ! i)) 0 0\<rparr>) [0..<unat nodes],
           sg_log := log\<rparr>,
         g\<lparr>m_data := map (\<lambda>c. to_string (unat c)) (m_count u)\<rparr>,
         snd (os_send P sock (response_message '' '' CRLF (map (\<lambda>c. to_string (unat c)) (m_count u)))
           (fold (\<lambda>i w. if broadcast st ! i \<noteq> 0 then Send S i 3 w else w) [0..<unat nodes] w)))"
proof -
  have "unat nodes < 2 ^ 16" using unsigned_less[of nodes, where ?'a = nat] by simp
  then have n: "7 * unat nodes < 2 ^ 32" by simp
  have t: "vehicle_target V (server_number st) =
      (\<lambda>i. \<lparr>m_position = v_make V (uint (xPosition st ! i)) (int i) 0,
            m_velocity = v_make V (uint (xVelocity st ! i)) 0 0\<rparr>)"
    by (rule ext) (simp only: vehicle_target_def server_number_simps)
  have f: "send_flags S (server_number st) (unat nodes) w =
      fold (\<lambda>i w. if broadcast st ! i \<noteq> 0 then Send S i 3 w else w) [0..<unat nodes] w"
    unfolding send_flags_def server_number_simps by (simp add: uint_0_iff)
  from DoUpdate_numbers[OF assms(1) server_data_numbers n assms(2-5), of S P st w] show ?thesis
    unfolding t f counts_def CRLF_def .
qed

text \<open>C21: The data format of the example: when the gateway gets the data of a message of the server for as many
  vehicles as it has, every vehicle has the position and velocity of the message (the x-axis
  from the server, the lane number on the y-axis), exactly the vehicles whose broadcast number is
  not zero are asked to send 3 packets, and one response is sent, with the number of packets that
  each vehicle has received.\<close>

theorem vehicles_follow_server:
  assumes "v_neq V = (\<noteq>)" and "simple_sized (unat nodes) u g" and "default_delimiters g"
    and "m_state g = CONNECTED" and "m_socket g = Some sock"
  shows "\<exists>log. DoUpdate S P V (server_data nodes st) (u, g, w) =
    Inr (u\<lparr>sg_mobility := map (\<lambda>i. \<lparr>m_position = v_make V (uint (xPosition st ! i)) (int i) 0,
                                  m_velocity = v_make V (uint (xVelocity st ! i)) 0 0\<rparr>) [0..<unat nodes],
           sg_log := log\<rparr>,
         g\<lparr>m_data := map (\<lambda>c. to_string (unat c)) (m_count u)\<rparr>,
         snd (os_send P sock (response_message '' '' CRLF (map (\<lambda>c. to_string (unat c)) (m_count u)))
           (fold (\<lambda>i w. if broadcast st ! i \<noteq> 0 then Send S i 3 w else w) [0..<unat nodes] w)))"
  by (rule DoUpdate_server_data[OF assms])

theorem vehicles_follow_server_witness:
  "\<exists>u' g' w'. DoUpdate ref_sim ref_os int_vectors (server_data 1 one_server)
      (one_vehicle, one_gateway, ref_connected) = Inr (u', g', w') \<and>
    sg_mobility u' = [\<lparr>m_position = (70, 0, 0), m_velocity = (5, 0, 0)\<rparr>] \<and> m_data g' = [''2'']"
proof -
  have "simple_sized (unat (1 :: u16)) one_vehicle one_gateway" using one_vehicle_ok(1) by simp
  from vehicles_follow_server[OF one_vehicle_ok(5) this one_vehicle_ok(2-4), of ref_sim ref_os one_server ref_connected]
  obtain log where "DoUpdate ref_sim ref_os int_vectors (server_data 1 one_server)
      (one_vehicle, one_gateway, ref_connected) =
    Inr (one_vehicle\<lparr>sg_mobility := map (\<lambda>i. \<lparr>m_position = v_make int_vectors (uint (xPosition one_server ! i)) (int i) 0,
           m_velocity = v_make int_vectors (uint (xVelocity one_server ! i)) 0 0\<rparr>) [0..<unat (1 :: u16)],
           sg_log := log\<rparr>,
         one_gateway\<lparr>m_data := map (\<lambda>c. to_string (unat c)) (m_count one_vehicle)\<rparr>,
         snd (os_send ref_os 3 (response_message '' '' CRLF (map (\<lambda>c. to_string (unat c)) (m_count one_vehicle)))
           (fold (\<lambda>i w. if broadcast one_server ! i \<noteq> 0 then Send ref_sim i 3 w else w) [0..<unat (1 :: u16)]
              ref_connected)))" by blast
  moreover have "to_string 2 = ''2''" by code_simp
  ultimately show ?thesis by (simp add: one_vehicle_def one_server_def int_vectors_def)
qed

text \<open>A message with too little data ends the program: whatever the numbers in it, if the data has fewer
  than 7 elements for each vehicle, \<open>DoUpdate\<close> is a fatal error and no response is sent.\<close>

theorem short_data_is_fatal:
  assumes "v_neq V = (\<noteq>)" and "numbers data (length data) z" and "length data < 7 * n"
    and "7 * n < 2 ^ 32" and "simple_sized n u g" and "default_delimiters g"
  shows "DoUpdate S P V data (u, g, w) = Inl (Fatal ''received data has insufficient size'')"
proof -
  let ?k = "length data div 7"
  have k: "7 * ?k \<le> length data" "?k < n" using assms(3) by auto
  have split: "map of_nat [0..<n] = map of_nat [0..<?k] @ (of_nat ?k :: u32) # map of_nat [Suc ?k..<n]"
  proof -
    have "[0..<n] = [0..<?k] @ [?k..<n]" using upt_add_eq_append[of 0 ?k "n - ?k"] k(2) by simp
    also have "[?k..<n] = ?k # [Suc ?k..<n]" using k(2) by (rule upt_conv_Cons)
    finally show ?thesis by (simp only: map_append list.map)
  qed
  have len: "length (sg_mobility u) = n" using assms(5) by (simp add: simple_sized_def)
  have "\<exists>u1 g1 w1. update_vehicles S V data (map of_nat [0..<?k]) (u, g, w) = Inr (u1, g1, w1)"
    using update_vehicles_numbers[OF assms(1,2) k(1), of u g S w] k(2) assms(4-6) default_delimiters_free
    by (fastforce simp: simple_sized_def)
  then obtain u1 g1 w1 where r: "update_vehicles S V data (map of_nat [0..<?k]) (u, g, w) = Inr (u1, g1, w1)"
    by blast
  have "7 * ?k + 7 < 2 ^ 32" "length data < 7 * ?k + 7" using k(2) assms(4) by auto
  then have "length data < unat (of_nat ?k * ELEMENTS_PER_VEHICLE + ELEMENTS_PER_VEHICLE)"
    using unat_indices(8)[of ?k] by (simp add: ELEMENTS_PER_VEHICLE_def)
  then have "update_vehicle S V data (of_nat ?k) (u1, g1, w1) =
      Inl (Fatal ''received data has insufficient size'')"
    by (simp add: update_vehicle_def Let_def)
  with r show ?thesis by (simp add: DoUpdate_def len split update_vehicles_append)
qed

theorem short_data_is_fatal_witness:
  "DoUpdate ref_sim ref_os int_vectors [''0''] (one_vehicle, one_gateway, ref_connected) =
     Inl (Fatal ''received data has insufficient size'')"
proof -
  have "stoi ''0'' = Inr 0" using stoi_to_string[of 0] by (simp add: to_string_0)
  then have "numbers [''0''] (length [''0'']) (\<lambda>j. 0)" by (simp add: numbers_def)
  from short_data_is_fatal[OF one_vehicle_ok(5) this _ _ one_vehicle_ok(1,2)] show ?thesis by simp
qed

text \<open>\<open>HandleReceive\<close> counts one packet for the vehicle that its argument names, in 16 bits, and
  nothing else changes; an argument that is not a number, or names no vehicle, is an exception
  that nothing catches.\<close>

theorem HandleReceive_counts:
  shows "HandleReceive (to_string i) u =
    (if i < length (m_count u) \<and> i < 2 ^ 31
     then Inr (u\<lparr>m_count := (m_count u)[i := m_count u ! i + 1]\<rparr>)
     else Inl (Uncaught Out_of_range))"
  by (simp add: HandleReceive_def stoi_to_string)

section \<open>The server\<close>

text \<open>One turn of the movement in the server: every vehicle gets a velocity between 1 and
  \<open>positionDeltaX\<close>, moves by it modulo 65536, and may be told to broadcast only in every fifth
  turn; a \<open>positionDeltaX\<close> of 0 is a division by zero as soon as there is a vehicle.\<close>

theorem vehicles_move_forward:
  assumes "server_sized nodes st"
  shows "if delta = 0 \<and> nodes \<noteq> 0 then move_vehicles R delta i [0..<unat nodes] (st, w) = Inl Undefined
    else \<exists>st' w'. move_vehicles R delta i [0..<unat nodes] (st, w) = Inr (st', w') \<and>
      server_sized nodes st' \<and>
      (\<forall>k < unat nodes. 1 \<le> xVelocity st' ! k \<and> xVelocity st' ! k \<le> delta \<and>
         unat (xPosition st' ! k) = (unat (xPosition st ! k) + unat (xVelocity st' ! k)) mod 65536 \<and>
         broadcast st' ! k \<le> 1 \<and> (i mod 5 \<noteq> 0 \<longrightarrow> broadcast st' ! k = 0))"
proof -
  consider (zero) "delta = 0" "nodes \<noteq> 0" | (none) "nodes = 0" | (move) "delta \<noteq> 0" by blast
  then show ?thesis
  proof cases
    case zero
    then have "0 < unat nodes" by (simp add: unat_gt_0)
    then have "[0..<unat nodes] = 0 # [1..<unat nodes]" by (simp add: upt_conv_Cons)
    with zero show ?thesis by (simp add: move_vehicle_def split_beta Let_def)
  next
    case none
    with assms show ?thesis by simp
  next
    case move
    have "\<forall>n \<in> set [0..<unat nodes]. n < unat nodes" by simp
    from move_vehicles_Inr[OF move assms this, of R i w] obtain st' w' where
      m: "move_vehicles R delta i [0..<unat nodes] (st, w) = Inr (st', w')" "server_sized nodes st'"
      "\<forall>k < unat nodes. vehicle_moved delta i st st' k" by auto
    with move show ?thesis by (auto simp: vehicle_moved_def unat_word_ariths)
  qed
qed

theorem vehicles_move_forward_witness:
  "\<exists>st' w'. move_vehicles ref_server 25 1 [0..<unat (3 :: u16)] (server_init 3, ([30, 7], [])) = Inr (st', w') \<and>
     server_sized 3 st' \<and> broadcast st' ! 2 = 0"
proof -
  have "(1 :: u32) mod 5 \<noteq> 0" by simp
  with vehicles_move_forward[OF server_init_sized, of 25 3 ref_server 1 "([30, 7], [])"] show ?thesis
    by fastforce
qed

lemma turn_messages_nth:
  "turn_messages cfg 0 sts =
     map (\<lambda>i. server_message (numberOfNodes cfg) (server_time cfg (of_nat i)) (sts ! i)) [0..<length sts]"
  by (rule nth_equalityI) (simp_all add: turn_messages_def nth_enumerate_eq)

text \<open>A run of the server ends: with a client that keeps the connection and answers every message,
  \<open>main\<close> sends exactly one message for each of its \<open>iterations\<close>, with the time
  \<open>timeStart + timeDelta * i\<close> (in 32 bits) and vehicles that start at 0 and move between two messages
  as above, then the terminate message, and returns; with 0 iterations it sends nothing, and no
  terminate message either.\<close>

theorem server_run_ends:
  assumes "server_client R sent" and "positionDeltaX cfg \<noteq> 0"
  shows "\<exists>sts st' w'. server_main R cfg w = Inr (st', w') \<and> length sts = unat (iterations cfg) \<and>
    sent w' = sent w @
      map (\<lambda>i. server_message (numberOfNodes cfg) (timeStart cfg + timeDelta cfg * of_nat i) (sts ! i))
        [0..<unat (iterations cfg)] @
      (if iterations cfg = 0 then [] else [terminate_message]) \<and>
    (sts \<noteq> [] \<longrightarrow> sts ! 0 = server_init (numberOfNodes cfg)) \<and>
    (\<forall>i k. Suc i < length sts \<and> k < unat (numberOfNodes cfg) \<longrightarrow>
       vehicle_moved (positionDeltaX cfg) (of_nat i) (sts ! i) (sts ! Suc i) k)"
proof -
  from server_client.server_main_Inr[OF assms, of w] obtain sts st' w' where
    "server_main R cfg w = Inr (st', w')" "length sts = unat (iterations cfg)"
    "sts \<noteq> [] \<longrightarrow> hd sts = server_init (numberOfNodes cfg)" "turn_states cfg 0 sts"
    "sent w' = sent w @ turn_messages cfg 0 sts @ (if iterations cfg = 0 then [] else [terminate_message])"
    by blast
  then show ?thesis
    by (intro exI[of _ sts] exI[of _ st'] exI[of _ w']) (simp add: turn_messages_nth hd_conv_nth turn_states_def server_time_def)
qed

theorem server_run_ends_witness:
  "\<exists>st' w'. server_main ref_server server_defaults ([], []) = Inr (st', w') \<and> length (snd w') = 21"
proof -
  have "positionDeltaX server_defaults \<noteq> 0" by (simp add: server_defaults_def)
  from server_run_ends[OF ref_server.server_client_axioms this, of "([], [])"] obtain sts st' w' where
    "server_main ref_server server_defaults ([], []) = Inr (st', w')"
    "snd w' = snd ([] :: nat list, []) @ map (\<lambda>i. server_message (numberOfNodes server_defaults)
        (timeStart server_defaults + timeDelta server_defaults * of_nat i) (sts ! i))
        [0..<unat (iterations server_defaults)] @
      (if iterations server_defaults = 0 then [] else [terminate_message])" by blast
  then show ?thesis by (simp add: server_defaults_def)
qed

definition short_run :: server_config where
  "short_run = server_defaults\<lparr>iterations := 2, numberOfNodes := 1\<rparr>"

text \<open>The vehicles can broadcast from the second message on: with one vehicle and two even random
  numbers, the turn for the first message, whose counter 0 is a multiple of 5, already asks the
  vehicle to broadcast in the second one. (The documentation says that the first chance comes at
  step 6.)\<close>

theorem broadcast_in_second_message:
  "server_main ref_server short_run ([0, 0], []) =
     Inr (\<lparr>xVelocity = [1], xPosition = [1], broadcast = [1]\<rparr>, ([],
       [''0 0 0 0 0 0 0 0 0'' @ CRLF, ''1 0 1 0 0 1 0 0 1'' @ CRLF, ''-1 0'' @ CRLF]))"
  by code_simp

section \<open>The two programs together\<close>

text \<open>Below the limit the server's 32-bit time does not wrap around.\<close>

lemma server_time_exact:
  assumes "unat (timeStart cfg) + unat (timeDelta cfg) * unat (iterations cfg) < 2 ^ 31"
    and "j < unat (iterations cfg)"
  shows "unat (server_time cfg (of_nat j)) < 2 ^ 31 \<and>
    uint (server_time cfg (of_nat j)) = uint (timeStart cfg) + uint (timeDelta cfg) * int j"
proof -
  have "unat (timeDelta cfg) * j \<le> unat (timeDelta cfg) * unat (iterations cfg)"
    using assms(2) by (intro mult_le_mono) simp_all
  with assms(1) have lt: "unat (timeStart cfg) + unat (timeDelta cfg) * j < 2 ^ 31" by linarith
  have "server_time cfg (of_nat j) = of_nat (unat (timeStart cfg) + unat (timeDelta cfg) * j)"
    by (simp add: server_time_def)
  then have u: "unat (server_time cfg (of_nat j)) = unat (timeStart cfg) + unat (timeDelta cfg) * j"
    using lt by (simp only: unat_of_nat) (simp add: take_bit_eq_mod)
  then have "int (unat (server_time cfg (of_nat j))) = int (unat (timeStart cfg)) + int (unat (timeDelta cfg)) * int j"
    by (simp only: of_nat_add of_nat_mult)
  then have "uint (server_time cfg (of_nat j)) = uint (timeStart cfg) + uint (timeDelta cfg) * int j" by simp
  with u lt show ?thesis by linarith
qed

lemma server_fields_length: "length (server_fields nodes t st) = 2 + 7 * unat nodes"
  by (simp add: server_fields_def server_data_length)

text \<open>The gateway understands the server: a message of the server at the front of the queue is
  processed with its time in seconds and its data, as long as the time is below 2147483648;
  from there on, although the server's time is unsigned, the header is invalid and the program ends.\<close>

theorem ForwardUp_server_message:
  assumes "default_delimiters g" and "m_messageQueue g = server_body nodes t st # queue"
  shows "ForwardUp S (g, w) =
    (if unat t < 2 ^ 31
     then process_message S (Seconds (uint t)) (server_data nodes st) (g\<lparr>m_messageQueue := queue\<rparr>, w)
     else Inl (Fatal ''received invalid message header''))"
proof -
  have "split_fields (m_delimiterField g) (server_body nodes t st) = Some (server_fields nodes t st)"
    using assms(1) by (simp add: default_delimiters_def server_body_fields)
  moreover have "drop 2 (server_fields nodes t st) = server_data nodes st"
    by (simp add: server_fields_def)
  ultimately show ?thesis by (simp add: ForwardUp_def assms(2) server_header)
qed

theorem ForwardUp_server_message_witness:
  "ForwardUp ref_sim (one_gateway\<lparr>m_messageQueue := [server_body 1 2147483648 one_server]\<rparr>, ref_connected) =
     Inl (Fatal ''received invalid message header'')"
proof -
  let ?g = "one_gateway\<lparr>m_messageQueue := [server_body 1 2147483648 one_server]\<rparr>"
  have "default_delimiters ?g" using one_vehicle_ok(2) by (simp add: default_delimiters_def)
  moreover have "m_messageQueue ?g = server_body 1 2147483648 one_server # []" by simp
  ultimately show ?thesis
    using ForwardUp_server_message[of ?g 1 2147483648 one_server "[]" ref_sim ref_connected] by simp
qed

text \<open>The messages of a run, without their ends.\<close>

definition server_bodies :: "server_config \<Rightarrow> server_state list \<Rightarrow> string list" where
  "server_bodies cfg sts =
     map (\<lambda>i. server_body (numberOfNodes cfg) (server_time cfg (of_nat i)) (sts ! i)) [0..<length sts]"

lemma server_run_frames:
  assumes "server_client R sent" and "sent w = []" and "positionDeltaX cfg \<noteq> 0" and "iterations cfg \<noteq> 0"
  obtains sts st' w' where "server_main R cfg w = Inr (st', w')" and "length sts = unat (iterations cfg)"
    and "sts ! 0 = server_init (numberOfNodes cfg)" and "turn_states cfg 0 sts"
    and "frames CRLF (concat (sent w')) = (server_bodies cfg sts @ [''-1 0''], [])"
    and "states_of_turns R cfg 0 (server_init (numberOfNodes cfg), w) sts"
proof -
  from server_client.server_main_Inr[OF assms(1,3), of w] assms(2,4) obtain sts st' w' where
    run: "server_main R cfg w = Inr (st', w')" "length sts = unat (iterations cfg)"
    "sent w' = turn_messages cfg 0 sts @ [terminate_message]"
    and at: "states_of_turns R cfg 0 (server_init (numberOfNodes cfg), w) sts"
    and sts: "sts \<noteq> [] \<longrightarrow> hd sts = server_init (numberOfNodes cfg)" "turn_states cfg 0 sts" by auto
  have "sts \<noteq> []" using run(2) assms(4) by (auto simp: unat_eq_0)
  with sts have first: "sts ! 0 = server_init (numberOfNodes cfg)" by (simp add: hd_conv_nth)
  have sent: "sent w' = map (\<lambda>m. m @ CRLF) (server_bodies cfg sts @ [''-1 0''])"
    unfolding run(3) server_bodies_def turn_messages_nth
    by (simp add: server_message_def terminate_message_def CRLF_def comp_def)
  have framed: "\<forall>m \<in> set (server_bodies cfg sts @ [''-1 0'']). find_sub CRLF (m @ CRLF) = Some (length m)"
    using server_body_framed by (auto simp: server_bodies_def CRLF_def)
  have "frames CRLF (concat (sent w') @ []) = (server_bodies cfg sts @ [''-1 0''], [])"
    unfolding sent by (subst frames_messages[OF _ framed]) (simp_all add: CRLF_def frames_None)
  with run(1,2) first sts(2) at that show ?thesis by simp
qed

lemma server_bodies_fields:
  assumes "unat (timeStart cfg) + unat (timeDelta cfg) * unat (iterations cfg) < 2 ^ 31"
    and "length sts = unat (iterations cfg)" and "j < length sts"
  shows "\<exists>fs. split_fields '' '' (server_bodies cfg sts ! j) = Some fs \<and>
    length fs = 2 + 7 * unat (numberOfNodes cfg) \<and>
    message_time fs = Inr (Seconds (uint (timeStart cfg) + uint (timeDelta cfg) * int j))"
  using server_body_fields server_header server_time_exact[OF assms(1), of j] assms(2,3)
  by (simp add: server_bodies_def server_fields_length)

lemma terminate_fields:
  "split_fields '' '' ''-1 0'' = Some [''-1'', ''0'']" "message_time [''-1'', ''0''] = Inr (Seconds (-1))"
  by (simp add: split_fields_def split_loop.simps) code_simp

lemma body_of_turn:
  assumes "unat (timeStart cfg) + unat (timeDelta cfg) * unat (iterations cfg) < 2 ^ 31"
    and "states_of_turns R cfg 0 s sts" and "length sts = unat (iterations cfg)" and "j < length sts"
  shows "\<exists>st w1 fs.
     server_turns R cfg 0 j s = Some (st, w1) \<and>
     fs = to_string (unat (timeStart cfg + timeDelta cfg * of_nat j)) # ''0'' #
       concat (map (\<lambda>n. [to_string (unat (xPosition st ! n)), to_string n, ''0'',
           to_string (unat (xVelocity st ! n)), ''0'', ''0'', to_string (unat (broadcast st ! n))])
         [0..<unat (numberOfNodes cfg)]) \<and>
     split_fields '' '' (server_bodies cfg sts ! j) = Some fs \<and>
     message_time fs = Inr (Seconds (uint (timeStart cfg) + uint (timeDelta cfg) * int j))"
proof -
  let ?fs = "server_fields (numberOfNodes cfg) (server_time cfg (of_nat j)) (sts ! j)"
  obtain w1 where st: "server_turns R cfg 0 j s = Some (sts ! j, w1)"
    using assms(2,4) by (auto simp: states_of_turns_def)
  have sp: "split_fields '' '' (server_bodies cfg sts ! j) = Some ?fs"
    using assms(4) by (simp add: server_bodies_def server_body_fields)
  with server_bodies_fields[OF assms(1,3,4)]
  have mt: "message_time ?fs = Inr (Seconds (uint (timeStart cfg) + uint (timeDelta cfg) * int j))" by simp
  show ?thesis
    by (rule exI[of _ "sts ! j"], rule exI[of _ w1], rule exI[of _ ?fs], intro conjI st sp mt)
      (simp only: server_fields_def server_data_def server_time_def vehicle_fields_def[abs_def])
qed

text \<open>C20: The wire format agrees end to end: everything that the server sends in a run, as one stream of
  bytes, is for the gateway exactly one message for each iteration and the terminate message,
  with nothing left over. The fields of the message of the turn \<open>j\<close> are, in decimal, the time
  \<open>timeStart + timeDelta * j\<close> and 0, and for each vehicle \<open>n\<close> its position, \<open>n\<close>, 0, its velocity, 0, 0
  and its broadcast flag, as the server's variables have them after \<open>j\<close> turns of this run; the
  gateway takes that time from them. The last message has the time -1 s, which stops the simulator.\<close>

theorem gateway_reads_server_stream:
  assumes "server_client R sent" and "sent w = []" and "positionDeltaX cfg \<noteq> 0" and "iterations cfg \<noteq> 0"
    and "unat (timeStart cfg) + unat (timeDelta cfg) * unat (iterations cfg) < 2 ^ 31"
  shows "\<exists>st' w' bodies. server_main R cfg w = Inr (st', w') \<and>
    frames CRLF (concat (sent w')) = (bodies @ [''-1 0''], []) \<and> length bodies = unat (iterations cfg) \<and>
    (\<forall>j < length bodies. \<exists>st w1 fs.
       server_turns R cfg 0 j (server_init (numberOfNodes cfg), w) = Some (st, w1) \<and>
       fs = to_string (unat (timeStart cfg + timeDelta cfg * of_nat j)) # ''0'' #
         concat (map (\<lambda>n. [to_string (unat (xPosition st ! n)), to_string n, ''0'',
             to_string (unat (xVelocity st ! n)), ''0'', ''0'', to_string (unat (broadcast st ! n))])
           [0..<unat (numberOfNodes cfg)]) \<and>
       split_fields '' '' (bodies ! j) = Some fs \<and>
       message_time fs = Inr (Seconds (uint (timeStart cfg) + uint (timeDelta cfg) * int j))) \<and>
    (\<exists>fs. split_fields '' '' ''-1 0'' = Some fs \<and> message_time fs = Inr (Seconds (-1)))"
proof -
  from server_run_frames[OF assms(1-4)] obtain sts st' w' where
    run: "server_main R cfg w = Inr (st', w')" and len: "length sts = unat (iterations cfg)"
    and fr: "frames CRLF (concat (sent w')) = (server_bodies cfg sts @ [''-1 0''], [])"
    and at: "states_of_turns R cfg 0 (server_init (numberOfNodes cfg), w) sts" by blast
  have lb: "length (server_bodies cfg sts) = length sts" by (simp add: server_bodies_def)
  note body = body_of_turn[OF assms(5) at len, folded lb]
  have "length (server_bodies cfg sts) = unat (iterations cfg)" using lb len by simp
  with run fr body terminate_fields show ?thesis by blast
qed

theorem gateway_reads_server_stream_witness:
  "\<exists>bodies. frames CRLF (''0 0 0 0 0 0 0 0 0'' @ CRLF @ ''1 0 1 0 0 1 0 0 1'' @ CRLF @ ''-1 0'' @ CRLF) =
       (bodies @ [''-1 0''], []) \<and> length bodies = 2 \<and>
     server_turns ref_server short_run 0 1 (server_init 1, ([0, 0], [])) =
       Some (\<lparr>xVelocity = [1], xPosition = [1], broadcast = [1]\<rparr>, ([], [''0 0 0 0 0 0 0 0 0'' @ CRLF])) \<and>
     split_fields '' '' (bodies ! 1) = Some [''1'', ''0'', ''1'', ''0'', ''0'', ''1'', ''0'', ''0'', ''1'']"
proof -
  have c: "snd ([0 :: nat, 0], [] :: string list) = []" "positionDeltaX short_run \<noteq> 0" "iterations short_run \<noteq> 0"
    "unat (timeStart short_run) + unat (timeDelta short_run) * unat (iterations short_run) < 2 ^ 31"
    and n: "unat (iterations short_run) = 2" "numberOfNodes short_run = 1" "timeStart short_run = 0" "timeDelta short_run = 1"
    by (simp_all add: short_run_def server_defaults_def)
  have t1: "server_turns ref_server short_run 0 1 (server_init 1, ([0, 0], [])) =
       Some (\<lparr>xVelocity = [1], xPosition = [1], broadcast = [1]\<rparr>, ([], [''0 0 0 0 0 0 0 0 0'' @ CRLF]))"
    by code_simp
  have s: "to_string (Suc 0) = ''1''" "to_string 0 = ''0''" by code_simp+
  from gateway_reads_server_stream[OF ref_server.server_client_axioms c]
  obtain st' w' bodies where run: "server_main ref_server short_run ([0, 0], []) = Inr (st', w')"
    and fr: "frames CRLF (concat (snd w')) = (bodies @ [''-1 0''], [])" and len: "length bodies = 2"
    and fs: "\<And>j. j < length bodies \<Longrightarrow> \<exists>st w1 fs.
       server_turns ref_server short_run 0 j (server_init (numberOfNodes short_run), ([0, 0], [])) = Some (st, w1) \<and>
       fs = to_string (unat (timeStart short_run + timeDelta short_run * of_nat j)) # ''0'' #
         concat (map (\<lambda>n. [to_string (unat (xPosition st ! n)), to_string n, ''0'',
             to_string (unat (xVelocity st ! n)), ''0'', ''0'', to_string (unat (broadcast st ! n))])
           [0..<unat (numberOfNodes short_run)]) \<and>
       split_fields '' '' (bodies ! j) = Some fs"
    unfolding n(1) by blast
  have "concat (snd w') = ''0 0 0 0 0 0 0 0 0'' @ CRLF @ ''1 0 1 0 0 1 0 0 1'' @ CRLF @ ''-1 0'' @ CRLF"
    using run broadcast_in_second_message by auto
  note b = fr[unfolded this] len
  have "split_fields '' '' (bodies ! 1) = Some [''1'', ''0'', ''1'', ''0'', ''0'', ''1'', ''0'', ''0'', ''1'']"
    using fs[of 1] len t1 s by (auto simp: n(2-))
  with b(1,2) t1 show ?thesis by blast
qed

end
