(* ===== verification/Progress_Properties.thy ===== *)
theory Progress_Properties
  imports Gateway_Scenarios Cosim_Properties Gateway_Progress
begin

text \<open>
  The properties on the progress of the simulation: which time stamps keep it going, and how a
  repeated time stamp holds the clock. (That a granted time is reached is in \<open>Granted_Time\<close>.)
\<close>

section \<open>Increasing time stamps\<close>

text \<open>The reference time 10 s and an update for 12 s are processed; the update is pending.\<close>

definition granted_labels :: "gw_label list" where
  "granted_labels =
     thread_starts @ [L_Recv (Received (''10 0'' @ CRLF @ ''12 0'' @ CRLF))] @
     thread_message @ thread_message @ [L_Thread, L_Event, L_Event, L_Event]"

definition ref_granted :: ref_sys where
  "ref_granted = ref_start\<lparr>
     s_gw := ref_gateway\<lparr>m_eventWait := Some 4, m_timeStart := Seconds 10, m_timePause := Seconds 2\<rparr>,
     s_world := ref_connected\<lparr>rw_uid := 7,
       rw_events := [(5, 0, GatewayDoInitialize []), (6, Seconds 2, GatewayHandleUpdate [])]\<rparr>,
     s_thread := T_Recv [], s_received := ''10 0'' @ CRLF @ ''12 0'' @ CRLF,
     s_forwarded := [''10 0'', ''12 0'']\<rparr>"

lemma granted_labels_run: "gw_execs ref_sim ref_os H granted_labels ref_start = Some ref_granted"
  by (simp add: ref_eval granted_labels_def ref_granted_def)

lemma ref_granted_stamps: "increasing_stamps ref_granted"
  by (simp add: increasing_stamps_def ref_granted_def ref_eval time_stamps_def map_filter_def
      message_stamp_def)

text \<open>If the time stamps of the processed messages strictly increase, the pacing events are in
  order: every pending wait event is the one that \<open>m_eventWait\<close> names, so the next message cancels
  it, and no wait event is pending together with an update, so nothing holds the clock back from the
  granted time.\<close>

theorem increasing_time_stamps_progress:
  assumes "gateway_host S cal valid P H" and "gw_reachable S cal valid P H s0 s"
    and "\<forall>f. s_main s \<noteq> Main_Failed f" and "increasing_stamps s"
  shows "(\<forall>v \<in> waits (cal (s_world s)). m_eventWait (s_gw s) = Some (ev_id v)) \<and>
    (updates (cal (s_world s)) = {} \<or> waits (cal (s_world s)) = {})"
  using gateway_host.reachable_paced[OF assms] by (simp add: sys_paced_def paced_def)

theorem increasing_time_stamps_progress_witness:
  "waits (ref_cal (s_world ref_granted)) = {}"
proof -
  have "(6, Seconds 2, GatewayHandleUpdate []) \<in> updates (ref_cal (s_world ref_granted))"
    by (simp add: ref_granted_def updates_def ref_cal_def)
  moreover have "\<forall>f. s_main ref_granted \<noteq> Main_Failed f" by (simp add: ref_granted_def ref_start_def)
  moreover note increasing_time_stamps_progress[OF ref_host_ok
    gw_execs_reachable[OF ref_start_reachable granted_labels_run] _ ref_granted_stamps]
  ultimately show ?thesis by blast
qed

section \<open>The server of the example keeps the gateway going\<close>

lemma time_stamps_prefix: "prefix ms ms' \<Longrightarrow> prefix (time_stamps D ms) (time_stamps D ms')"
  by (auto simp: prefix_def)

lemma sorted_wrt_prefix: "prefix xs ys \<Longrightarrow> sorted_wrt R ys \<Longrightarrow> sorted_wrt R xs"
  by (auto simp: prefix_def sorted_wrt_append)

lemma terminate_stamps: "time_stamps '' '' [''-1 0''] = []"
  using time_stamps_one[of "'' ''" "''-1 0''" "Seconds (-1)"] terminate_fields
  by (simp add: message_stamp_def Seconds_def)

lemma server_time_stamps:
  assumes "unat (timeStart cfg) + unat (timeDelta cfg) * unat (iterations cfg) < 2 ^ 31"
    and "length sts = unat (iterations cfg)"
  shows "time_stamps '' '' (server_bodies cfg sts @ [''-1 0'']) =
    map (\<lambda>j. Seconds (uint (timeStart cfg) + uint (timeDelta cfg) * int j)) [0..<length sts]"
proof -
  let ?T = "\<lambda>j. Seconds (uint (timeStart cfg) + uint (timeDelta cfg) * int j)"
  have pos: "0 \<le> ?T j" for j by (simp add: Seconds_def)
  have one: "message_stamp '' '' (server_bodies cfg sts ! j) = Some (?T j)" if "j < length sts" for j
    using server_bodies_fields[OF assms that] by (auto simp: message_stamp_def)
  have part: "time_stamps '' '' (map (\<lambda>j. server_bodies cfg sts ! j) [0..<k]) = map ?T [0..<k]"
    if "k \<le> length sts" for k
    using that
  proof (induction k)
    case (Suc k)
    then show ?case using one[of k] pos[of k] by (simp add: time_stamps_one)
  qed simp
  have len: "length (server_bodies cfg sts) = length sts" by (simp add: server_bodies_def)
  then have "map (\<lambda>j. server_bodies cfg sts ! j) [0..<length sts] = server_bodies cfg sts"
    using map_nth[of "server_bodies cfg sts"] by simp
  with part[of "length sts"] have "time_stamps '' '' (server_bodies cfg sts) = map ?T [0..<length sts]"
    by simp
  with terminate_stamps show ?thesis by simp
qed

lemma server_stamps_sorted:
  assumes "timeDelta cfg \<noteq> 0"
  shows "sorted_wrt (<) (map (\<lambda>j. Seconds (uint (timeStart cfg) + uint (timeDelta cfg) * int j)) [0..<n])"
proof -
  have "0 < uint (timeDelta cfg)" using assms by (simp add: uint_0_iff order_less_le)
  then have "Seconds (uint (timeStart cfg) + uint (timeDelta cfg) * int i) <
      Seconds (uint (timeStart cfg) + uint (timeDelta cfg) * int j)" if "i < j" for i j
    using that by (simp add: Seconds_def)
  then show ?thesis by (simp add: sorted_wrt_map sorted_wrt_iff_nth_less)
qed

text \<open>What has arrived of a stream determines what can be processed or queued.\<close>

lemma served_prefix:
  assumes "gateway_host S cal valid P H" and "gw_reachable S cal valid P H s0 s"
    and "default_delimiters (s_gw s0)" and "prefix (s_received s) stream"
  shows "m_delimiterField (s_gw s) = '' ''"
    and "prefix (s_forwarded s @ m_messageQueue (s_gw s)) (fst (frames CRLF stream))"
proof -
  show "m_delimiterField (s_gw s) = '' ''"
    using gateway_host.reachable_delimiters[OF assms(1,2)] assms(3) by (simp add: default_delimiters_def)
  have M: "m_delimiterMessage (s_gw s0) = CRLF"
    using assms(3) by (simp add: default_delimiters_def CRLF_def)
  from stream_ok_frames[OF gateway_host.reachable_stream[OF assms(1,2)]]
  have "prefix (s_forwarded s @ m_messageQueue (s_gw s)) (fst (frames CRLF (s_received s)))"
    unfolding M by (metis append_assoc fst_conv prefixI)
  also have "prefix (fst (frames CRLF (s_received s))) (fst (frames CRLF stream))"
    using assms(4) frames_append[of CRLF "s_received s"] by (auto simp: prefix_def CRLF_def)
  finally show "prefix (s_forwarded s @ m_messageQueue (s_gw s)) (fst (frames CRLF stream))" .
qed

lemma served_stamps:
  assumes "unat (timeStart cfg) + unat (timeDelta cfg) * unat (iterations cfg) < 2 ^ 31"
    and "length sts = unat (iterations cfg)" and "prefix ms (server_bodies cfg sts @ [''-1 0''])"
  shows "prefix (time_stamps '' '' ms)
      (map (\<lambda>j. Seconds (uint (timeStart cfg) + uint (timeDelta cfg) * int j)) [0..<length sts])"
    and "timeDelta cfg \<noteq> 0 \<Longrightarrow> sorted_wrt (<) (time_stamps '' '' ms)"
  using time_stamps_prefix[OF assms(3), of "'' ''"] sorted_wrt_prefix[OF _ server_stamps_sorted]
  unfolding server_time_stamps[OF assms(1,2)] by blast+

text \<open>C12: The composition of the two programs: whatever part of the bytes of a run of the example's server
  has arrived, and however the two threads are interleaved, the messages that the gateway has
  processed or queued are the first messages of the run, their time stamps strictly increase, and so
  no wait event is pending together with an update and every one is the one of \<open>m_eventWait\<close>: the
  example's server never blocks the simulation.\<close>

theorem example_server_never_blocks:
  assumes "server_client R sent" and "sent v = []" and "positionDeltaX cfg \<noteq> 0"
    and "iterations cfg \<noteq> 0" and "timeDelta cfg \<noteq> 0"
    and "unat (timeStart cfg) + unat (timeDelta cfg) * unat (iterations cfg) < 2 ^ 31"
    and "server_main R cfg v = Inr (st', v')"
    and "gateway_host S cal valid P H" and "gw_reachable S cal valid P H s0 s"
    and "default_delimiters (s_gw s0)" and "prefix (s_received s) (concat (sent v'))"
    and "\<forall>f. s_main s \<noteq> Main_Failed f"
  shows "prefix (s_forwarded s @ m_messageQueue (s_gw s)) (fst (frames CRLF (concat (sent v')))) \<and>
    increasing_stamps s \<and>
    (\<forall>x \<in> waits (cal (s_world s)). m_eventWait (s_gw s) = Some (ev_id x)) \<and>
    (updates (cal (s_world s)) = {} \<or> waits (cal (s_world s)) = {})"
proof -
  from server_run_frames[OF assms(1-4)] assms(7) obtain sts where
    len: "length sts = unat (iterations cfg)" and
    fr: "frames CRLF (concat (sent v')) = (server_bodies cfg sts @ [''-1 0''], [])"
    by (metis Inr_inject prod.inject)
  note served = served_prefix[OF assms(8-11)]
  then have "prefix (s_forwarded s) (server_bodies cfg sts @ [''-1 0''])"
    unfolding fr fst_conv by (blast dest: append_prefixD)
  from served_stamps(2)[OF assms(6) len this assms(5)]
  have inc: "increasing_stamps s" unfolding increasing_stamps_def served(1) .
  from gateway_host.reachable_paced[OF assms(8,9,12) inc] served(2) inc show ?thesis
    by (simp add: sys_paced_def paced_def)
qed

text \<open>The first message of the server has arrived and is processed.\<close>

definition served_labels :: "gw_label list" where
  "served_labels = thread_starts @ [L_Recv (Received (''0 0 0 0 0 0 0 0 0'' @ CRLF))] @ thread_message @
     [L_Event, L_Event]"

theorem example_server_never_blocks_witness:
  "\<exists>s st' v'. server_main ref_server short_run ([0, 0], []) = Inr (st', v') \<and>
     gw_execs ref_sim ref_os ref_host served_labels ref_start = Some s \<and>
     prefix (s_received s) (concat (snd v')) \<and> s_forwarded s = [''0 0 0 0 0 0 0 0 0''] \<and>
     increasing_stamps s"
proof -
  have split: "split_fields '' '' ''0 0 0 0 0 0 0 0 0'' = Some [''0'', ''0'', ''0'', ''0'', ''0'', ''0'', ''0'', ''0'', ''0'']"
    by (simp add: split_fields_def split_loop.simps)
  have time: "message_time [''0'', ''0'', ''0'', ''0'', ''0'', ''0'', ''0'', ''0'', ''0''] = Inr (Seconds 0)"
    by code_simp
  have run: "server_main ref_server short_run ([0, 0], []) =
     Inr (\<lparr>xVelocity = [1], xPosition = [1], broadcast = [1]\<rparr>, ([],
       [''0 0 0 0 0 0 0 0 0'' @ CRLF, ''1 0 1 0 0 1 0 0 1'' @ CRLF, ''-1 0'' @ CRLF]))"
    by code_simp
  have cfg: "positionDeltaX short_run \<noteq> 0" "iterations short_run \<noteq> 0" "timeDelta short_run \<noteq> 0"
    "unat (timeStart short_run) + unat (timeDelta short_run) * unat (iterations short_run) < 2 ^ 31"
    by (simp_all add: short_run_def server_defaults_def)
  have "\<exists>s. gw_execs ref_sim ref_os ref_host served_labels ref_start = Some s \<and>
      s_received s = ''0 0 0 0 0 0 0 0 0'' @ CRLF \<and> s_forwarded s = [''0 0 0 0 0 0 0 0 0''] \<and>
      s_main s = Main_Run"
    by (simp add: ref_eval served_labels_def split time)
  then obtain s where s: "gw_execs ref_sim ref_os ref_host served_labels ref_start = Some s"
    "s_received s = ''0 0 0 0 0 0 0 0 0'' @ CRLF" "s_forwarded s = [''0 0 0 0 0 0 0 0 0'']"
    "s_main s = Main_Run" by blast
  have pre: "prefix (s_received s) (concat (snd ([] :: nat list,
       [''0 0 0 0 0 0 0 0 0'' @ CRLF, ''1 0 1 0 0 1 0 0 1'' @ CRLF, ''-1 0'' @ CRLF])))"
    unfolding s(2) by simp
  have dd: "default_delimiters (s_gw ref_start)"
    by (simp add: default_delimiters_def ref_start_def ref_gateway_def CRLF_def)
  have alive: "\<forall>f. s_main s \<noteq> Main_Failed f" using s(4) by simp
  have "snd ([0 :: nat, 0], [] :: string list) = []" by simp
  from example_server_never_blocks[where R = ref_server and sent = snd and v = "([0, 0], [])", OF ref_server.server_client_axioms this cfg run ref_host_ok
      gw_execs_reachable[OF ref_start_reachable s(1)] dd pre alive]
  have "increasing_stamps s" by blast
  with run s(1,3) pre show ?thesis by fastforce
qed

section \<open>A repeated time stamp\<close>

text \<open>
  The server repeats its first time stamp twice and sends the next time stamp while both updates
  are executed at that time.
\<close>

definition repeated_labels :: "gw_label list" where
  "repeated_labels =
     thread_starts @ [L_Recv (Received (''10 0'' @ CRLF @ ''10 0'' @ CRLF @ ''10 0'' @ CRLF))] @
     thread_message @ thread_message @ thread_message @ [L_Thread] @
     [L_Event, L_Event, L_Event, L_Event] @
     [L_Recv (Received (''12 0'' @ CRLF))] @ thread_message @ [L_Thread] @
     [L_Event, L_Event, L_Event, L_Event]"

text \<open>
  A wait event that \<open>m_eventWait\<close> does not name, or that has just replaced one, and a pending update,
  while the thread waits in \<open>recv\<close>.
\<close>

definition blocked :: "ref_sys \<Rightarrow> bool" where
  "blocked s \<longleftrightarrow>
     s_main s = Main_Run \<and> s_thread s = T_Recv [] \<and>
     m_state (s_gw s) = CONNECTED \<and> m_messageQueue (s_gw s) = [] \<and>
     m_delimiterField (s_gw s) = '' '' \<and> m_delimiterMessage (s_gw s) = CRLF \<and>
     m_timeStart (s_gw s) = Seconds 10 \<and> m_timePause (s_gw s) = Seconds 2 \<and> rw_now (s_world s) = 0 \<and> \<not> rw_stopped (s_world s) \<and>
     rw_destroy (s_world s) = [(0, GatewayStop)] \<and>
     (\<exists>i h j. rw_events (s_world s) =
          [(i, 0, GatewayWaitForNextUpdate), (h, Seconds 2, GatewayHandleUpdate [])] \<and>
        m_eventWait (s_gw s) = Some j \<and> j \<noteq> h \<and> 0 < j \<and> j < rw_uid (s_world s) \<and> h < rw_uid (s_world s))"

lemma blocked_step:
  assumes "blocked s"
  shows "\<exists>s'. gw_exec ref_sim ref_os H L_Event s = Some s' \<and> blocked s'"
proof -
  from assms obtain i h j where
    f: "s_main s = Main_Run" "s_thread s = T_Recv []"
      "m_state (s_gw s) = CONNECTED" "m_messageQueue (s_gw s) = []"
      "m_delimiterField (s_gw s) = '' ''" "m_delimiterMessage (s_gw s) = CRLF"
      "m_timeStart (s_gw s) = Seconds 10" "m_timePause (s_gw s) = Seconds 2" "rw_now (s_world s) = 0" "\<not> rw_stopped (s_world s)"
      "rw_destroy (s_world s) = [(0, GatewayStop)]"
      "rw_events (s_world s) = [(i, 0, GatewayWaitForNextUpdate), (h, Seconds 2, GatewayHandleUpdate [])]"
      "m_eventWait (s_gw s) = Some j" "j \<noteq> h" "0 < j" "j < rw_uid (s_world s)" "h < rw_uid (s_world s)"
    unfolding blocked_def by blast
  define s' where "s' = s\<lparr>s_gw := (s_gw s)\<lparr>m_eventWait := Some (rw_uid (s_world s))\<rparr>,
    s_world := (s_world s)\<lparr>rw_uid := Suc (rw_uid (s_world s)),
      rw_events := [(rw_uid (s_world s), 0, GatewayWaitForNextUpdate), (h, Seconds 2, GatewayHandleUpdate [])]\<rparr>\<rparr>"
  have "gw_exec ref_sim ref_os H L_Event s = Some s'"
    using f by (simp add: ref_eval s'_def)
  moreover have "blocked s'" using f by (simp add: blocked_def s'_def)
  ultimately show ?thesis by blast
qed

lemma blocked_for_ever:
  "blocked s \<Longrightarrow> \<exists>s'. gw_execs ref_sim ref_os H (replicate n L_Event) s = Some s' \<and> blocked s'"
proof (induction n arbitrary: s)
  case (Suc n)
  from blocked_step[OF Suc.prems] obtain s1 where "gw_exec ref_sim ref_os H L_Event s = Some s1" "blocked s1"
    by blast
  with Suc.IH[of s1] show ?case by auto
qed simp

text \<open>The next message, and the events up to its processing.\<close>

definition next_message :: "gw_label list" where
  "next_message = [L_Recv (Received (''12 0'' @ CRLF))] @ thread_message @ [L_Thread, L_Event, L_Event]"

lemma blocked_released:
  assumes "blocked s"
  shows "\<exists>s' w. gw_execs ref_sim ref_os H next_message s = Some s' \<and>
    sim_next ref_sim (s_world s') = Some (GatewayHandleUpdate [], w) \<and> sim_now ref_sim w = Seconds 2"
proof -
  from assms obtain i h j where
    f: "s_main s = Main_Run" "s_thread s = T_Recv []"
      "m_state (s_gw s) = CONNECTED" "m_messageQueue (s_gw s) = []"
      "m_delimiterField (s_gw s) = '' ''" "m_delimiterMessage (s_gw s) = CRLF"
      "m_timeStart (s_gw s) = Seconds 10" "m_timePause (s_gw s) = Seconds 2" "rw_now (s_world s) = 0"
      "\<not> rw_stopped (s_world s)" "rw_destroy (s_world s) = [(0, GatewayStop)]"
      "rw_events (s_world s) = [(i, 0, GatewayWaitForNextUpdate), (h, Seconds 2, GatewayHandleUpdate [])]"
      "m_eventWait (s_gw s) = Some j" "j \<noteq> h" "0 < j" "j < rw_uid (s_world s)" "h < rw_uid (s_world s)"
    unfolding blocked_def by blast
  then show ?thesis by (simp add: ref_eval next_message_def)
qed

text \<open>C13: Repeated time stamps, which \<open>ForwardUp\<close> accepts, can hold the clock although the server has
  granted a later time: the two updates at the same time each schedule a wait event, \<open>m_eventWait\<close>
  names only the second, and the next message cancels only that one. The other one schedules
  itself again and again, so the event loop on its own never reaches the granted time of 2 s, however
  many events it executes. One more message ends this, whenever it comes: the wait event is
  then the one of \<open>m_eventWait\<close>, the message cancels it, and the update for 2 s is the next event. (A
  server that waits for the response to the update before it sends again, as the
  example's server does, does not send that message.)\<close>

theorem repeated_time_stamp_blocks:
  "\<exists>s. gw_reachable ref_sim ref_cal ref_ok ref_os ref_host ref_start s \<and>
     s_forwarded s = [''10 0'', ''10 0'', ''10 0'', ''12 0''] \<and> m_messageQueue (s_gw s) = [] \<and>
     m_timePause (s_gw s) = Seconds 2 \<and>
     (\<forall>n. \<exists>s'. gw_execs ref_sim ref_os ref_host (replicate n L_Event) s = Some s' \<and>
        s_main s' = Main_Run \<and> m_state (s_gw s') = CONNECTED \<and> sim_now ref_sim (s_world s') = 0 \<and>
        (\<exists>s'' w. gw_execs ref_sim ref_os ref_host next_message s' = Some s'' \<and>
           sim_next ref_sim (s_world s'') = Some (GatewayHandleUpdate [], w) \<and> sim_now ref_sim w = Seconds 2))"
proof -
  have "\<exists>s. gw_execs ref_sim ref_os ref_host repeated_labels ref_start = Some s \<and>
     s_forwarded s = [''10 0'', ''10 0'', ''10 0'', ''12 0''] \<and> blocked s"
    by (simp add: ref_eval repeated_labels_def blocked_def)
  then obtain s where s: "gw_execs ref_sim ref_os ref_host repeated_labels ref_start = Some s"
    "s_forwarded s = [''10 0'', ''10 0'', ''10 0'', ''12 0'']" "blocked s" by blast
  have "gw_reachable ref_sim ref_cal ref_ok ref_os ref_host ref_start s"
    by (rule gw_execs_reachable[OF ref_start_reachable s(1)])
  moreover have "m_messageQueue (s_gw s) = [] \<and> m_timePause (s_gw s) = Seconds 2"
    using s(3) by (simp add: blocked_def)
  moreover have "\<exists>s'. gw_execs ref_sim ref_os ref_host (replicate n L_Event) s = Some s' \<and>
        s_main s' = Main_Run \<and> m_state (s_gw s') = CONNECTED \<and> sim_now ref_sim (s_world s') = 0 \<and>
        (\<exists>s'' w. gw_execs ref_sim ref_os ref_host next_message s' = Some s'' \<and>
           sim_next ref_sim (s_world s'') = Some (GatewayHandleUpdate [], w) \<and> sim_now ref_sim w = Seconds 2)" for n
  proof -
    obtain s' where s': "gw_execs ref_sim ref_os ref_host (replicate n L_Event) s = Some s'" "blocked s'"
      using blocked_for_ever[OF s(3), of ref_host n] by blast
    with blocked_released[OF s'(2), of ref_host] show ?thesis by (auto simp: blocked_def ref_sim_simps)
  qed
  ultimately show ?thesis using s(2) by blast
qed

end
