(* ===== verification/Simple_Program.thy ===== *)
theory Simple_Program
  imports Gateway_Properties Simple_Server
begin

text \<open>
  The two programs of the co-simulation example around their loops: \<open>main\<close> of
  \<open>examples/simple-gateway.cc\<close>, which builds the vehicles and connects the gateway, and the rest of
  \<open>main\<close> of \<open>examples/simple-gateway-server.cc\<close>, which opens the connection. The helpers and
  containers of ns-3 that build the network are a parameter.
\<close>

section \<open>The gateway program\<close>

text \<open>The vehicles start in lanes: vehicle \<open>i\<close> at the y-coordinate \<open>i\<close>.\<close>

definition vehicle_models :: "'v vector_ops \<Rightarrow> u16 \<Rightarrow> 'v mobility list" where
  "vehicle_models V nodes =
     map (\<lambda>i. DoSetPosition V (v_make V 0 (int i) 0) (ExternalMobilityModel_new V)) [0..<unat nodes]"

text \<open>The application of a vehicle, which sends to the broadcast address of the bus.\<close>

definition vehicle_app :: "('a, 't, 's, 'w) net_ops \<Rightarrow> 't \<Rightarrow> 'a \<Rightarrow> ('a, 't, 's) tsa res" where
  "vehicle_app N protocol broadcastAddress =
     helper_install N (TriggeredSendHelper_new protocol broadcastAddress @ [PacketInterval (MilliSeconds 100)])"

fun install_apps :: "('a, 't, 's, 'w) net_ops \<Rightarrow> 't \<Rightarrow> 'a \<Rightarrow> nat \<Rightarrow> ('a, 't, 's) tsa list res" where
  "install_apps N protocol d 0 = Inr []"
| "install_apps N protocol d (Suc k) =
     bind_res (install_apps N protocol d k) (\<lambda>as.
     bind_res (vehicle_app N protocol d) (\<lambda>a. Inr (as @ [a])))"

text \<open>
  \<open>create_network\<close> is everything up to the construction of the gateway that is not a mobility
  model, \<open>start_apps\<close> the scheduling of the start of the applications and packet sinks; the result
  is the state in which \<open>Simulator::Run\<close> is called.
\<close>

definition simple_main ::
    "('y simple_event callback, 'w) sim_ops \<Rightarrow> 'w os_ops \<Rightarrow> 'v vector_ops \<Rightarrow> ('a, 't, 's, 'w) net_ops \<Rightarrow>
     ('w \<Rightarrow> 'w) \<Rightarrow> ('w \<Rightarrow> 'w) \<Rightarrow> 't \<Rightarrow> 'a \<Rightarrow> u16 \<Rightarrow> string \<Rightarrow> u16 \<Rightarrow> 'w \<Rightarrow>
     (('v, 'a, 't, 's) simple, 'w) gw_sys res" where
  "simple_main S P V N create_network start_apps protocol d nodes serverAddress serverPort w =
     (let w1 = create_network w in
      bind_res (SimpleGateway_new S (vehicle_models V nodes) [] w1) (\<lambda>(u, g).
      bind_res (install_apps N protocol d (unat nodes)) (\<lambda>apps.
      bind_res (Connect S P serverAddress serverPort (g, start_apps w1)) (\<lambda>(g', w').
        Inr \<lparr>s_user = u\<lparr>sg_apps := apps\<rparr>, s_gw = g', s_world = w', s_thread = T_Loop,
             s_main = Main_Run, s_received = [], s_forwarded = []\<rparr>))))"

lemma install_apps_fresh: "install_apps N protocol d k = Inr as \<Longrightarrow> a \<in> set as \<Longrightarrow> fresh_app a"
  by (induction k arbitrary: as) (auto simp: vehicle_app_def dest: helper_install_fresh)

lemma install_apps_length: "install_apps N protocol d k = Inr as \<Longrightarrow> length as = k"
  by (induction k arbitrary: as) auto

lemma fresh_app_own: "fresh_app a \<Longrightarrow> app_own a k"
  by (simp add: fresh_app_def app_own_def)

lemma no_gateway_events:
  assumes "keeps_gateway k k'"
    and "\<forall>v \<in> set (cal_events k). \<not> gateway_callback (ev_call v)"
    and "\<forall>v \<in> set (cal_destroy k). \<not> gateway_callback (snd v)"
  shows "(\<forall>v \<in> set (cal_events k'). \<not> gateway_callback (ev_call v)) \<and>
    (\<forall>v \<in> set (cal_destroy k'). \<not> gateway_callback (snd v))"
proof -
  have "filter (\<lambda>v. gateway_callback (ev_call v)) (cal_events k) = []"
    "filter (\<lambda>v. gateway_callback (snd v)) (cal_destroy k) = []"
    unfolding filter_empty_conv using assms(2,3) by blast+
  moreover have "filter (\<lambda>v. gateway_callback (ev_call v)) (cal_events k') =
      filter (\<lambda>v. gateway_callback (ev_call v)) (cal_events k)"
    "filter (\<lambda>v. gateway_callback (snd v)) (cal_destroy k') =
      filter (\<lambda>v. gateway_callback (snd v)) (cal_destroy k)"
    using assms(1) unfolding keeps_events_def by blast+
  ultimately have "filter (\<lambda>v. gateway_callback (ev_call v)) (cal_events k') = []"
    "filter (\<lambda>v. gateway_callback (snd v)) (cal_destroy k') = []" by (simp_all only:)
  then show ?thesis unfolding filter_empty_conv by blast
qed

text \<open>
  The set-up of the network: it keeps the platform valid and schedules none of the gateway's
  functions (the gateway does not exist yet, or its functions are private).
\<close>

definition builds_network :: "('w \<Rightarrow> 'x callback calendar) \<Rightarrow> ('w \<Rightarrow> bool) \<Rightarrow> ('w \<Rightarrow> 'w) \<Rightarrow> bool" where
  "builds_network cal valid f \<longleftrightarrow> (\<forall>w. valid w \<longrightarrow> gw_effect cal valid w (f w))"

lemma simple_main_initial:
  assumes "valid w" and "builds_network cal valid create_network" and "builds_network cal valid start_apps"
    and none: "\<forall>v \<in> set (cal_events (cal w)). \<not> gateway_callback (ev_call v)"
      "\<forall>v \<in> set (cal_destroy (cal w)). \<not> gateway_callback (snd v)"
    and run: "simple_main S P V N create_network start_apps protocol d n addr port w = Inr s"
  shows "gw_initial S cal (simple_valid cal valid) P s"
proof -
  let ?w2 = "start_apps (create_network w)"
  from run obtain g apps where
    g: "Gateway_new S (of_nat (length (vehicle_models V n))) '' '' [CHR 0x0D, CHR 0x0A] (create_network w) = Inr g"
    and apps: "install_apps N protocol d (unat n) = Inr apps"
    and c: "Connect S P addr port (g, ?w2) = Inr (s_gw s, s_world s)"
    and s: "sg_apps (s_user s) = apps" "s_thread s = T_Loop" "s_main s = Main_Run" "s_received s = []"
      "s_forwarded s = []"
    by (auto simp: simple_main_def SimpleGateway_new_def Let_def)
  note e1 = assms(2)[unfolded builds_network_def, rule_format, OF assms(1)]
  note e2 = assms(3)[unfolded builds_network_def, rule_format, OF gw_effect_valid[OF e1]]
  from gw_effect_trans[OF e1 e2] have v: "valid ?w2" and k: "keeps_gateway (cal w) (cal ?w2)" by (simp_all add: gw_effect_def)
  have sv: "simple_valid cal valid (s_user s) ?w2"
    using v install_apps_fresh[OF apps] fresh_app_own by (auto simp: simple_valid_def apps_own_def s(1))
  have c': "Connect S P addr port (g\<lparr>m_data := m_data g\<rparr>, ?w2) = Inr (s_gw s, s_world s)"
    using c by simp
  show ?thesis
    unfolding gw_initial_def
    by (intro conjI exI) (rule g sv c' s(2-5) no_gateway_events[OF k none, THEN conjunct1]
        no_gateway_events[OF k none, THEN conjunct2])+
qed

section \<open>The server program\<close>

text \<open>The socket calls of the server; \<open>l_client\<close> is the conversation over an accepted socket.\<close>

record 'w listen_ops =
  l_socket :: "'w \<Rightarrow> int \<times> 'w"
  l_reuse :: "int \<Rightarrow> 'w \<Rightarrow> int \<times> 'w"
  l_bind :: "int \<Rightarrow> u16 \<Rightarrow> 'w \<Rightarrow> int \<times> 'w"
  l_listen :: "int \<Rightarrow> 'w \<Rightarrow> int \<times> 'w"
  l_accept :: "int \<Rightarrow> 'w \<Rightarrow> int \<times> 'w"
  l_close :: "int \<Rightarrow> 'w \<Rightarrow> 'w"
  l_client :: "int \<Rightarrow> 'w server_ops"

definition open_server :: "'w listen_ops \<Rightarrow> u16 \<Rightarrow> 'w \<Rightarrow> (int \<times> int \<times> 'w) res" where
  "open_server L serverPort w =
     (let (serverSocket, w1) = l_socket L w in
      if serverSocket = -1 then Inl (Fatal ''failed to create the socket'')
      else (let (r, w2) = l_reuse L serverSocket w1 in
      if r = -1 then Inl (Fatal ''failed to set the socket options'')
      else (let (r, w3) = l_bind L serverSocket serverPort w2 in
      if r = -1 then Inl (Fatal ''failed to bind the socket'')
      else (let (r, w4) = l_listen L serverSocket w3 in
      if r = -1 then Inl (Fatal ''failed to listen for client connections'')
      else (let (clientSocket, w5) = l_accept L serverSocket w4 in
      if clientSocket = -1 then Inl (Fatal ''failed to accept the client connection'')
      else Inr (serverSocket, clientSocket, w5))))))"

definition server_program :: "'w listen_ops \<Rightarrow> server_config \<Rightarrow> u16 \<Rightarrow> 'w \<Rightarrow> (server_state \<times> 'w) res" where
  "server_program L cfg serverPort w =
     bind_res (open_server L serverPort w) (\<lambda>(serverSocket, clientSocket, w1).
     bind_res (server_main (l_client L clientSocket) cfg w1) (\<lambda>(st, w2).
       Inr (st, l_close L serverSocket (l_close L clientSocket w2))))"

end
