(* ===== verification/Cosim_Run.thy ===== *)
theory Cosim_Run
  imports Progress_Properties Gateway_Data Simple_Program
begin

text \<open>
  The two programs of the example at run time: each update is executed at the time stamp of its
  message with the data of its message, and the vehicles of the gateway are moved on the schedule
  of the server.
\<close>

section \<open>The vehicles of the example's gateway\<close>

text \<open>No function of the example changes the number of vehicles, applications, counters or values.\<close>

lemma SetValue_sized: "SetValue i v g = Inr g' \<Longrightarrow> \<exists>ds. g' = g\<lparr>m_data := ds\<rparr> \<and> length ds = length (m_data g)"
  by (auto simp: SetValue_def split: if_splits)

lemma update_vehicle_sized:
  assumes "update_vehicle S V data i (u, g, w) = Inr (u', g', w')" and "simple_sized n u g"
  shows "simple_sized n u' g'"
  using assms by (auto simp: update_vehicle_def Let_def simple_sized_def dest!: SetValue_sized
      split: if_splits prod.splits)

lemma update_vehicles_sized:
  "update_vehicles S V data is (u, g, w) = Inr (u', g', w') \<Longrightarrow> simple_sized n u g \<Longrightarrow> simple_sized n u' g'"
proof (induction "is" arbitrary: u g w)
  case (Cons i "is")
  then obtain u1 g1 w1 where "update_vehicle S V data i (u, g, w) = Inr (u1, g1, w1)"
    "update_vehicles S V data is (u1, g1, w1) = Inr (u', g', w')" by auto
  with Cons update_vehicle_sized show ?case by metis
qed simp

lemma SendResponse_gateway: "SendResponse P (g, w) = Inr (g', w') \<Longrightarrow> g' = g"
  by (auto simp: SendResponse_def Let_def split: if_splits option.splits prod.splits)

lemma DoUpdate_sized:
  assumes "DoUpdate S P V data (u, g, w) = Inr (u', g', w')" and "simple_sized n u g"
  shows "simple_sized n u' g'"
proof -
  from assms(1) obtain u1 g1 w1 g2 where
    "update_vehicles S V data (map of_nat [0..<length (sg_mobility u)]) (u, g, w) = Inr (u1, g1, w1)"
    "SendResponse P (g1, w1) = Inr (g', w')" "u' = u1" by (auto simp: DoUpdate_def)
  with update_vehicles_sized SendResponse_gateway assms(2) show ?thesis by metis
qed

lemma receive_all_sized:
  "receive_all ids u = Inr u' \<Longrightarrow> simple_sized n u g \<Longrightarrow> simple_sized n u' g"
  by (induction ids arbitrary: u)
    (auto simp: HandleReceive_def simple_sized_def split: sum.splits if_splits)

lemma simple_other_sized:
  "simple_other S N net_event c (u, g, w) = Inr (u', g', w') \<Longrightarrow> simple_sized n u g \<Longrightarrow>
   simple_sized n u' g'"
  by (auto simp: simple_other_def on_app_def Let_def simple_sized_def dest: receive_all_sized[of _ _ _ n g]
      split: callback.splits simple_event.splits if_splits prod.splits)

lemma simple_sized_cong: "m_data g' = m_data g \<Longrightarrow> simple_sized n u g' = simple_sized n u g"
  by (simp add: simple_sized_def)

text \<open>The gateway's own functions do not touch the values.\<close>

lemma process_message_data: "process_message S T vs (g, w) = Inr (g', w') \<Longrightarrow> m_data g' = m_data g"
  by (auto simp: process_message_def Let_def split: if_splits prod.splits)

lemma ForwardUp_data: "ForwardUp S (g, w) = Inr (g', w') \<Longrightarrow> m_data g' = m_data g"
  by (auto simp: ForwardUp_def dest: process_message_data split: list.splits option.splits)

lemma WaitForNextUpdate_data: "WaitForNextUpdate S (g, w) = (g', w') \<Longrightarrow> m_data g' = m_data g"
  by (auto simp: WaitForNextUpdate_def Let_def split: if_splits prod.splits)

text \<open>\<open>HandleUpdate\<close> calls \<open>DoUpdate\<close> with all but the wait event as it was.\<close>

lemma HandleUpdate_calls:
  "\<exists>i w1. HandleUpdate S f data (u, g, w) = f data (u, g\<lparr>m_eventWait := i\<rparr>, w1)"
proof (cases "sim_now S w = m_timePause g")
  case True
  then show ?thesis by (auto simp: HandleUpdate_def split: prod.splits)
next
  case False
  then have "HandleUpdate S f data (u, g, w) = f data (u, g\<lparr>m_eventWait := m_eventWait g\<rparr>, w)"
    by (simp add: HandleUpdate_def)
  then show ?thesis by blast
qed

lemma dispatch_sized:
  assumes run: "dispatch S (simple_host S P V N ev) c (u, g, w) = Inr (u', g', w')"
    and sz: "simple_sized n u g"
  shows "simple_sized n u' g'"
proof (cases "gateway_callback c")
  case False
  with run sz show ?thesis
    by (cases c) (auto simp: dispatch_def simple_host_def intro: simple_other_sized)
next
  case True
  then show ?thesis
  proof (cases c)
    case GatewayForwardUp
    with run have "u' = u" "ForwardUp S (g, w) = Inr (g', w')" by (auto simp: dispatch_def)
    with sz simple_sized_cong[OF ForwardUp_data[OF this(2)], of n u] show ?thesis by simp
  next
    case GatewayWaitForNextUpdate
    with run have "u' = u" "WaitForNextUpdate S (g, w) = (g', w')" by (simp_all add: dispatch_def)
    with sz simple_sized_cong[OF WaitForNextUpdate_data[OF this(2)], of n u] show ?thesis by simp
  next
    case (GatewayHandleUpdate d)
    with run have "HandleUpdate S (DoUpdate S P V) d (u, g, w) = Inr (u', g', w')"
      by (simp add: dispatch_def simple_host_def)
    with HandleUpdate_calls[of S "DoUpdate S P V" d u g w] obtain i w1 where
      "DoUpdate S P V d (u, g\<lparr>m_eventWait := i\<rparr>, w1) = Inr (u', g', w')" by auto
    moreover have "simple_sized n u (g\<lparr>m_eventWait := i\<rparr>)" using sz by (simp add: simple_sized_def)
    ultimately show ?thesis by (rule DoUpdate_sized)
  next
    case (GatewayDoInitialize d)
    with run have "DoUpdate S P V d (u, g, w) = Inr (u', g', w')"
      by (simp add: dispatch_def simple_host_def DoInitialize_def)
    from DoUpdate_sized[OF this sz] show ?thesis .
  qed (use run sz in \<open>auto simp: dispatch_def simple_host_def intro: simple_other_sized\<close>)
qed

lemma thread_step_user:
  "thread_step S r s = Some s' \<Longrightarrow>
   s_user s' = s_user s \<and> m_data (s_gw s') = m_data (s_gw s) \<and> m_socket (s_gw s') = m_socket (s_gw s)"
  by (auto simp: thread_step_def Let_def
      split: thread_pc.splits option.splits recv_result.splits if_splits)

lemma Stop_finish_data: "Stop_finish S P b (g, w) = (g', w') \<Longrightarrow>
    m_data g' = m_data g \<and> m_socket g' = m_socket g"
  using Stop_finish_gateway[of S P b g w] by (auto split: if_splits)

lemma main_stop_user:
  "s_user (main_stop S P s) = s_user s \<and> m_data (s_gw (main_stop S P s)) = m_data (s_gw s) \<and>
   m_socket (s_gw (main_stop S P s)) = m_socket (s_gw s)"
  by (auto simp: main_stop_def Stop_signal_def Let_def dest!: Stop_finish_data split: prod.splits)

lemma main_join_user:
  "s_user (main_join S P b s) = s_user s \<and> m_data (s_gw (main_join S P b s)) = m_data (s_gw s) \<and>
   m_socket (s_gw (main_join S P b s)) = m_socket (s_gw s)"
  by (auto simp: main_join_def dest!: Stop_finish_data split: prod.splits)

lemma main_event_sized:
  assumes "simple_sized n (s_user s) (s_gw s)"
  shows "simple_sized n (s_user (main_event S P (simple_host S P V N ev) c s))
    (s_gw (main_event S P (simple_host S P V N ev) c s))"
proof (cases "c = GatewayStop")
  case True
  with main_stop_user[of S P s] assms show ?thesis by (simp add: main_event_def simple_sized_def)
next
  case False
  show ?thesis
  proof (cases "dispatch S (simple_host S P V N ev) c (s_user s, s_gw s, s_world s)")
    case (Inl f)
    with False assms show ?thesis by (simp add: main_event_def)
  next
    case (Inr q)
    obtain u g' w' where q: "q = (u, g', w')" by (cases q)
    from dispatch_sized[OF Inr[unfolded q] assms] False Inr q show ?thesis by (simp add: main_event_def)
  qed
qed

lemma gw_step_sized:
  assumes "gw_step S P (simple_host S P V N ev) s l s'" and sz: "simple_sized n (s_user s) (s_gw s)"
  shows "simple_sized n (s_user s') (s_gw s')"
  using assms(1)
proof (cases rule: gw_step.cases)
  case thread
  with thread_step_user sz simple_sized_cong show ?thesis by metis
next
  case (recv d r)
  with thread_step_user sz simple_sized_cong show ?thesis by metis
next
  case (run c w)
  have "simple_sized n (s_user (s\<lparr>s_world := w\<rparr>)) (s_gw (s\<lparr>s_world := w\<rparr>))" using sz by simp
  from main_event_sized[OF this] show ?thesis unfolding run(2) .
next
  case run_end
  with sz show ?thesis by simp
next
  case (destroy c w)
  have "simple_sized n (s_user (s\<lparr>s_world := w\<rparr>)) (s_gw (s\<lparr>s_world := w\<rparr>))" using sz by simp
  from main_event_sized[OF this] show ?thesis unfolding destroy(2) .
next
  case (join b d)
  with main_join_user[of S P b s] sz show ?thesis by (simp add: simple_sized_def)
qed

lemma reachable_sized:
  assumes "gw_reachable S cal valid P (simple_host S P V N ev) s0 s"
    and "simple_sized n (s_user s0) (s_gw s0)"
  shows "simple_sized n (s_user s) (s_gw s)"
  using assms
proof (induction s0 s rule: gw_reachable.induct)
  case (step s0 s l s')
  then show ?case using gw_step_sized by blast
qed

context gateway_host begin

lemma main_event_socket:
  assumes v: "valid (s_user s) w" and inv: "gw_popped t0 x c (s_gw s) (cal w)"
  shows "m_socket (s_gw (main_event S P H c (s\<lparr>s_world := w\<rparr>))) = m_socket (s_gw s)"
proof (cases "c = GatewayStop")
  case True
  with main_stop_user[of S P "s\<lparr>s_world := w\<rparr>"] show ?thesis by (simp add: main_event_def)
next
  case False
  show ?thesis
  proof (cases "dispatch S H c (s_user s, s_gw s, w)")
    case (Inl f)
    with False show ?thesis by (simp add: main_event_def)
  next
    case (Inr q)
    obtain u g' w' where q: "q = (u, g', w')" by (cases q)
    from dispatch_ok[OF v inv False Inr[unfolded q]] False Inr q show ?thesis
      by (simp add: main_event_def gw_frame_def)
  qed
qed

lemma gw_step_socket:
  assumes step: "gw_step S P H s l s'" and ok: "sys_ok cal valid t0 s"
  shows "m_socket (s_gw s') = m_socket (s_gw s)"
proof -
  from ok gw_step_alive[OF step] have v: "valid (s_user s) (s_world s)"
    and g: "gw_ok t0 (forward_extra (s_thread s)) (s_gw s) (cal (s_world s))" by (simp_all add: sys_ok_def)
  show ?thesis
    using step
  proof (cases rule: gw_step.cases)
    case thread
    with thread_step_user show ?thesis by blast
  next
    case (recv d r)
    with thread_step_user show ?thesis by blast
  next
    case (run c w)
    from host_popped[OF v g run(4)] main_event_socket show ?thesis unfolding run(2) by blast
  next
    case run_end
    then show ?thesis by simp
  next
    case (destroy c w)
    from host_popped_destroy[OF v g destroy(4)] main_event_socket show ?thesis unfolding destroy(2) by blast
  next
    case (join b d)
    with main_join_user[of S P b s] show ?thesis by simp
  qed
qed

lemma reachable_socket: "gw_reachable S cal valid P H s0 s \<Longrightarrow> \<exists>sock. m_socket (s_gw s) = Some sock"
proof (induction rule: gw_reachable.induct)
  case (start s)
  then obtain g w addr port where "Connect S P addr port (g, w) = Inr (s_gw s, s_world s)"
    unfolding gw_initial_def by blast
  from Connect_InrD[OF this] show ?case by auto
next
  case (step s0 s l s')
  from gw_step_socket[OF step.hyps(2) reachable_ok[OF step.hyps(1)]] step.IH show ?case by simp
qed

end

text \<open>The program of the gateway starts with the numbers and delimiters that the theorem below asks for.\<close>

lemma simple_main_sized:
  assumes "simple_main S P V N create_network start_apps protocol d nodes addr port w = Inr s"
  shows "simple_sized (unat nodes) (s_user s) (s_gw s) \<and> default_delimiters (s_gw s)"
proof -
  define k where "k = unat nodes"
  have "k < 2 ^ 16" using unsigned_less[of nodes, where ?'a = nat] by (simp add: k_def)
  then have n: "unat (of_nat k :: u32) = k" by (simp add: unat_of_nat take_bit_eq_mod)
  from assms obtain g apps where
    g: "Gateway_new S (of_nat (length (vehicle_models V nodes))) '' '' [CHR 0x0D, CHR 0x0A] (create_network w) = Inr g"
    and apps: "install_apps N protocol d (unat nodes) = Inr apps"
    and c: "Connect S P addr port (g, start_apps (create_network w)) = Inr (s_gw s, s_world s)"
    and s: "s_user s = \<lparr>sg_mobility = vehicle_models V nodes, sg_apps = apps,
      m_count = replicate (length (vehicle_models V nodes)) 0, sg_log = []\<rparr>"
    by (auto simp: simple_main_def SimpleGateway_new_def Let_def)
  have len: "length (vehicle_models V nodes) = k" by (simp add: vehicle_models_def k_def)
  from g have "length (m_data g) = k" "default_delimiters g"
    unfolding len by (auto simp: Gateway_new_def default_delimiters_def n split: if_splits)
  with Connect_InrD[OF c] install_apps_length[OF apps] show ?thesis
    by (auto simp: simple_sized_def default_delimiters_def s len k_def)
qed

section \<open>Updates\<close>

text \<open>C15: Whenever the event loop executes an update, the data is what one of the processed messages has
  after its header, and the simulation time is the time stamp of this message minus the
  reference time: the data of the server takes effect exactly when the server says.\<close>

theorem updates_are_on_time:
  assumes "gateway_host S cal valid P H" and "gw_reachable S cal valid P H s0 s"
    and "s_main s = Main_Run" and "sim_next S (s_world s) = Some (GatewayHandleUpdate data, w)"
  shows "\<exists>m fs. m \<in> set (s_forwarded s) \<and> split_fields (m_delimiterField (s_gw s)) m = Some fs \<and>
    message_time fs = Inr (m_timeStart (s_gw s) + sim_now S w) \<and> data = drop 2 fs \<and>
    0 \<le> m_timeStart (s_gw s)"
  using gateway_host.update_carried[OF assms, of data] by (auto simp: message_carried_def)

text \<open>A message of the server among those of a whole run.\<close>

lemma server_message_carried:
  assumes "unat (timeStart cfg) + unat (timeDelta cfg) * unat (iterations cfg) < 2 ^ 31"
    and "length sts = unat (iterations cfg)"
    and "message_carried '' '' ms T data" and "set ms \<subseteq> set (server_bodies cfg sts @ [''-1 0''])"
  shows "\<exists>j < length sts. T = Seconds (uint (timeStart cfg) + uint (timeDelta cfg) * int j) \<and>
    data = server_data (numberOfNodes cfg) (sts ! j)"
proof -
  from assms(3) obtain m fs where m: "m \<in> set ms" "split_fields '' '' m = Some fs" "message_time fs = Inr T"
    "data = drop 2 fs" and T: "0 \<le> T" by (auto simp: message_carried_def)
  have "m \<noteq> ''-1 0''" using m(2,3) T terminate_fields by (auto simp: Seconds_def)
  with m(1) assms(4) have "m \<in> set (server_bodies cfg sts)" by auto
  then obtain j where j: "j < length sts" "m = server_bodies cfg sts ! j"
    by (auto simp: in_set_conv_nth server_bodies_def)
  then have fs: "fs = server_fields (numberOfNodes cfg) (server_time cfg (of_nat j)) (sts ! j)"
    using m(2) server_body_fields by (simp add: server_bodies_def)
  have "message_time fs = Inr (Seconds (uint (timeStart cfg) + uint (timeDelta cfg) * int j))"
    using server_bodies_fields[OF assms(1,2) j(1)] m(2) j(2) by simp
  with j(1) m(3,4) fs show ?thesis by (auto simp: server_fields_def)
qed

text \<open>The reference time is the time stamp of the server's first message.\<close>

lemma reference_time:
  assumes "times_kept g ts" and "0 \<le> m_timeStart g" and "prefix ts (map f [0..<n])"
  shows "m_timeStart g = f 0"
proof -
  from assms(1,2) have ne: "ts \<noteq> []" and h: "m_timeStart g = hd ts" by (auto simp: times_kept_def split: if_splits)
  from assms(3) obtain us where us: "map f [0..<n] = ts @ us" by (auto simp: prefix_def)
  with ne have "0 < n" by (cases n) auto
  then have "hd (map f [0..<n]) = f 0" by (simp add: hd_map)
  with us ne h show ?thesis by simp
qed

text \<open>The next update of a gateway that has got a part of the server's bytes is for one of its turns.\<close>

lemma next_update_of_turn:
  assumes cfg: "timeDelta cfg \<noteq> 0" "unat (timeStart cfg) + unat (timeDelta cfg) * unat (iterations cfg) < 2 ^ 31"
    and len: "length sts = unat (iterations cfg)"
    and fr: "frames CRLF stream = (server_bodies cfg sts @ [''-1 0''], [])"
    and host: "gateway_host S cal valid P H" and r: "gw_reachable S cal valid P H s0 s"
    and dd: "default_delimiters (s_gw s0)" and part: "prefix (s_received s) stream"
    and m: "s_main s = Main_Run" and nx: "sim_next S (s_world s) = Some (GatewayHandleUpdate data, w)"
  obtains j where "j < length sts" and "sim_now S w = Seconds (uint (timeDelta cfg) * int j)"
    and "data = server_data (numberOfNodes cfg) (sts ! j)"
proof -
  let ?g = "s_gw s" and ?f = "\<lambda>j. Seconds (uint (timeStart cfg) + uint (timeDelta cfg) * int j)"
  note served = served_prefix[OF host r dd part]
  then have part: "prefix (s_forwarded s) (server_bodies cfg sts @ [''-1 0''])"
    unfolding fr fst_conv by (blast dest: append_prefixD)
  note stamps = served_stamps[OF cfg(2) len part]
  have inc: "increasing_stamps s" unfolding increasing_stamps_def served(1) by (rule stamps(2)[OF cfg(1)])
  have carried: "0 \<le> m_timeStart ?g" "message_carried '' '' (s_forwarded s) (m_timeStart ?g + sim_now S w) data"
    using gateway_host.update_carried[OF host r m nx, of data] by (simp_all add: served(1))
  have kept: "times_kept ?g (time_stamps '' '' (s_forwarded s))"
    using gateway_host.reachable_paced[OF host r _ inc] m by (simp add: sys_paced_def served(1))
  have start: "m_timeStart ?g = ?f 0" by (rule reference_time[OF kept carried(1) stamps(1)])
  from server_message_carried[OF cfg(2) len carried(2) set_mono_prefix[OF part]] obtain j where
    j: "j < length sts" "m_timeStart ?g + sim_now S w = ?f j" "data = server_data (numberOfNodes cfg) (sts ! j)"
    by blast
  have "sim_now S w = Seconds (uint (timeDelta cfg) * int j)"
    using j(2) unfolding start by (simp add: Seconds_def algebra_simps)
  with j(1,3) that show ?thesis by blast
qed

text \<open>An update with the data of a turn succeeds and moves the vehicles.\<close>

lemma update_of_turn_succeeds:
  fixes S :: "('x simple_event callback, 'w) sim_ops"
  assumes host: "gateway_host S cal valid P (simple_host S P V N ev)"
    and r: "gw_reachable S cal valid P (simple_host S P V N ev) s0 s"
    and dd: "default_delimiters (s_gw s0)" and sized: "simple_sized (unat nodes) (s_user s0) (s_gw s0)"
    and V: "v_neq V = (\<noteq>)" and m: "s_main s = Main_Run" and conn: "m_state (s_gw s) = CONNECTED"
    and nx: "sim_next S (s_world s) = Some (GatewayHandleUpdate (server_data nodes st), w)"
  shows "\<exists>s'. gw_step S P (simple_host S P V N ev) s L_Event s' \<and> s_main s' = Main_Run \<and>
    sg_mobility (s_user s') =
      map (\<lambda>i. \<lparr>m_position = v_make V (uint (xPosition st ! i)) (int i) 0,
                m_velocity = v_make V (uint (xVelocity st ! i)) 0 0\<rparr>) [0..<unat nodes]"
proof -
  let ?H = "simple_host S P V N ev" and ?g = "s_gw s" and ?data = "server_data nodes st"
  obtain sock where sock: "m_socket ?g = Some sock" using gateway_host.reachable_socket[OF host r] by blast
  from HandleUpdate_calls[of S "do_update ?H" ?data "s_user s" ?g w] obtain i w1 where
    h: "HandleUpdate S (do_update ?H) ?data (s_user s, ?g, w) =
      do_update ?H ?data (s_user s, ?g\<lparr>m_eventWait := i\<rparr>, w1)" by blast
  define g1 where "g1 = ?g\<lparr>m_eventWait := i\<rparr>"
  have g1: "m_data g1 = m_data ?g" "m_state g1 = m_state ?g" "m_socket g1 = m_socket ?g"
    "m_delimiterField g1 = m_delimiterField ?g" "m_delimiterMessage g1 = m_delimiterMessage ?g"
    by (simp_all add: g1_def)
  have "simple_sized (unat nodes) (s_user s) g1"
    using reachable_sized[OF r sized] simple_sized_cong[OF g1(1), of _ "s_user s"] by simp
  moreover have "default_delimiters g1"
    using gateway_host.reachable_delimiters[OF host r] dd g1(4,5) by (simp add: default_delimiters_def)
  moreover have "m_state g1 = CONNECTED" "m_socket g1 = Some sock" using g1 conn sock by simp_all
  ultimately obtain u' g' w' where
    d: "DoUpdate S P V ?data (s_user s, g1, w1) = Inr (u', g', w')" and
    u': "sg_mobility u' = map (\<lambda>i. \<lparr>m_position = v_make V (uint (xPosition st ! i)) (int i) 0,
        m_velocity = v_make V (uint (xVelocity st ! i)) 0 0\<rparr>) [0..<unat nodes]"
    using DoUpdate_server_data[OF V, of nodes "s_user s" g1 sock S P st w1] by fastforce
  let ?s' = "main_event S P ?H (GatewayHandleUpdate ?data) (s\<lparr>s_world := w\<rparr>)"
  have "dispatch S ?H (GatewayHandleUpdate ?data) (s_user s, ?g, w) = Inr (u', g', w')"
    using h d by (simp add: dispatch_def simple_host_def g1_def)
  then have "s_main ?s' = Main_Run" "s_user ?s' = u'" using m by (simp_all add: main_event_def)
  with u' gw_step.run[OF m nx, of P ?H] show ?thesis by blast
qed

text \<open>C14: The two programs of the example together, with any number of vehicles and in every interleaving:
  the next update that the gateway executes is for one of the turns of this very run of the server:
  for some \<open>j\<close> it comes at the simulation time \<open>timeDelta * j\<close>, its data is made of the server's
  variables as they are after \<open>j\<close> turns (\<open>server_turns\<close>, from the initial variables and with the
  same random numbers), it succeeds, and after it every vehicle has the position and the velocity
  that the server's variables have then. From turn to turn the variables change as \<open>vehicle_moved\<close>
  says. (The delimiters and the numbers that are assumed for the start are those of \<open>main\<close>, by
  \<open>simple_main_sized\<close>.)\<close>

theorem vehicles_move_on_schedule:
  assumes "server_client R sent" and "sent v = []" and "positionDeltaX cfg \<noteq> 0"
    and "iterations cfg \<noteq> 0" and "timeDelta cfg \<noteq> 0"
    and "unat (timeStart cfg) + unat (timeDelta cfg) * unat (iterations cfg) < 2 ^ 31"
    and "server_main R cfg v = Inr (st', v')"
    and "gateway_host S cal valid P (simple_host S P V N ev)"
    and "gw_reachable S cal valid P (simple_host S P V N ev) s0 s"
    and "default_delimiters (s_gw s0)" and "simple_sized (unat (numberOfNodes cfg)) (s_user s0) (s_gw s0)"
    and "prefix (s_received s) (concat (sent v'))" and "v_neq V = (\<noteq>)"
    and "s_main s = Main_Run" and "m_state (s_gw s) = CONNECTED"
    and "sim_next S (s_world s) = Some (GatewayHandleUpdate data, w)"
  shows "\<exists>sts j s'. length sts = unat (iterations cfg) \<and>
    (\<forall>k < length sts. \<exists>w1. server_turns R cfg 0 k (server_init (numberOfNodes cfg), v) = Some (sts ! k, w1)) \<and>
    turn_states cfg 0 sts \<and> j < length sts \<and> sim_now S w = Seconds (uint (timeDelta cfg) * int j) \<and>
    data = server_data (numberOfNodes cfg) (sts ! j) \<and>
    gw_step S P (simple_host S P V N ev) s L_Event s' \<and> s_main s' = Main_Run \<and>
    sg_mobility (s_user s') =
      map (\<lambda>i. \<lparr>m_position = v_make V (uint (xPosition (sts ! j) ! i)) (int i) 0,
                m_velocity = v_make V (uint (xVelocity (sts ! j) ! i)) 0 0\<rparr>) [0..<unat (numberOfNodes cfg)]"
proof -
  from server_run_frames[OF assms(1-4)] assms(7) obtain sts where
    len: "length sts = unat (iterations cfg)" and
    at: "states_of_turns R cfg 0 (server_init (numberOfNodes cfg), v) sts" and sts: "turn_states cfg 0 sts" and
    fr: "frames CRLF (concat (sent v')) = (server_bodies cfg sts @ [''-1 0''], [])"
    by (metis Inr_inject prod.inject)
  obtain j where j: "j < length sts" "sim_now S w = Seconds (uint (timeDelta cfg) * int j)"
    "data = server_data (numberOfNodes cfg) (sts ! j)"
    by (rule next_update_of_turn[OF assms(5,6) len fr assms(8,9,10,12,14,16)])
  from update_of_turn_succeeds[OF assms(8-11,13-15) assms(16)[unfolded j(3)]] obtain s' where
    "gw_step S P (simple_host S P V N ev) s L_Event s'" "s_main s' = Main_Run"
    "sg_mobility (s_user s') = map (\<lambda>i. \<lparr>m_position = v_make V (uint (xPosition (sts ! j) ! i)) (int i) 0,
        m_velocity = v_make V (uint (xVelocity (sts ! j) ! i)) 0 0\<rparr>) [0..<unat (numberOfNodes cfg)]" by blast
  with len at[unfolded states_of_turns_def] sts j show ?thesis by blast
qed

section \<open>One vehicle\<close>

text \<open>
  The gateway with one vehicle gets the two messages of a run of the server with two iterations;
  the first one is processed, the update of the second one is pending.
\<close>

definition one_start :: ref_sys where
  "one_start = ref_start\<lparr>s_user := one_vehicle, s_gw := one_gateway\<rparr>"

definition one_labels :: "gw_label list" where
  "one_labels = thread_starts @
     [L_Recv (Received (''0 0 0 0 0 0 0 0 0'' @ CRLF @ ''1 0 1 0 0 1 0 0 1'' @ CRLF))] @
     thread_message @ thread_message @ [L_Thread, L_Event, L_Event, L_Event, L_Event]"

lemma one_start_initial: "gw_initial ref_sim ref_cal ref_ok ref_os one_start"
proof -
  let ?g0 = "\<lparr>m_context = 0, m_eventWait = None, m_eventDestroy = None, m_state = CREATED,
     m_timeStart = Seconds (-1), m_timePause = Seconds 0, m_socket = None, m_thread = False,
     m_messageQueue = [], m_delimiterField = '' '', m_delimiterMessage = CRLF,
     m_messageBuffer = [], m_data = [[]]\<rparr>"
  let ?w0 = "ref_init 0 :: ref_callback ref_world"
  have n: "Gateway_new ref_sim 1 '' '' CRLF ?w0 = Inr ?g0"
    by (simp add: Gateway_new_def ref_sim_simps CRLF_def)
  have v: "ref_ok (s_user one_start) ?w0"
    by (simp add: simple_valid_def one_start_def one_vehicle_def apps_own_def app_own_def
      TriggeredSendApplication_new_def MilliSeconds_def)
  have e: "\<forall>v \<in> set (cal_events (ref_cal ?w0)). \<not> gateway_callback (ev_call v)"
    "\<forall>v \<in> set (cal_destroy (ref_cal ?w0)). \<not> gateway_callback (snd v)"
    by (simp_all add: ref_cal_def ref_init_def)
  have c: "Connect ref_sim ref_os ''127.0.0.1'' 8000 (?g0\<lparr>m_data := [[]]\<rparr>, ?w0) =
      Inr (s_gw one_start, s_world one_start)"
    by (simp add: Connect_def ref_eval one_start_def one_gateway_def ref_start_def ref_gateway_def ref_connected_def)
  show ?thesis
    unfolding gw_initial_def
  proof (intro conjI exI)
    show "Gateway_new ref_sim 1 '' '' CRLF ?w0 = Inr ?g0" by (rule n)
  qed (use v e c in \<open>simp_all add: one_start_def ref_start_def\<close>)
qed

lemma one_fields:
  "split_fields '' '' ''0 0 0 0 0 0 0 0 0'' = Some [''0'', ''0'', ''0'', ''0'', ''0'', ''0'', ''0'', ''0'', ''0'']"
  "split_fields '' '' ''1 0 1 0 0 1 0 0 1'' = Some [''1'', ''0'', ''1'', ''0'', ''0'', ''1'', ''0'', ''0'', ''1'']"
  by (simp_all add: split_fields_def split_loop.simps)

lemma one_times:
  "message_time [''0'', ''0'', ''0'', ''0'', ''0'', ''0'', ''0'', ''0'', ''0''] = Inr (Seconds 0)"
  "message_time [''1'', ''0'', ''1'', ''0'', ''0'', ''1'', ''0'', ''0'', ''1''] = Inr (Seconds 1)"
  "stoi ''0'' = Inr 0" "to_string 2 = ''2''" "find_sub '' '' ''2'' = None" "find_sub CRLF ''2'' = None"
  by code_simp+

lemma one_labels_run:
  "\<exists>s w. gw_execs ref_sim ref_os ref_host one_labels one_start = Some s \<and>
    s_received s = ''0 0 0 0 0 0 0 0 0'' @ CRLF @ ''1 0 1 0 0 1 0 0 1'' @ CRLF \<and>
    s_main s = Main_Run \<and> m_state (s_gw s) = CONNECTED \<and>
    sim_next ref_sim (s_world s) = Some (GatewayHandleUpdate [''1'', ''0'', ''0'', ''1'', ''0'', ''0'', ''1''], w) \<and>
    sim_now ref_sim w = Seconds 1"
  by (simp add: ref_eval one_labels_def one_start_def one_gateway_def one_vehicle_def one_fields one_times
     update_vehicle_def vector_at_def stoi_at_def ELEMENTS_PER_VEHICLE_def int_vectors_def)

theorem vehicles_move_on_schedule_witness:
  "\<exists>s s'. gw_execs ref_sim ref_os ref_host one_labels one_start = Some s \<and>
     gw_step ref_sim ref_os ref_host s L_Event s' \<and> s_main s' = Main_Run \<and>
     sg_mobility (s_user s') = [\<lparr>m_position = (1, 0, 0), m_velocity = (1, 0, 0)\<rparr>]"
proof -
  obtain s w where s: "gw_execs ref_sim ref_os ref_host one_labels one_start = Some s"
    "s_received s = ''0 0 0 0 0 0 0 0 0'' @ CRLF @ ''1 0 1 0 0 1 0 0 1'' @ CRLF"
    "s_main s = Main_Run" "m_state (s_gw s) = CONNECTED"
    "sim_next ref_sim (s_world s) = Some (GatewayHandleUpdate [''1'', ''0'', ''0'', ''1'', ''0'', ''0'', ''1''], w)"
    "sim_now ref_sim w = Seconds 1" using one_labels_run by blast
  have run: "server_main ref_server short_run ([0, 0], []) =
     Inr (\<lparr>xVelocity = [1], xPosition = [1], broadcast = [1]\<rparr>, ([],
       [''0 0 0 0 0 0 0 0 0'' @ CRLF, ''1 0 1 0 0 1 0 0 1'' @ CRLF, ''-1 0'' @ CRLF]))"
    by code_simp
  have cfg: "snd ([0 :: nat, 0], [] :: string list) = []" "positionDeltaX short_run \<noteq> 0"
    "iterations short_run \<noteq> 0" "timeDelta short_run \<noteq> 0"
    "unat (timeStart short_run) + unat (timeDelta short_run) * unat (iterations short_run) < 2 ^ 31"
    and one: "unat (numberOfNodes short_run) = 1" "uint (timeDelta short_run) = 1" "unat (iterations short_run) = 2"
    by (simp_all add: short_run_def server_defaults_def)
  have r: "gw_reachable ref_sim ref_cal ref_ok ref_os ref_host one_start s"
    by (rule gw_execs_reachable[OF gw_reachable.start[OF one_start_initial] s(1)])
  have dd: "default_delimiters (s_gw one_start)" "simple_sized (unat (numberOfNodes short_run)) (s_user one_start) (s_gw one_start)"
    using one_vehicle_ok(1,2) by (simp_all add: one_start_def one)
  have pre: "prefix (s_received s) (concat (snd ([] :: nat list,
       [''0 0 0 0 0 0 0 0 0'' @ CRLF, ''1 0 1 0 0 1 0 0 1'' @ CRLF, ''-1 0'' @ CRLF])))"
    unfolding s(2) by simp
  from vehicles_move_on_schedule[where R = ref_server and sent = snd and v = "([0, 0], [])",
      OF ref_server.server_client_axioms cfg run ref_host_ok r dd pre one_vehicle_ok(5) s(3-5)]
  obtain sts j s' where v: "length sts = 2"
    "\<forall>k < length sts. \<exists>w1. server_turns ref_server short_run 0 k (server_init (numberOfNodes short_run), ([0, 0], [])) =
       Some (sts ! k, w1)" "sim_now ref_sim w = Seconds (int j)"
    "gw_step ref_sim ref_os ref_host s L_Event s'" "s_main s' = Main_Run"
    "sg_mobility (s_user s') = map (\<lambda>i. \<lparr>m_position = v_make int_vectors (uint (xPosition (sts ! j) ! i)) (int i) 0,
        m_velocity = v_make int_vectors (uint (xVelocity (sts ! j) ! i)) 0 0\<rparr>) [0..<1]"
    unfolding one by auto
  have j: "j = 1" using s(6) v(3) by (simp add: Seconds_def)
  have "server_turns ref_server short_run 0 1 (server_init (numberOfNodes short_run), ([0, 0], [])) =
       Some (\<lparr>xVelocity = [1], xPosition = [1], broadcast = [1]\<rparr>, ([], [''0 0 0 0 0 0 0 0 0'' @ CRLF]))"
    by code_simp
  moreover have "1 < length sts" using v(1) by simp
  note v(2)[rule_format, OF this]
  ultimately have "sts ! 1 = \<lparr>xVelocity = [1], xPosition = [1], broadcast = [1]\<rparr>"
    by (metis option.inject prod.inject)
  then have "sg_mobility (s_user s') = [\<lparr>m_position = (1, 0, 0), m_velocity = (1, 0, 0)\<rparr>]"
    using v(6) unfolding j by (simp add: int_vectors_def)
  with s(1) v(4,5) show ?thesis by blast
qed

theorem updates_are_on_time_witness:
  "\<exists>s. gw_execs ref_sim ref_os ref_host one_labels one_start = Some s \<and>
     (\<exists>m fs. m \<in> set (s_forwarded s) \<and> split_fields (m_delimiterField (s_gw s)) m = Some fs \<and>
        message_time fs = Inr (m_timeStart (s_gw s) + Seconds 1) \<and>
        drop 2 fs = [''1'', ''0'', ''0'', ''1'', ''0'', ''0'', ''1''])"
proof -
  obtain s w where s: "gw_execs ref_sim ref_os ref_host one_labels one_start = Some s"
    "s_main s = Main_Run"
    "sim_next ref_sim (s_world s) = Some (GatewayHandleUpdate [''1'', ''0'', ''0'', ''1'', ''0'', ''0'', ''1''], w)"
    "sim_now ref_sim w = Seconds 1" using one_labels_run by blast
  from updates_are_on_time[OF ref_host_ok gw_execs_reachable[OF gw_reachable.start[OF one_start_initial] s(1)] s(2,3)]
    s(1,4) show ?thesis by metis
qed

end
