(* ===== verification/Closed_Loop.thy ===== *)
theory Closed_Loop
  imports Server_Steps Simple_Connection Gateway_Shutdown Cosim_Run
begin

text \<open>
  The server and the gateway of the examples in a closed loop: the bytes that one sends are what the
  other receives. The connection is a reliable stream of bytes in each direction, as TCP is, that
  delivers any part of what is in transit at a time; the two threads of the gateway and the server
  run in any order.
\<close>

section \<open>The two programs and the connection\<close>

text \<open>\<open>cs_read\<close> is the number of bytes of the responses that the server has received.\<close>

record ('u, 'w, 'v) cosim =
  cs_gw :: "('u, 'w) gw_sys"
  cs_server :: "server_pc \<times> server_state \<times> 'v"
  cs_read :: nat

definition to_gateway :: "('v \<Rightarrow> string list) \<Rightarrow> ('u, 'w, 'v) cosim \<Rightarrow> string" where
  "to_gateway sent c = drop (length (s_received (cs_gw c))) (concat (sent (snd (snd (cs_server c)))))"

definition to_server :: "('w \<Rightarrow> string list) \<Rightarrow> ('u, 'w, 'v) cosim \<Rightarrow> string" where
  "to_server outbox c = drop (cs_read c) (concat (outbox (s_world (cs_gw c))))"

text \<open>
  The connection is closed when the server has ended, and from the other side when \<open>Stop\<close> has
  closed the socket or the program of the gateway has failed.
\<close>

definition server_ended :: "server_pc \<Rightarrow> bool" where
  "server_ended pc = (case pc of Sv_Done \<Rightarrow> True | Sv_Failed _ \<Rightarrow> True | _ \<Rightarrow> False)"

definition gateway_ended :: "('u, 'w) gw_sys \<Rightarrow> bool" where
  "gateway_ended s \<longleftrightarrow> m_state (s_gw s) = STOPPING \<and> \<not> m_thread (s_gw s) \<or> \<not> main_alive s"

text \<open>What \<open>recv\<close> can return in the gateway: a part of the bytes in transit, or the end after all of them.\<close>

definition gateway_input :: "('v \<Rightarrow> string list) \<Rightarrow> ('u, 'w, 'v) cosim \<Rightarrow> gw_label \<Rightarrow> bool" where
  "gateway_input sent c l =
     (case l of
        L_Recv (Received bs) \<Rightarrow> prefix bs (to_gateway sent c)
      | L_Recv Closed \<Rightarrow> server_ended (fst (cs_server c)) \<and> to_gateway sent c = []
      | L_Recv Failed \<Rightarrow> False
      | _ \<Rightarrow> True)"

datatype cosim_label = Gateway_step gw_label | Server_send | Server_recv nat | Server_eof

text \<open>
  One step, which the label determines. The number of a \<open>Server_recv\<close> is how many bytes \<open>recv\<close>
  returns, at most \<open>BUFFER_SIZE - 1\<close> (the two programs have the same buffer size); if \<open>whole\<close>, it
  returns all that has been sent.
\<close>

definition cosim_exec ::
    "('x callback, 'w) sim_ops \<Rightarrow> 'w os_ops \<Rightarrow> ('x, 'u, 'w) gw_host \<Rightarrow> 'v server_ops \<Rightarrow> server_config \<Rightarrow>
     ('v \<Rightarrow> string list) \<Rightarrow> ('w \<Rightarrow> string list) \<Rightarrow> bool \<Rightarrow> cosim_label \<Rightarrow>
     ('u, 'w, 'v) cosim \<Rightarrow> ('u, 'w, 'v) cosim option" where
  "cosim_exec S P H R cfg sent outbox whole l c =
     (case l of
        Gateway_step gl \<Rightarrow>
          (if gateway_input sent c gl
           then map_option (\<lambda>g. c\<lparr>cs_gw := g\<rparr>) (gw_exec S P H gl (cs_gw c)) else None)
      | Server_send \<Rightarrow>
          (case fst (cs_server c) of
             Sv_Send _ \<Rightarrow> map_option (\<lambda>s. c\<lparr>cs_server := s\<rparr>) (server_step R cfg Closed (cs_server c))
           | _ \<Rightarrow> None)
      | Server_recv n \<Rightarrow>
          (case fst (cs_server c) of
             Sv_Recv _ \<Rightarrow>
               (if 0 < n \<and> n \<le> length (to_server outbox c) \<and> n < BUFFER_SIZE \<and>
                   (whole \<longrightarrow> n = length (to_server outbox c))
                then map_option (\<lambda>s. c\<lparr>cs_server := s, cs_read := cs_read c + n\<rparr>)
                       (server_step R cfg (Received (take n (to_server outbox c))) (cs_server c))
                else None)
           | _ \<Rightarrow> None)
      | Server_eof \<Rightarrow>
          (case fst (cs_server c) of
             Sv_Recv _ \<Rightarrow>
               (if to_server outbox c = [] \<and> gateway_ended (cs_gw c)
                then map_option (\<lambda>s. c\<lparr>cs_server := s\<rparr>) (server_step R cfg Closed (cs_server c))
                else None)
           | _ \<Rightarrow> None))"

fun cosim_execs ::
    "('x callback, 'w) sim_ops \<Rightarrow> 'w os_ops \<Rightarrow> ('x, 'u, 'w) gw_host \<Rightarrow> 'v server_ops \<Rightarrow> server_config \<Rightarrow>
     ('v \<Rightarrow> string list) \<Rightarrow> ('w \<Rightarrow> string list) \<Rightarrow> bool \<Rightarrow> cosim_label list \<Rightarrow>
     ('u, 'w, 'v) cosim \<Rightarrow> ('u, 'w, 'v) cosim option" where
  "cosim_execs S P H R cfg sent outbox whole [] c = Some c"
| "cosim_execs S P H R cfg sent outbox whole (l # ls) c =
     (case cosim_exec S P H R cfg sent outbox whole l c of
        None \<Rightarrow> None | Some c' \<Rightarrow> cosim_execs S P H R cfg sent outbox whole ls c')"

text \<open>The gateway has connected and the server has accepted the connection; nothing has been sent.\<close>

definition cosim_initial ::
    "('x callback, 'w) sim_ops \<Rightarrow> ('w \<Rightarrow> 'x callback calendar) \<Rightarrow> ('u \<Rightarrow> 'w \<Rightarrow> bool) \<Rightarrow> 'w os_ops \<Rightarrow>
     server_config \<Rightarrow> ('v \<Rightarrow> string list) \<Rightarrow> ('w \<Rightarrow> string list) \<Rightarrow> ('u, 'w, 'v) cosim \<Rightarrow> bool" where
  "cosim_initial S cal valid P cfg sent outbox c \<longleftrightarrow>
     gw_initial S cal valid P (cs_gw c) \<and> default_delimiters (s_gw (cs_gw c)) \<and>
     outbox (s_world (cs_gw c)) = [] \<and> cs_read c = 0 \<and>
     (\<exists>v. cs_server c = (Sv_Send 0, server_init (numberOfNodes cfg), v) \<and> sent v = [])"

inductive cosim_reachable ::
    "('x callback, 'w) sim_ops \<Rightarrow> ('w \<Rightarrow> 'x callback calendar) \<Rightarrow> ('u \<Rightarrow> 'w \<Rightarrow> bool) \<Rightarrow> 'w os_ops \<Rightarrow>
     ('x, 'u, 'w) gw_host \<Rightarrow> 'v server_ops \<Rightarrow> server_config \<Rightarrow> ('v \<Rightarrow> string list) \<Rightarrow>
     ('w \<Rightarrow> string list) \<Rightarrow> bool \<Rightarrow> ('u, 'w, 'v) cosim \<Rightarrow> ('u, 'w, 'v) cosim \<Rightarrow> bool"
  for S cal valid P H R cfg sent outbox whole where
  start: "cosim_initial S cal valid P cfg sent outbox c \<Longrightarrow>
    cosim_reachable S cal valid P H R cfg sent outbox whole c c"
| step: "cosim_reachable S cal valid P H R cfg sent outbox whole c0 c \<Longrightarrow>
    cosim_exec S P H R cfg sent outbox whole l c = Some c' \<Longrightarrow>
    cosim_reachable S cal valid P H R cfg sent outbox whole c0 c'"

lemma cosim_execs_reachable:
  "cosim_reachable S cal valid P H R cfg sent outbox whole c0 c \<Longrightarrow>
   cosim_execs S P H R cfg sent outbox whole ls c = Some c' \<Longrightarrow>
   cosim_reachable S cal valid P H R cfg sent outbox whole c0 c'"
proof (induction ls arbitrary: c)
  case (Cons l ls)
  then obtain c1 where "cosim_exec S P H R cfg sent outbox whole l c = Some c1"
    "cosim_execs S P H R cfg sent outbox whole ls c1 = Some c'" by (auto split: option.splits)
  with Cons cosim_reachable.step show ?case by blast
qed simp

text \<open>The four kinds of steps.\<close>

lemma cosim_exec_cases:
  assumes "cosim_exec S P H R cfg sent outbox whole l c = Some c'"
  obtains (gateway) gl g where "gateway_input sent c gl" "gw_step S P H (cs_gw c) gl g" "c' = c\<lparr>cs_gw := g\<rparr>"
  | (send) i st v s where "cs_server c = (Sv_Send i, st, v)"
      "server_step R cfg Closed (Sv_Send i, st, v) = Some s" "c' = c\<lparr>cs_server := s\<rparr>"
  | (recv) i st v n s where "cs_server c = (Sv_Recv i, st, v)" "0 < n" "n \<le> length (to_server outbox c)"
      "whole \<longrightarrow> n = length (to_server outbox c)"
      "server_step R cfg (Received (take n (to_server outbox c))) (Sv_Recv i, st, v) = Some s"
      "c' = c\<lparr>cs_server := s, cs_read := cs_read c + n\<rparr>"
  | (eof) i st v s where "cs_server c = (Sv_Recv i, st, v)" "gateway_ended (cs_gw c)"
      "server_step R cfg Closed (Sv_Recv i, st, v) = Some s" "c' = c\<lparr>cs_server := s\<rparr>"
proof -
  obtain pc st v where cs: "cs_server c = (pc, st, v)" by (cases "cs_server c")
  show thesis
  proof (cases l)
    case (Gateway_step gl)
    with assms show thesis
      by (auto simp: cosim_exec_def dest!: gw_exec_step split: if_splits intro: gateway)
  next
    case Server_send
    with assms cs show thesis by (auto simp: cosim_exec_def split: server_pc.splits intro: send)
  next
    case (Server_recv n)
    with assms cs show thesis
      by (auto simp: cosim_exec_def split: server_pc.splits if_splits intro: recv)
  next
    case Server_eof
    with assms cs show thesis by (auto simp: cosim_exec_def split: server_pc.splits if_splits intro: eof)
  qed
qed

lemma cosim_gateway_reachable:
  "cosim_reachable S cal valid P H R cfg sent outbox whole c0 c \<Longrightarrow>
   gw_reachable S cal valid P H (cs_gw c0) (cs_gw c)"
proof (induction rule: cosim_reachable.induct)
  case (start c)
  then show ?case by (auto simp: cosim_initial_def intro: gw_reachable.start)
next
  case (step c0 c l c')
  from step.hyps(2) show ?case
  proof (cases rule: cosim_exec_cases)
    case (gateway gl g)
    with gw_reachable.step[OF step.IH] show ?thesis by simp
  qed (use step.IH in simp_all)
qed

end
