(* ===== verification/Served_Gateway.thy ===== *)
theory Served_Gateway
  imports Cosim_Run Gateway_Shutdown
begin

text \<open>
  The gateway on any first part of what the example's server sends: \<open>ForwardUp\<close> accepts the next
  message, and the updates of the example succeed while the gateway is connected.
\<close>

section \<open>The messages of some turns\<close>

text \<open>\<open>sts\<close> are the states of the first turns of a run, all of whose times are below \<open>2 ^ 31\<close> seconds.\<close>

definition turns_ok :: "server_config \<Rightarrow> server_state list \<Rightarrow> bool" where
  "turns_ok cfg sts \<longleftrightarrow> length sts \<le> unat (iterations cfg) \<and> timeDelta cfg \<noteq> 0 \<and>
     unat (timeStart cfg) + unat (timeDelta cfg) * unat (iterations cfg) < 2 ^ 31"

definition turn_stamp :: "server_config \<Rightarrow> nat \<Rightarrow> time" where
  "turn_stamp cfg j = Seconds (uint (timeStart cfg) + uint (timeDelta cfg) * int j)"

lemma turns_config:
  assumes "turns_ok cfg sts"
  obtains cfg' where "timeStart cfg' = timeStart cfg" and "timeDelta cfg' = timeDelta cfg"
    and "numberOfNodes cfg' = numberOfNodes cfg" and "length sts = unat (iterations cfg')"
    and "unat (timeStart cfg') + unat (timeDelta cfg') * unat (iterations cfg') < 2 ^ 31"
    and "server_bodies cfg' sts = server_bodies cfg sts"
proof -
  define n where "n = length sts"
  define cfg' where "cfg' = cfg\<lparr>iterations := of_nat n\<rparr>"
  have le: "n \<le> unat (iterations cfg)" using assms by (simp add: turns_ok_def n_def)
  then have "n < 2 ^ 32" using unsigned_less[of "iterations cfg", where ?'a = nat] by simp
  then have u: "unat (iterations cfg') = n" by (simp add: cfg'_def unat_of_nat take_bit_eq_mod)
  have "unat (timeDelta cfg) * n \<le> unat (timeDelta cfg) * unat (iterations cfg)" using le by simp
  then have "unat (timeStart cfg) + unat (timeDelta cfg) * n < 2 ^ 31"
    using assms unfolding turns_ok_def by linarith
  then show ?thesis
    using u by (intro that[of cfg']) (simp_all add: cfg'_def n_def server_bodies_def server_time_def)
qed

lemma turns_stamps:
  assumes "turns_ok cfg sts" and "prefix ms (server_bodies cfg sts @ [''-1 0''])"
  shows "prefix (time_stamps '' '' ms) (map (turn_stamp cfg) [0..<length sts])"
    and "sorted_wrt (<) (time_stamps '' '' ms)"
proof -
  obtain cfg' where c: "timeStart cfg' = timeStart cfg" "timeDelta cfg' = timeDelta cfg"
    "numberOfNodes cfg' = numberOfNodes cfg" "length sts = unat (iterations cfg')"
    "unat (timeStart cfg') + unat (timeDelta cfg') * unat (iterations cfg') < 2 ^ 31"
    "server_bodies cfg' sts = server_bodies cfg sts" by (rule turns_config[OF assms(1)])
  note s = served_stamps[OF c(5,4) assms(2)[folded c(6)]]
  from s(1) show "prefix (time_stamps '' '' ms) (map (turn_stamp cfg) [0..<length sts])"
    by (simp add: c(1,2) turn_stamp_def cong: map_cong)
  from s(2) assms(1) show "sorted_wrt (<) (time_stamps '' '' ms)" by (simp add: c(2) turns_ok_def)
qed

lemma turns_all_stamps:
  assumes "turns_ok cfg sts"
  shows "time_stamps '' '' (server_bodies cfg sts) = map (turn_stamp cfg) [0..<length sts]"
proof -
  obtain cfg' where c: "timeStart cfg' = timeStart cfg" "timeDelta cfg' = timeDelta cfg"
    "numberOfNodes cfg' = numberOfNodes cfg" "length sts = unat (iterations cfg')"
    "unat (timeStart cfg') + unat (timeDelta cfg') * unat (iterations cfg') < 2 ^ 31"
    "server_bodies cfg' sts = server_bodies cfg sts" by (rule turns_config[OF assms(1)])
  from server_time_stamps[OF c(5,4)] show ?thesis
    by (simp add: c(1,2,6) terminate_stamps turn_stamp_def cong: map_cong)
qed

text \<open>Each message of a turn has its time stamp, in every part of the messages.\<close>

lemma turns_queue_stamps:
  assumes "turns_ok cfg sts" and "ms @ q = server_bodies cfg sts"
  shows "length (time_stamps '' '' q) = length q"
proof -
  have "length (time_stamps '' '' ms) + length (time_stamps '' '' q) = length ms + length q"
    using arg_cong[OF turns_all_stamps[OF assms(1), folded assms(2)], of length] arg_cong[OF assms(2), of length]
    by (simp add: server_bodies_def)
  with stamps_length[of "'' ''" ms] stamps_length[of "'' ''" q] show ?thesis by linarith
qed

lemma turns_fields:
  assumes "turns_ok cfg sts" and "j < length sts"
  shows "\<exists>fs. split_fields '' '' (server_bodies cfg sts ! j) = Some fs \<and> message_time fs = Inr (turn_stamp cfg j)"
proof -
  obtain cfg' where c: "timeStart cfg' = timeStart cfg" "timeDelta cfg' = timeDelta cfg"
    "numberOfNodes cfg' = numberOfNodes cfg" "length sts = unat (iterations cfg')"
    "unat (timeStart cfg') + unat (timeDelta cfg') * unat (iterations cfg') < 2 ^ 31"
    "server_bodies cfg' sts = server_bodies cfg sts" by (rule turns_config[OF assms(1)])
  from server_bodies_fields[OF c(5,4) assms(2)] show ?thesis by (auto simp: c turn_stamp_def)
qed

lemma turns_carried:
  assumes "turns_ok cfg sts" and "message_carried '' '' ms T data"
    and "set ms \<subseteq> set (server_bodies cfg sts @ [''-1 0''])"
  shows "\<exists>j < length sts. data = server_data (numberOfNodes cfg) (sts ! j)"
proof -
  obtain cfg' where c: "timeStart cfg' = timeStart cfg" "timeDelta cfg' = timeDelta cfg"
    "numberOfNodes cfg' = numberOfNodes cfg" "length sts = unat (iterations cfg')"
    "unat (timeStart cfg') + unat (timeDelta cfg') * unat (iterations cfg') < 2 ^ 31"
    "server_bodies cfg' sts = server_bodies cfg sts" by (rule turns_config[OF assms(1)])
  from server_message_carried[OF c(5,4) assms(2) assms(3)[folded c(6)]] c(3) show ?thesis by auto
qed

lemma turn_stamp_bounds:
  assumes "turns_ok cfg sts" and "j < length sts"
  shows "0 \<le> turn_stamp cfg j" and "turn_stamp cfg j < 2 ^ 62"
proof -
  have "j \<le> unat (iterations cfg)" using assms by (simp add: turns_ok_def)
  then have "unat (timeDelta cfg) * j \<le> unat (timeDelta cfg) * unat (iterations cfg)" by simp
  then have "unat (timeStart cfg) + unat (timeDelta cfg) * j < 2 ^ 31"
    using assms(1) unfolding turns_ok_def by linarith
  then have "int (unat (timeStart cfg) + unat (timeDelta cfg) * j) < int (2 ^ 31)" by (simp only: of_nat_less_iff)
  then have "uint (timeStart cfg) + uint (timeDelta cfg) * int j < 2 ^ 31" by simp
  then show "turn_stamp cfg j < 2 ^ 62" by (simp add: turn_stamp_def Seconds_def)
  show "0 \<le> turn_stamp cfg j" by (simp add: turn_stamp_def Seconds_def)
qed

section \<open>ForwardUp\<close>

text \<open>A message later than all before it, with the clock at or before the granted time, is accepted.\<close>

context gateway_platform begin

lemma process_message_later:
  assumes v: "valid w" and T: "0 \<le> T" "T < 2 ^ 62"
    and kept: "times_kept g ts" and later: "sorted_wrt (<) (ts @ [T])"
    and now: "0 \<le> sim_now S w" "sim_now S w \<le> m_timePause g \<or> sim_now S w = 0"
    and own: "wait_owned (m_eventWait g) (cal w)"
  shows "\<exists>g' w'. process_message S T vs (g, w) = Inr (g', w')"
proof (cases "ts = []")
  case True
  then have "m_timeStart g < 0" using kept by (simp add: times_kept_def)
  with T(1) show ?thesis by (auto simp: process_message_def split: prod.splits)
next
  case False
  then have k: "m_timeStart g = hd ts" "0 \<le> hd ts" "m_timePause g = last ts - hd ts"
    using kept by (simp_all add: times_kept_def)
  have lt: "last ts < T" by (rule sorted_wrt_snoc_last[OF later False])
  obtain x xs where ts: "ts = x # xs" using False by (cases ts) auto
  with later have "\<forall>y \<in> set xs. x < y" by simp
  then have le: "hd ts \<le> last ts" using last_in_set[of xs] by (auto simp: ts less_imp_le)
  have r: "in_int64 (T - m_timeStart g)" "in_int64 (T - m_timeStart g - sim_now S w)"
    using T now k lt le by (auto simp: in_int64_def)
  have used: "\<forall>i. m_eventWait g = Some i \<longrightarrow> i \<in> cal_used (cal w)" using own by (simp add: wait_owned_def)
  have "\<not> T - m_timeStart g < sim_now S w" using k lt le now by auto
  with process_message_normal[OF v T(1) _ r used, of vs] k(1,2) show ?thesis by auto
qed

end

context gateway_host begin

lemma reachable_start_valid:
  assumes "gw_reachable S cal valid P H s0 s"
  shows "valid (s_user s0) (s_world s0)"
proof -
  note i = reachable_initial[OF assms]
  then have "s_main s0 = Main_Run" by (auto simp: gw_initial_def)
  with reachable_facts(1)[OF gw_reachable.start[OF i]] show ?thesis by simp
qed

lemma served_ForwardUp:
  assumes r: "gw_reachable S cal valid P H s0 s" and m: "s_main s = Main_Run"
    and nx: "sim_next S (s_world s) = Some (GatewayForwardUp, w)" and t0: "sim_now S (s_world s0) = 0"
    and d: "m_delimiterField (s_gw s) = '' ''" and ok: "turns_ok cfg sts"
    and pre: "prefix (s_forwarded s @ m_messageQueue (s_gw s)) (server_bodies cfg sts @ [''-1 0''])"
    and conn: "m_state (s_gw s) = CONNECTED \<or> length sts \<le> length (time_stamps '' '' (s_forwarded s))"
  shows "\<exists>g' w'. ForwardUp S (s_gw s, w) = Inr (g', w')"
proof -
  let ?g = "s_gw s" and ?ts = "time_stamps '' '' (s_forwarded s)"
  have alive: "\<forall>f. s_main s \<noteq> Main_Failed f" using m by simp
  from reachable_facts(1,2)[OF r alive] have v: "valid (s_user s) (s_world s)"
    and gok: "gw_ok (sim_now S (s_world s0)) (forward_extra (s_thread s)) ?g (cal (s_world s))" by blast+
  from sim_next_event[OF v nx] have nk: "cal_next (cal (s_world s)) = Some (GatewayForwardUp, cal w)" by blast
  from host_popped[OF v gok nx] have v': "valid (s_user s) w" and
    pop: "gw_popped (sim_now S (s_world s0)) (forward_extra (s_thread s)) GatewayForwardUp ?g (cal w)" by blast+
  from pop obtain msg q where q: "m_messageQueue ?g = msg # q"
    by (cases "m_messageQueue ?g") (auto simp: gw_popped_def)
  let ?k = "length (s_forwarded s)"
  have pre1: "prefix (s_forwarded s @ [msg]) (server_bodies cfg sts @ [''-1 0''])"
    using pre q by (auto simp: prefix_def)
  then obtain zs where "server_bodies cfg sts @ [''-1 0''] = s_forwarded s @ msg # zs"
    by (auto simp: prefix_def)
  then have msg: "msg = (server_bodies cfg sts @ [''-1 0'']) ! ?k" by simp
  have k: "?k \<le> length sts" using prefix_length_le[OF pre1] by (simp add: server_bodies_def)
  note p = turns_stamps[OF ok append_prefixD[OF pre1]] turns_stamps[OF ok pre1]
  let ?g1 = "?g\<lparr>m_messageQueue := q\<rparr>"
  show ?thesis
  proof (cases "?k < length sts")
    case False
    with k msg have "msg = ''-1 0''" by (simp add: nth_append server_bodies_def)
    then show ?thesis
      using q d terminate_fields by (simp add: ForwardUp_def process_message_def Seconds_def)
  next
    case True
    with msg have "msg = server_bodies cfg sts ! ?k" by (simp add: nth_append server_bodies_def)
    with turns_fields[OF ok True] obtain fs where
      fs: "split_fields '' '' msg = Some fs" "message_time fs = Inr (turn_stamp cfg ?k)" by auto
    let ?T = "turn_stamp cfg ?k"
    note T = turn_stamp_bounds[OF ok True]
    have st: "time_stamps '' '' (s_forwarded s @ [msg]) = ?ts @ [?T]"
      using fs T(1) by (simp add: time_stamps_one message_stamp_def)
    from prefix_length_le[OF p(3)] st have "Suc (length ?ts) \<le> length sts" by simp
    with conn have c: "m_state ?g = CONNECTED" by simp
    have inc: "increasing_stamps s" using p(2) by (simp add: increasing_stamps_def d)
    from reachable_paced[OF r alive inc] have kept: "times_kept ?g1 ?ts"
      by (simp add: sys_paced_def times_kept_def d)
    have il: "in_loop s" using m by (simp add: in_loop_def)
    from r have "valid (s_user s0) (s_world s0)" by (rule reachable_start_valid)
    then have "0 \<le> cal_now (cal (s_world s))" using reachable_clock[OF r il] t0 by (simp add: sim_time)
    then have now0: "0 \<le> sim_now S w" using cal_next_now[OF sim_ok[OF v] nk] by (simp add: sim_time[OF v'])
    have now1: "sim_now S w \<le> m_timePause ?g1 \<or> sim_now S w = 0"
      using pop c t0 by (auto simp: gw_popped_def sim_time[OF v'])
    have own: "wait_owned (m_eventWait ?g1) (cal w)" using pop by (simp add: gw_popped_def)
    from gateway_platform.process_message_later[OF platform v' T kept p(4)[unfolded st] now0 now1 own, of "drop 2 fs"]
    show ?thesis using q d fs by (simp add: ForwardUp_def)
  qed
qed

end

section \<open>The updates\<close>

text \<open>
  The last hypothesis is that the gateway is connected; the numbers and the delimiters are those of
  \<open>main\<close>, by \<open>simple_main_sized\<close>.
\<close>

lemma served_update:
  assumes h: "gateway_host S cal valid P (simple_host S P V N ev)"
    and r: "gw_reachable S cal valid P (simple_host S P V N ev) s0 s" and m: "s_main s = Main_Run"
    and nx: "sim_next S (s_world s) = Some (c, w)"
    and c: "c = GatewayHandleUpdate data \<or> c = GatewayDoInitialize data"
    and s0: "default_delimiters (s_gw s0)" "simple_sized (unat (numberOfNodes cfg)) (s_user s0) (s_gw s0)"
    and V: "v_neq V = (\<noteq>)" and ok: "turns_ok cfg sts"
    and pre: "prefix (s_forwarded s) (server_bodies cfg sts @ [''-1 0''])"
    and conn: "m_state (s_gw s) = CONNECTED"
  shows "\<exists>u g' w'. dispatch S (simple_host S P V N ev) c (s_user s, s_gw s, w) = Inr (u, g', w')"
proof -
  let ?g = "s_gw s"
  have dd: "default_delimiters ?g"
    using gateway_host.reachable_delimiters[OF h r] s0(1) by (simp add: default_delimiters_def)
  then have d: "m_delimiterField ?g = '' ''" by (simp add: default_delimiters_def)
  from gateway_host.update_carried[OF h r m nx, of data] c obtain T where
    "message_carried '' '' (s_forwarded s) T data" unfolding d by blast
  from turns_carried[OF ok this set_mono_prefix[OF pre]] obtain j where
    data: "data = server_data (numberOfNodes cfg) (sts ! j)" by blast
  obtain sock where sock: "m_socket ?g = Some sock" using gateway_host.reachable_socket[OF h r] by blast
  have sz: "simple_sized (unat (numberOfNodes cfg)) (s_user s) ?g" by (rule reachable_sized[OF r s0(2)])
  have upd: "\<exists>u g' w'. DoUpdate S P V data (s_user s, ?g\<lparr>m_eventWait := i\<rparr>, w1) = Inr (u, g', w')" for i w1
  proof -
    have "simple_sized (unat (numberOfNodes cfg)) (s_user s) (?g\<lparr>m_eventWait := i\<rparr>)"
      using sz by (simp add: simple_sized_def)
    moreover have "default_delimiters (?g\<lparr>m_eventWait := i\<rparr>)" "m_state (?g\<lparr>m_eventWait := i\<rparr>) = CONNECTED"
      "m_socket (?g\<lparr>m_eventWait := i\<rparr>) = Some sock"
      using dd conn sock by (simp_all add: default_delimiters_def)
    ultimately show ?thesis
      using DoUpdate_server_data[OF V, of "numberOfNodes cfg" "s_user s" "?g\<lparr>m_eventWait := i\<rparr>" sock S P "sts ! j" w1]
      unfolding data by blast
  qed
  have same: "?g = ?g\<lparr>m_eventWait := m_eventWait ?g\<rparr>" by simp
  from c show ?thesis
  proof
    assume "c = GatewayHandleUpdate data"
    with HandleUpdate_calls[of S "DoUpdate S P V" data "s_user s" ?g w] upd show ?thesis
      by (auto simp: dispatch_def simple_host_def)
  next
    assume "c = GatewayDoInitialize data"
    with upd[of "m_eventWait ?g" w] show ?thesis by (simp add: dispatch_def simple_host_def DoInitialize_def)
  qed
qed

end
