(* ===== verification/Closed_Loop_Properties.thy ===== *)
theory Closed_Loop_Properties
  imports Closed_Loop Served_Gateway
begin

text \<open>
  The properties of the closed loop: the two programs run in lock step if the server gets whole
  responses, and then no function of the gateway fails; if a response arrives in two parts, the
  server ends the co-simulation too early.
\<close>

section \<open>The stream of the server\<close>

lemma stream_messages:
  "turn_messages cfg 0 sts @ [terminate_message] = map (\<lambda>m. m @ CRLF) (server_bodies cfg sts @ [''-1 0''])"
  unfolding server_bodies_def turn_messages_nth
  by (simp add: server_message_def terminate_message_def CRLF_def comp_def)

lemma stream_frames:
  "frames CRLF (concat (turn_messages cfg 0 sts @ [terminate_message])) = (server_bodies cfg sts @ [''-1 0''], [])"
proof -
  have framed: "\<forall>m \<in> set (server_bodies cfg sts @ [''-1 0'']). find_sub CRLF (m @ CRLF) = Some (length m)"
    using server_body_framed by (auto simp: server_bodies_def CRLF_def)
  have "frames CRLF (concat (map (\<lambda>m. m @ CRLF) (server_bodies cfg sts @ [''-1 0''])) @ []) =
      (server_bodies cfg sts @ [''-1 0''], [])"
    by (subst frames_messages[OF _ framed]) (simp_all add: CRLF_def frames_None)
  then show ?thesis by (simp only: stream_messages append_Nil2)
qed

lemma turn_frames: "frames CRLF (concat (turn_messages cfg 0 sts)) = (server_bodies cfg sts, [])"
proof -
  have framed: "\<forall>m \<in> set (server_bodies cfg sts). find_sub CRLF (m @ CRLF) = Some (length m)"
    using server_body_framed by (auto simp: server_bodies_def CRLF_def)
  have "turn_messages cfg 0 sts = map (\<lambda>m. m @ CRLF) (server_bodies cfg sts)"
    unfolding server_bodies_def turn_messages_nth by (simp add: server_message_def CRLF_def comp_def)
  moreover have "frames CRLF (concat (map (\<lambda>m. m @ CRLF) (server_bodies cfg sts)) @ []) = (server_bodies cfg sts, [])"
    by (subst frames_messages[OF _ framed]) (simp_all add: CRLF_def frames_None)
  ultimately show ?thesis by simp
qed

lemma server_inv_stream:
  "server_inv sent cfg sts ended (pc, st, v) \<Longrightarrow>
   prefix (concat (sent v)) (concat (turn_messages cfg 0 sts @ [terminate_message]))"
  by (auto simp: server_inv_def prefix_def)

lemma stamps_bounded:
  assumes "prefix ms (server_bodies cfg sts @ [''-1 0''])"
  shows "length (time_stamps '' '' ms) \<le> length sts"
proof -
  have "prefix (time_stamps '' '' ms) (time_stamps '' '' (server_bodies cfg sts))"
    using time_stamps_prefix[OF assms, of "'' ''"] by (simp add: terminate_stamps)
  from prefix_length_le[OF this]
  have "length (time_stamps '' '' ms) \<le> length (time_stamps '' '' (server_bodies cfg sts))" .
  also have "\<dots> \<le> length (server_bodies cfg sts)"
    unfolding time_stamps_def map_filter_def by (rule le_trans[OF length_filter_le]) simp
  finally show ?thesis by (simp add: server_bodies_def)
qed

section \<open>Lock step\<close>

text \<open>
  The state of the two programs when the server only gets whole responses. \<open>sts\<close> are the states of
  the turns that have begun, \<open>ended\<close> says whether the terminate message has been sent.
\<close>

definition loop_inv ::
    "('w \<Rightarrow> 'x callback calendar) \<Rightarrow> ('v \<Rightarrow> string list) \<Rightarrow> ('w \<Rightarrow> string list) \<Rightarrow> server_config \<Rightarrow>
     server_state list \<Rightarrow> bool \<Rightarrow> ('u, 'w, 'v) cosim \<Rightarrow> bool" where
  "loop_inv cal sent outbox cfg sts ended c \<longleftrightarrow>
     (let pc = fst (cs_server c); out = outbox (s_world (cs_gw c)) in
      server_inv sent cfg sts ended (cs_server c) \<and>
      prefix (s_received (cs_gw c)) (concat (sent (snd (snd (cs_server c))))) \<and>
      (case pc of
         Sv_Send i \<Rightarrow> length out = length sts \<and> cs_read c = length (concat out)
       | Sv_Recv i \<Rightarrow> unat i \<le> length out \<and> cs_read c = length (concat (take (unat i) out))
       | _ \<Rightarrow> length sts \<le> Suc (length out) \<and> (ended \<longrightarrow> length out = length sts)) \<and>
      (in_loop (cs_gw c) \<longrightarrow>
         (pc = Sv_Done \<longrightarrow> length out = length sts) \<and> (stop_sign cal (cs_gw c) \<longrightarrow> pc = Sv_Done)))"

locale closed_loop = gateway_answers S cal valid P H outbox + server_link R sent
  for S :: "('x callback, 'w) sim_ops" and cal :: "'w \<Rightarrow> 'x callback calendar"
    and valid :: "'u \<Rightarrow> 'w \<Rightarrow> bool" and P :: "'w os_ops" and H :: "('x, 'u, 'w) gw_host"
    and outbox :: "'w \<Rightarrow> string list" and R :: "'v server_ops" and sent :: "'v \<Rightarrow> string list"
begin

text \<open>There are never more responses than messages.\<close>

lemma responses_bounded:
  assumes r: "gw_reachable S cal valid P H s0 s" and s0: "default_delimiters (s_gw s0)" "outbox (s_world s0) = []"
    and rec: "prefix (s_received s) (concat (sent v))" and inv: "server_inv sent cfg sts ended (pc, st, v)"
  shows "prefix (s_forwarded s @ m_messageQueue (s_gw s)) (server_bodies cfg sts @ [''-1 0''])"
    and "m_delimiterField (s_gw s) = '' ''"
    and "length (outbox (s_world s)) \<le> length (time_stamps '' '' (s_forwarded s))"
    and "length (time_stamps '' '' (s_forwarded s)) \<le> length sts"
proof -
  have "prefix (s_received s) (concat (turn_messages cfg 0 sts @ [terminate_message]))"
    using rec server_inv_stream[OF inv] by (rule prefix_order.trans)
  note served = served_prefix[OF gateway_host_axioms r s0(1) this]
  from served(2) show p: "prefix (s_forwarded s @ m_messageQueue (s_gw s)) (server_bodies cfg sts @ [''-1 0''])"
    unfolding stream_frames by simp
  show d: "m_delimiterField (s_gw s) = '' ''" by (rule served(1))
  from reachable_bounded[OF r] s0(2) d
  show "length (outbox (s_world s)) \<le> length (time_stamps '' '' (s_forwarded s))" by simp
  from stamps_bounded[OF append_prefixD[OF p]]
  show "length (time_stamps '' '' (s_forwarded s)) \<le> length sts" .
qed

lemma gw_step_received:
  assumes step: "gw_step S P H s l s'" and ok: "sys_ok cal valid t0 s"
  shows "s_received s' = s_received s @ (case l of L_Recv (Received bs) \<Rightarrow> bs | _ \<Rightarrow> [])"
  using step
proof (cases rule: gw_step.cases)
  case thread
  then show ?thesis
    by (auto simp: thread_step_def Let_def split: thread_pc.splits option.splits if_splits)
next
  case (recv d r)
  then show ?thesis by (auto simp: thread_step_def split: recv_result.splits)
next
  case (join b d)
  with main_join_frame[of s S P b] show ?thesis by (simp add: main_frame_def)
next
  case run_end
  then show ?thesis by simp
next
  case (run c w)
  have "s_received (main_event S P H c (s\<lparr>s_world := w\<rparr>)) = s_received s"
    by (auto simp: main_event_def main_stop_def Let_def split: sum.splits prod.splits)
  with run show ?thesis by simp
next
  case (destroy c w)
  have "s_received (main_event S P H c (s\<lparr>s_world := w\<rparr>)) = s_received s"
    by (auto simp: main_event_def main_stop_def Let_def split: sum.splits prod.splits)
  with destroy show ?thesis by simp
qed

lemma prefix_drop: "prefix xs ys \<Longrightarrow> prefix zs (drop (length xs) ys) \<Longrightarrow> prefix (xs @ zs) ys"
  by (auto simp: prefix_def)

lemma loop_gateway:
  assumes r: "gw_reachable S cal valid P H s0 (cs_gw c)"
    and s0: "default_delimiters (s_gw s0)" "outbox (s_world s0) = []"
    and inv: "loop_inv cal sent outbox cfg sts ended c" and inp: "gateway_input sent c l"
    and step: "gw_step S P H (cs_gw c) l g"
  shows "loop_inv cal sent outbox cfg sts ended (c\<lparr>cs_gw := g\<rparr>)"
proof -
  obtain pc st v where cs: "cs_server c = (pc, st, v)" by (cases "cs_server c")
  note ok = reachable_ok[OF r]
  let ?o = "outbox (s_world (cs_gw c))" and ?o' = "outbox (s_world g)"
  from inv cs have sv: "server_inv sent cfg sts ended (pc, st, v)"
    and rec: "prefix (s_received (cs_gw c)) (concat (sent v))"
    by (simp_all add: loop_inv_def Let_def)
  have rec': "prefix (s_received g) (concat (sent v))"
    unfolding gw_step_received[OF step ok] using rec inp cs
    by (auto simp: gateway_input_def to_gateway_def split: gw_label.splits recv_result.splits intro: prefix_drop)
  from responses_bounded(3,4)[OF gw_reachable.step[OF r step] s0 rec' sv]
  have le: "length ?o' \<le> length sts" by simp
  from gw_step_answered(1)[OF step ok] obtain ms where ms: "?o' = ?o @ ms" by (auto simp: prefix_def)
  have pc: "case pc of
         Sv_Send i \<Rightarrow> length ?o' = length sts \<and> cs_read c = length (concat ?o')
       | Sv_Recv i \<Rightarrow> unat i \<le> length ?o' \<and> cs_read c = length (concat (take (unat i) ?o'))
       | _ \<Rightarrow> length sts \<le> Suc (length ?o') \<and> (ended \<longrightarrow> length ?o' = length sts)"
    using inv le ms by (cases pc) (auto simp: loop_inv_def Let_def cs)
  have lp: "(pc = Sv_Done \<longrightarrow> length ?o' = length sts) \<and> (stop_sign cal g \<longrightarrow> pc = Sv_Done)" if l: "in_loop g"
  proof -
    from inv cs gw_step_in_loop[OF step l] have
      old: "pc = Sv_Done \<longrightarrow> length ?o = length sts" "stop_sign cal (cs_gw c) \<longrightarrow> pc = Sv_Done"
      by (simp_all add: loop_inv_def Let_def)
    have "pc = Sv_Done" if st: "stop_sign cal g"
    proof (cases "l = L_Recv Closed \<or> l = L_Recv Failed")
      case True
      with inp cs sv show ?thesis
        by (auto simp: gateway_input_def server_ended_def server_inv_def split: server_pc.splits)
    next
      case False
      with gw_step_steady[OF step ok l] st old(2) show ?thesis by (simp add: steady_def)
    qed
    with old(1) le ms show ?thesis by auto
  qed
  show ?thesis using sv rec' pc lp by (cases pc) (simp_all add: loop_inv_def Let_def cs)
qed

text \<open>The server sends a message, receives a response, or finds the connection closed.\<close>

lemma loop_send:
  assumes inv: "loop_inv cal sent outbox cfg sts ended c" and pc: "cs_server c = (Sv_Send i, st, v)"
    and step: "server_step R cfg Closed (Sv_Send i, st, v) = Some s"
  shows "\<exists>sts' ended'. loop_inv cal sent outbox cfg sts' ended' (c\<lparr>cs_server := s\<rparr>)"
proof -
  let ?o = "outbox (s_world (cs_gw c))"
  obtain pc' st' v' where s: "s = (pc', st', v')" by (cases s)
  from inv pc have sv: "server_inv sent cfg sts ended (Sv_Send i, st, v)"
    and rec: "prefix (s_received (cs_gw c)) (concat (sent v))"
    and len: "length ?o = length sts" "cs_read c = length (concat ?o)"
    and lp: "in_loop (cs_gw c) \<longrightarrow> \<not> stop_sign cal (cs_gw c)"
    by (simp_all add: loop_inv_def Let_def)
  note ss = server_step_send[OF sv step[unfolded s]]
  show ?thesis
  proof (cases "iterations cfg \<le> i")
    case True
    with ss have d: "s = (Sv_Done, st, v)" "server_inv sent cfg sts ended (Sv_Done, st, v)"
      by (auto simp: s)
    with rec len lp have "loop_inv cal sent outbox cfg sts ended (c\<lparr>cs_server := s\<rparr>)"
      by (simp add: loop_inv_def Let_def)
    then show ?thesis by blast
  next
    case False
    with ss have n: "pc' = Sv_Recv i" "server_inv sent cfg (sts @ [st]) False (pc', st', v')" by auto
    then have "unat i = length sts" "sent v' = turn_messages cfg 0 (sts @ [st])"
      by (simp_all add: server_inv_def)
    moreover have "prefix (concat (sent v)) (concat (turn_messages cfg 0 (sts @ [st])))"
      using sv n(2) False by (auto simp: server_inv_def turn_messages_snoc prefix_def split: if_splits)
    ultimately have "loop_inv cal sent outbox cfg (sts @ [st]) False (c\<lparr>cs_server := s\<rparr>)"
      using n s rec len lp prefix_order.trans[OF rec] by (simp add: loop_inv_def Let_def)
    then show ?thesis by blast
  qed
qed

lemma loop_recv:
  assumes rg: "gw_reachable S cal valid P H s0 (cs_gw c)" and cfg: "positionDeltaX cfg \<noteq> 0"
    and s0: "default_delimiters (s_gw s0)" "outbox (s_world s0) = []"
    and inv: "loop_inv cal sent outbox cfg sts ended c" and pc: "cs_server c = (Sv_Recv i, st, v)"
    and n: "0 < n" "n = length (to_server outbox c)"
    and step: "server_step R cfg (Received bs) (Sv_Recv i, st, v) = Some s"
  shows "\<exists>sts' ended'. loop_inv cal sent outbox cfg sts' ended' (c\<lparr>cs_server := s, cs_read := cs_read c + n\<rparr>)"
proof -
  let ?o = "outbox (s_world (cs_gw c))"
  obtain pc' st' v' where s: "s = (pc', st', v')" by (cases s)
  from inv pc have sv: "server_inv sent cfg sts ended (Sv_Recv i, st, v)"
    and rec: "prefix (s_received (cs_gw c)) (concat (sent v))"
    and len: "unat i \<le> length ?o" "cs_read c = length (concat (take (unat i) ?o))"
    and lp: "in_loop (cs_gw c) \<longrightarrow> \<not> stop_sign cal (cs_gw c)"
    by (simp_all add: loop_inv_def Let_def)
  from server_step_recv[OF sv cfg step[unfolded s]] have
    t: "pc' = Sv_Send (i + 1)" "length sts = Suc (unat i)"
      "server_inv sent cfg sts (i = iterations cfg - 1) (pc', st', v')" by blast+
  have le: "length ?o \<le> length sts"
    using responses_bounded(3,4)[OF rg s0 rec sv] by simp
  have "unat i \<noteq> length ?o" using n len by (auto simp: to_server_def)
  then have o: "length ?o = length sts" using len(1) le t(2) by simp
  have "concat ?o = concat (take (unat i) ?o) @ concat (drop (unat i) ?o)"
    by (metis append_take_drop_id concat_append)
  then have rd: "cs_read c + n = length (concat ?o)" using n(2) len(2) by (simp add: to_server_def)
  have "prefix (concat (sent v)) (concat (sent v'))"
    using sv t(3) by (auto simp: server_inv_def prefix_def)
  with rec have "prefix (s_received (cs_gw c)) (concat (sent v'))" by (rule prefix_order.trans)
  with t o rd s lp have "loop_inv cal sent outbox cfg sts (i = iterations cfg - 1)
      (c\<lparr>cs_server := s, cs_read := cs_read c + n\<rparr>)"
    by (simp add: loop_inv_def Let_def)
  then show ?thesis by blast
qed

lemma loop_eof:
  assumes inv: "loop_inv cal sent outbox cfg sts ended c" and pc: "cs_server c = (Sv_Recv i, st, v)"
    and e: "gateway_ended (cs_gw c)" and step: "server_step R cfg Closed (Sv_Recv i, st, v) = Some s"
  shows "\<exists>sts' ended'. loop_inv cal sent outbox cfg sts' ended' (c\<lparr>cs_server := s\<rparr>)"
proof -
  obtain pc' st' v' where s: "s = (pc', st', v')" by (cases s)
  from inv pc have sv: "server_inv sent cfg sts ended (Sv_Recv i, st, v)"
    and rec: "prefix (s_received (cs_gw c)) (concat (sent v))"
    and len: "unat i \<le> length (outbox (s_world (cs_gw c)))"
    and lp: "in_loop (cs_gw c) \<longrightarrow> \<not> stop_sign cal (cs_gw c)"
    by (simp_all add: loop_inv_def Let_def)
  from server_step_closed[OF sv step[unfolded s]] have
    n: "pc' = Sv_Done" "server_inv sent cfg sts ended (pc', st', v')" by blast+
  have v': "v' = v" using step s by (auto simp: server_step_def server_after_def)
  have i: "length sts = Suc (unat i)" "\<not> ended" using sv by (simp_all add: server_inv_def)
  have "\<not> in_loop (cs_gw c)"
    using e lp by (auto simp: gateway_ended_def main_alive_iff in_loop_def stop_sign_def)
  with n i s rec len v' have "loop_inv cal sent outbox cfg sts ended (c\<lparr>cs_server := s\<rparr>)"
    by (simp add: loop_inv_def Let_def)
  then show ?thesis by blast
qed

lemma loop_step:
  assumes r: "cosim_reachable S cal valid P H R cfg sent outbox True c0 c" and cfg: "positionDeltaX cfg \<noteq> 0"
    and c0: "cosim_initial S cal valid P cfg sent outbox c0"
    and inv: "loop_inv cal sent outbox cfg sts ended c"
    and step: "cosim_exec S P H R cfg sent outbox True l c = Some c'"
  shows "\<exists>sts' ended'. loop_inv cal sent outbox cfg sts' ended' c'"
proof -
  note rg = cosim_gateway_reachable[OF r]
  have s0: "default_delimiters (s_gw (cs_gw c0))" "outbox (s_world (cs_gw c0)) = []"
    using c0 by (simp_all add: cosim_initial_def)
  from step show ?thesis
  proof (cases rule: cosim_exec_cases)
    case (gateway gl g)
    from loop_gateway[OF rg s0 inv gateway(1,2)] gateway(3) show ?thesis by blast
  next
    case (send i st v s)
    from loop_send[OF inv send(1,2)] show ?thesis unfolding send(3) .
  next
    case (recv i st v n s)
    have "n = length (to_server outbox c)" using recv(4) by simp
    from loop_recv[OF rg cfg s0 inv recv(1,2) this recv(5)] show ?thesis unfolding recv(6) .
  next
    case (eof i st v s)
    from loop_eof[OF inv eof(1,2,3)] show ?thesis unfolding eof(4) .
  qed
qed

lemma loop_reachable:
  assumes "positionDeltaX cfg \<noteq> 0"
  shows "cosim_reachable S cal valid P H R cfg sent outbox True c0 c \<Longrightarrow>
    cosim_initial S cal valid P cfg sent outbox c0 \<and> (\<exists>sts ended. loop_inv cal sent outbox cfg sts ended c)"
proof (induction rule: cosim_reachable.induct)
  case (start c)
  then obtain v where v: "cs_server c = (Sv_Send 0, server_init (numberOfNodes cfg), v)" "sent v = []"
    by (auto simp: cosim_initial_def)
  have g: "gw_initial S cal valid P (cs_gw c)" "outbox (s_world (cs_gw c)) = []" "cs_read c = 0"
    using start by (simp_all add: cosim_initial_def)
  have "s_received (cs_gw c) = []" using g(1) by (auto simp: gw_initial_def)
  with server_inv_start[OF v(2)] v g gw_initial_steady[OF g(1)]
  have "loop_inv cal sent outbox cfg [] False c" by (simp add: loop_inv_def Let_def)
  with start show ?case by blast
next
  case (step c0 c l c')
  from step.IH obtain sts ended where i: "cosim_initial S cal valid P cfg sent outbox c0"
    "loop_inv cal sent outbox cfg sts ended c" by blast
  from loop_step[OF step.hyps(1) assms i step.hyps(2)] i(1) show ?case by blast
qed

end

interpretation ref_loop: closed_loop ref_sim ref_cal "simple_valid ref_cal ref_valid" ref_os
    "simple_host ref_sim ref_os int_vectors ref_net ref_net_event" rw_sent ref_server snd ..

section \<open>Runs without vehicles\<close>

text \<open>Two iterations of the server with no vehicle, and the gateway of \<open>Gateway_Scenarios\<close>.\<close>

definition loop_config :: server_config where
  "loop_config = server_defaults\<lparr>iterations := 2, numberOfNodes := 0\<rparr>"

definition loop_start :: "(ref_user, ref_callback ref_world, nat list \<times> string list) cosim" where
  "loop_start = \<lparr>cs_gw = ref_start, cs_server = (Sv_Send 0, server_init 0, ([], [])), cs_read = 0\<rparr>"

abbreviation (input) loop_execs where
  "loop_execs \<equiv> cosim_execs ref_sim ref_os ref_host ref_server loop_config snd rw_sent"

lemma loop_start_initial: "cosim_initial ref_sim ref_cal ref_ok ref_os loop_config snd rw_sent loop_start"
  using ref_start_initial
  by (simp add: cosim_initial_def loop_start_def loop_config_def default_delimiters_def ref_start_def
      ref_gateway_def ref_connected_def ref_init_def CRLF_def)

lemma loop_start_reachable:
  "cosim_reachable ref_sim ref_cal ref_ok ref_os ref_host ref_server loop_config snd rw_sent whole loop_start loop_start"
  by (rule cosim_reachable.start[OF loop_start_initial])

lemma loop_messages [ref_eval]:
  "server_message 0 0 st = ''0 0'' @ CRLF" "server_message 0 1 st = ''1 0'' @ CRLF"
  "terminate_message = ''-1 0'' @ CRLF"
proof -
  have "to_string 1 = ''1''" by code_simp
  then show "server_message 0 0 st = ''0 0'' @ CRLF" "server_message 0 1 st = ''1 0'' @ CRLF"
    "terminate_message = ''-1 0'' @ CRLF"
    by (simp_all add: server_message_def server_body_def to_string_0 CRLF_def terminate_message_def)
qed

lemma loop_fields [ref_eval]:
  "split_fields '' '' ''0 0'' = Some [''0'', ''0'']" "split_fields '' '' ''1 0'' = Some [''1'', ''0'']"
  by (simp_all add: split_fields_def split_loop.simps)

lemma loop_times [ref_eval]:
  "message_time [''0'', ''0''] = Inr (Seconds 0)" "message_time [''1'', ''0''] = Inr (Seconds 1)"
  by code_simp+

lemma loop_counter [ref_eval]: "\<not> (2 :: u32) \<le> 1" "\<not> (2 :: u32) \<le> 0"
  by (simp_all add: word_le_nat_alt)

lemmas loop_eval = loop_start_def loop_config_def server_defaults_def cosim_exec_def gateway_input_def
  to_gateway_def to_server_def server_ended_def server_step_def server_after_def server_time_def ref_server_def

text \<open>The first message has been answered.\<close>

definition answer_labels :: "cosim_label list" where
  "answer_labels = Server_send # map Gateway_step
     (thread_starts @ [L_Recv (Received (''0 0'' @ CRLF))] @ thread_message @
      [L_Thread, L_Event, L_Event, L_Event, L_Event])"

lemma answer_run:
  "\<exists>c. loop_execs whole answer_labels loop_start = Some c \<and>
    rw_sent (s_world (cs_gw c)) = [CRLF] \<and> s_main (cs_gw c) = Main_Run"
  by (simp add: ref_eval loop_eval answer_labels_def)

section \<open>Each message is answered once\<close>

text \<open>C8: The gateway of the example answers each time-stamped message exactly once: in every state of a run
  that has not failed, the number of these messages that have been processed is the number of the
  responses sent since the start and of the pending updates that will send one; no response is
  sent twice, none without a message.\<close>

theorem each_message_answered_once:
  assumes "simple_connection S cal valid N P ev outbox"
    and "gw_reachable S cal (simple_valid cal valid) P (simple_host S P V N ev) s0 s"
    and "\<forall>f. s_main s \<noteq> Main_Failed f"
  shows "\<exists>responses. outbox (s_world s) = outbox (s_world s0) @ responses \<and>
    length (time_stamps (m_delimiterField (s_gw s)) (s_forwarded s)) =
      length responses + length (filter (\<lambda>v. carries (ev_call v)) (cal_events (cal (s_world s))))"
proof -
  note ans = simple_connection.simple_gateway_answers[OF assms(1)]
  from gateway_answers.reachable_outbox[OF ans assms(2)] obtain ms where
    ms: "outbox (s_world s) = outbox (s_world s0) @ ms" by (auto simp: prefix_def)
  with gateway_answers.reachable_answered[OF ans assms(2,3)] show ?thesis
    by (intro exI[of _ ms]) (simp add: answered_def carrier_count_def carried_events_def)
qed

theorem each_message_answered_once_witness:
  "\<exists>c responses. loop_execs True answer_labels loop_start = Some c \<and>
     rw_sent (s_world (cs_gw c)) = rw_sent (s_world ref_start) @ responses \<and>
     length (time_stamps (m_delimiterField (s_gw (cs_gw c))) (s_forwarded (cs_gw c))) = length responses +
       length (filter (\<lambda>v. carries (ev_call v)) (cal_events (ref_cal (s_world (cs_gw c)))))"
proof -
  obtain c where c: "loop_execs True answer_labels loop_start = Some c" "s_main (cs_gw c) = Main_Run"
    using answer_run[of True] by blast
  have r: "gw_reachable ref_sim ref_cal ref_ok ref_os ref_host ref_start (cs_gw c)"
    using cosim_gateway_reachable[OF cosim_execs_reachable[OF loop_start_reachable c(1)]] by (simp add: loop_start_def)
  have "\<forall>f. s_main (cs_gw c) \<noteq> Main_Failed f" using c(2) by simp
  from each_message_answered_once[OF ref_conn.simple_connection_axioms r this] c(1) show ?thesis by blast
qed

section \<open>The two programs run in lock step\<close>

text \<open>C4: With whole responses the two programs run in lock step, in every interleaving: the server is never
  more than one message ahead of the gateway's responses, at the start of a turn every message has
  been answered, and when the terminate message is sent all turns have been answered. What has
  been sent are the messages of the turns so far.\<close>

theorem closed_loop_lock_step:
  assumes "gateway_answers S cal valid P H outbox" and "server_link R sent" and "positionDeltaX cfg \<noteq> 0"
    and "cosim_reachable S cal valid P H R cfg sent outbox True c0 c"
  shows "\<exists>sts ended.
    sent (snd (snd (cs_server c))) = turn_messages cfg 0 sts @ (if ended then [terminate_message] else []) \<and>
    length sts \<le> unat (iterations cfg) \<and>
    length (outbox (s_world (cs_gw c))) \<le> length sts \<and>
    length sts \<le> length (outbox (s_world (cs_gw c))) + 1 \<and>
    (\<forall>i. fst (cs_server c) = Sv_Send i \<longrightarrow>
       length sts = unat i \<and> length (outbox (s_world (cs_gw c))) = unat i) \<and>
    (ended \<longrightarrow> length (outbox (s_world (cs_gw c))) = unat (iterations cfg))"
proof -
  have loop: "closed_loop S cal valid P H outbox R sent" using assms(1,2) by (rule closed_loop.intro)
  obtain pc st v where cs: "cs_server c = (pc, st, v)" by (cases "cs_server c")
  from closed_loop.loop_reachable[OF loop assms(3,4)] obtain sts ended where
    c0: "cosim_initial S cal valid P cfg sent outbox c0" and
    inv: "loop_inv cal sent outbox cfg sts ended c" by blast
  then have sv: "server_inv sent cfg sts ended (pc, st, v)"
    and rec: "prefix (s_received (cs_gw c)) (concat (sent v))" by (simp_all add: loop_inv_def Let_def cs)
  have s0: "default_delimiters (s_gw (cs_gw c0))" "outbox (s_world (cs_gw c0)) = []"
    using c0 by (simp_all add: cosim_initial_def)
  from closed_loop.responses_bounded(3,4)[OF loop cosim_gateway_reachable[OF assms(4)] s0 rec sv]
  have le: "length (outbox (s_world (cs_gw c))) \<le> length sts" by simp
  show ?thesis
    by (rule exI[of _ sts], rule exI[of _ ended])
      (use inv sv le in \<open>cases pc; auto simp: loop_inv_def server_inv_def Let_def cs\<close>)
qed

theorem closed_loop_lock_step_witness:
  "\<exists>c. loop_execs True answer_labels loop_start = Some c \<and> rw_sent (s_world (cs_gw c)) = [CRLF] \<and>
     (\<exists>sts ended. snd (snd (snd (cs_server c))) =
        turn_messages loop_config 0 sts @ (if ended then [terminate_message] else []) \<and>
        1 \<le> length sts \<and> length sts \<le> 2)"
proof -
  obtain c where c: "loop_execs True answer_labels loop_start = Some c" "rw_sent (s_world (cs_gw c)) = [CRLF]"
    using answer_run[of True] by blast
  have cfg: "positionDeltaX loop_config \<noteq> 0" by (simp add: loop_config_def server_defaults_def)
  from closed_loop_lock_step[OF ref_conn.simple_gateway_answers ref_link.server_link_axioms cfg
      cosim_execs_reachable[OF loop_start_reachable c(1)]] c
  show ?thesis by fastforce
qed

section \<open>No function of the gateway fails\<close>

text \<open>If the next event is an update, then the gateway is connected.\<close>

context closed_loop begin

lemma carrier_connected:
  assumes "positionDeltaX cfg \<noteq> 0" and r: "cosim_reachable S cal valid P H R cfg sent outbox True c0 c"
    and m: "s_main (cs_gw c) = Main_Run" and nx: "sim_next S (s_world (cs_gw c)) = Some (x, w)" and x: "carries x"
  shows "m_state (s_gw (cs_gw c)) = CONNECTED"
proof (rule ccontr)
  let ?s = "cs_gw c"
  assume "m_state (s_gw ?s) \<noteq> CONNECTED"
  note rg = cosim_gateway_reachable[OF r]
  obtain pc st v where cs: "cs_server c = (pc, st, v)" by (cases "cs_server c")
  from loop_reachable[OF assms(1) r] obtain sts ended where
    c0: "cosim_initial S cal valid P cfg sent outbox c0" and
    inv: "loop_inv cal sent outbox cfg sts ended c" by blast
  then have sv: "server_inv sent cfg sts ended (pc, st, v)"
    and rec: "prefix (s_received ?s) (concat (sent v))" by (simp_all add: loop_inv_def Let_def cs)
  have s0: "default_delimiters (s_gw (cs_gw c0))" "outbox (s_world (cs_gw c0)) = []"
    using c0 by (simp_all add: cosim_initial_def)
  note b = responses_bounded[OF rg s0 rec sv]
  have alive: "\<forall>f. s_main ?s \<noteq> Main_Failed f" using m by simp
  have all: "length sts = length (outbox (s_world ?s))"
    using inv m \<open>m_state (s_gw ?s) \<noteq> CONNECTED\<close> by (auto simp: loop_inv_def Let_def cs in_loop_def stop_sign_def)
  have v: "valid (s_user ?s) (s_world ?s)" by (rule reachable_facts(1)[OF rg alive])
  have "carrier_count (cal (s_world ?s)) \<noteq> 0"
    using carrier_count_pop[of "cal (s_world ?s)"] sim_next_event[OF v nx] x by auto
  moreover have "length (time_stamps '' '' (s_forwarded ?s)) = carrier_count (cal (s_world ?s)) + length (outbox (s_world ?s))"
    using reachable_answered[OF rg alive] by (simp add: answered_def s0(2) b(2))
  ultimately show False using all b(4) by simp
qed

end

text \<open>An event of the gateway in the closed loop, started at the time 0.\<close>

lemma loop_event_succeeds:
  assumes "simple_connection S cal valid N P ev outbox" and "server_link R sent"
    and "positionDeltaX cfg \<noteq> 0" and "timeDelta cfg \<noteq> 0"
    and "unat (timeStart cfg) + unat (timeDelta cfg) * unat (iterations cfg) < 2 ^ 31"
    and "v_neq V = (\<noteq>)"
    and "cosim_reachable S cal (simple_valid cal valid) P (simple_host S P V N ev) R cfg sent outbox True c0 c"
    and "sim_now S (s_world (cs_gw c0)) = 0"
    and "simple_sized (unat (numberOfNodes cfg)) (s_user (cs_gw c0)) (s_gw (cs_gw c0))"
    and "s_main (cs_gw c) = Main_Run" and "sim_next S (s_world (cs_gw c)) = Some (x, w)"
    and "gateway_callback x"
  shows "\<exists>g. gw_step S P (simple_host S P V N ev) (cs_gw c) L_Event g \<and> (\<forall>f. s_main g \<noteq> Main_Failed f)"
proof -
  let ?H = "simple_host S P V N ev" and ?valid = "simple_valid cal valid"
  let ?s = "cs_gw c" and ?ts = "time_stamps '' '' (s_forwarded (cs_gw c))"
  have ans: "gateway_answers S cal ?valid P ?H outbox"
    by (rule simple_connection.simple_gateway_answers[OF assms(1)])
  note host = gateway_answers.axioms(1)[OF ans]
  have loop: "closed_loop S cal ?valid P ?H outbox R sent" using ans assms(2) by (rule closed_loop.intro)
  note r = cosim_gateway_reachable[OF assms(7)]
  obtain pc st v where cs: "cs_server c = (pc, st, v)" by (cases "cs_server c")
  from closed_loop.loop_reachable[OF loop assms(3,7)] obtain sts ended where
    c0: "cosim_initial S cal ?valid P cfg sent outbox c0" and
    inv: "loop_inv cal sent outbox cfg sts ended c" by blast
  then have sv: "server_inv sent cfg sts ended (pc, st, v)"
    and rec: "prefix (s_received ?s) (concat (sent v))" by (simp_all add: loop_inv_def Let_def cs)
  have s0: "default_delimiters (s_gw (cs_gw c0))" "outbox (s_world (cs_gw c0)) = []"
    using c0 by (simp_all add: cosim_initial_def)
  note b = closed_loop.responses_bounded[OF loop r s0 rec sv]
  have ok: "turns_ok cfg sts" using sv assms(4,5) by (simp add: turns_ok_def server_inv_def)
  have alive: "\<forall>f. s_main ?s \<noteq> Main_Failed f" using assms(10) by simp
  have conn: "m_state (s_gw ?s) = CONNECTED \<or> length sts = length (outbox (s_world ?s))"
    using inv assms(10) by (auto simp: loop_inv_def Let_def cs in_loop_def stop_sign_def)
  let ?g = "main_event S P ?H x (?s\<lparr>s_world := w\<rparr>)"
  have step: "gw_step S P ?H ?s L_Event ?g" by (rule gw_step.run[OF assms(10,11)])
  have fine: "\<forall>f. s_main ?g \<noteq> Main_Failed f"
    if "\<exists>u g' w'. dispatch S ?H x (s_user ?s, s_gw ?s, w) = Inr (u, g', w')" "x \<noteq> GatewayStop"
    using that assms(10) by (auto simp: main_event_def)
  have carrier: "m_state (s_gw ?s) = CONNECTED" if "carries x"
    using closed_loop.carrier_connected[OF loop assms(3,7,10,11) that] .
  have "\<forall>f. s_main ?g \<noteq> Main_Failed f"
  proof (cases x)
    case GatewayStop
    then show ?thesis using assms(10)
      by (auto simp: main_event_def main_stop_def Let_def split: prod.splits)
  next
    case GatewayForwardUp
    have c: "m_state (s_gw ?s) = CONNECTED \<or> length sts \<le> length ?ts" using conn b(3) by auto
    from gateway_host.served_ForwardUp[OF host r assms(10) assms(11)[unfolded GatewayForwardUp] assms(8)
        b(2) ok b(1) c] fine GatewayForwardUp show ?thesis by (auto simp: dispatch_def)
  next
    case GatewayWaitForNextUpdate
    with fine show ?thesis by (simp add: dispatch_def)
  next
    case (GatewayHandleUpdate d)
    have "m_state (s_gw ?s) = CONNECTED"
      by (rule carrier) (simp add: GatewayHandleUpdate)
    from served_update[OF host r assms(10,11) _ s0(1) assms(9,6) ok append_prefixD[OF b(1)] this] fine
      GatewayHandleUpdate show ?thesis by blast
  next
    case (GatewayDoInitialize d)
    have "m_state (s_gw ?s) = CONNECTED"
      by (rule carrier) (simp add: GatewayDoInitialize)
    from served_update[OF host r assms(10,11) _ s0(1) assms(9,6) ok append_prefixD[OF b(1)] this] fine
      GatewayDoInitialize show ?thesis by blast
  qed (use assms(12) in auto)
  with step show ?thesis by blast
qed

text \<open>The second message has arrived and is about to be processed.\<close>

definition second_labels :: "cosim_label list" where
  "second_labels = answer_labels @ [Server_recv 2, Server_send] @ map Gateway_step
     ([L_Recv (Received (''1 0'' @ CRLF))] @ thread_message @ [L_Thread, L_Event])"

lemma second_run:
  "\<exists>c w. loop_execs True second_labels loop_start = Some c \<and> s_main (cs_gw c) = Main_Run \<and>
    sim_next ref_sim (s_world (cs_gw c)) = Some (GatewayForwardUp, w)"
  by (simp add: ref_eval loop_eval second_labels_def answer_labels_def)

text \<open>C5: The two programs of the example, from their \<open>main\<close> functions on, with whole responses and a
  simulation that starts at the time 0: after any sequence of steps of the server and of the two
  threads of the gateway, the next event of the gateway in the event loop succeeds. \<open>ForwardUp\<close>
  accepts every message, the updates find an active connection, well-formed data and all
  vehicles: the fatal errors of \<open>gateway.cc\<close> and the exceptions of \<open>DoUpdate\<close> are unreachable.\<close>

theorem example_programs_never_fail:
  assumes "simple_connection S cal valid N P ev outbox" and "server_link R sent"
    and "positionDeltaX cfg \<noteq> 0" and "timeDelta cfg \<noteq> 0"
    and "unat (timeStart cfg) + unat (timeDelta cfg) * unat (iterations cfg) < 2 ^ 31"
    and "v_neq V = (\<noteq>)"
    and "valid w0" and "builds_network cal valid create_network" and "builds_network cal valid start_apps"
    and "\<forall>v \<in> set (cal_events (cal w0)). \<not> gateway_callback (ev_call v)"
    and "\<forall>v \<in> set (cal_destroy (cal w0)). \<not> gateway_callback (snd v)"
    and "simple_main S P V N create_network start_apps protocol d (numberOfNodes cfg) addr port w0 = Inr s0"
    and "sim_now S (s_world s0) = 0" and "outbox (s_world s0) = []" and "sent v0 = []"
    and "cosim_execs S P (simple_host S P V N ev) R cfg sent outbox True ls
      \<lparr>cs_gw = s0, cs_server = (Sv_Send 0, server_init (numberOfNodes cfg), v0), cs_read = 0\<rparr> = Some c"
    and "s_main (cs_gw c) = Main_Run" and "sim_next S (s_world (cs_gw c)) = Some (x, w)"
    and "gateway_callback x"
  shows "\<exists>g. gw_step S P (simple_host S P V N ev) (cs_gw c) L_Event g \<and> (\<forall>f. s_main g \<noteq> Main_Failed f)"
proof -
  let ?c0 = "\<lparr>cs_gw = s0, cs_server = (Sv_Send 0, server_init (numberOfNodes cfg), v0), cs_read = 0\<rparr>"
  note sized = simple_main_sized[OF assms(12)]
  have "cosim_initial S cal (simple_valid cal valid) P cfg sent outbox ?c0"
    using simple_main_initial[OF assms(7-12)] sized assms(14,15) by (simp add: cosim_initial_def)
  note r = cosim_execs_reachable[OF cosim_reachable.start[OF this] assms(16)]
  have "sim_now S (s_world (cs_gw ?c0)) = 0"
    "simple_sized (unat (numberOfNodes cfg)) (s_user (cs_gw ?c0)) (s_gw (cs_gw ?c0))"
    using sized assms(13) by simp_all
  from loop_event_succeeds[OF assms(1-6) r this assms(17-19)] show ?thesis .
qed

lemma loop_main:
  "simple_main ref_sim ref_os int_vectors ref_net (\<lambda>w. w) (\<lambda>w. w) ''ns3::UdpSocketFactory'' (1, 255) 0
     ''127.0.0.1'' 8000 (ref_init 0 :: ref_callback ref_world) = Inr ref_start"
  by (simp add: simple_main_def SimpleGateway_new_def vehicle_models_def ref_eval)

theorem example_programs_never_fail_witness:
  "\<exists>c g w. loop_execs True second_labels loop_start = Some c \<and>
     sim_next ref_sim (s_world (cs_gw c)) = Some (GatewayForwardUp, w) \<and>
     gw_step ref_sim ref_os ref_host (cs_gw c) L_Event g \<and> (\<forall>f. s_main g \<noteq> Main_Failed f)"
proof -
  let ?w = "ref_init 0 :: ref_callback ref_world"
  obtain c w where c: "loop_execs True second_labels loop_start = Some c" "s_main (cs_gw c) = Main_Run"
    "sim_next ref_sim (s_world (cs_gw c)) = Some (GatewayForwardUp, w)" using second_run by blast
  have cfg: "positionDeltaX loop_config \<noteq> 0" "timeDelta loop_config \<noteq> 0"
    "unat (timeStart loop_config) + unat (timeDelta loop_config) * unat (iterations loop_config) < 2 ^ 31"
    "v_neq int_vectors = (\<noteq>)" and n: "numberOfNodes loop_config = 0"
    by (simp_all add: loop_config_def server_defaults_def int_vectors_def)
  have b: "builds_network ref_cal ref_valid (\<lambda>w :: ref_callback ref_world. w)"
    by (simp add: builds_network_def gw_effect_refl)
  have e: "ref_valid ?w" "\<forall>v \<in> set (cal_events (ref_cal ?w)). \<not> gateway_callback (ev_call v)"
    "\<forall>v \<in> set (cal_destroy (ref_cal ?w)). \<not> gateway_callback (snd v)"
    by (simp_all add: ref_cal_def ref_init_def ref_valid_def cal_ok_def cal_ids_def)
  have s0: "sim_now ref_sim (s_world ref_start) = 0" "rw_sent (s_world ref_start) = []"
    by (simp_all add: ref_start_def ref_connected_def ref_init_def ref_sim_simps)
  have v0: "snd ([] :: nat list, [] :: string list) = []" by simp
  have x: "gateway_callback (GatewayForwardUp :: ref_callback)" by simp
  from example_programs_never_fail[OF ref_conn.simple_connection_axioms ref_link.server_link_axioms cfg
      e(1) b b e(2,3) loop_main[folded n] s0 v0 _ c(2,3) x, of second_labels] c(1,3)
  show ?thesis by (auto simp: loop_start_def n)
qed

section \<open>A response in two parts\<close>

text \<open>
  The response to the first message reaches the server in two parts; both count as responses.
\<close>

definition split_labels :: "cosim_label list" where
  "split_labels = answer_labels @ [Server_recv 1, Server_send, Server_recv 1, Server_send] @ map Gateway_step
     ([L_Recv (Received (''1 0'' @ CRLF @ ''-1 0'' @ CRLF))] @ thread_message @ thread_message @
      [L_Thread, L_Event, L_Event, L_Event, L_End, L_Event, L_Recv Closed, L_Thread, L_Join])"

text \<open>C38: The server counts each result of \<open>recv\<close> as a response. If a response of two bytes arrives in two
  parts, it sends the terminate message before the last time step has been answered: the gateway
  is stopped by it with the update of that time step pending, which is never executed, and both
  programs end without an error.\<close>

theorem split_response_ends_early:
  "\<exists>c. cosim_reachable ref_sim ref_cal ref_ok ref_os ref_host ref_server loop_config snd rw_sent False loop_start c \<and>
     fst (cs_server c) = Sv_Done \<and>
     snd (snd (snd (cs_server c))) = [''0 0'' @ CRLF, ''1 0'' @ CRLF, ''-1 0'' @ CRLF] \<and>
     s_forwarded (cs_gw c) = [''0 0'', ''1 0'', ''-1 0''] \<and>
     rw_sent (s_world (cs_gw c)) = [CRLF] \<and>
     s_main (cs_gw c) = Main_Destroy \<and> gateway_ended (cs_gw c) \<and>
     (\<exists>e. (e, Seconds 1, GatewayHandleUpdate []) \<in> set (rw_events (s_world (cs_gw c))))"
proof -
  have "\<exists>c. loop_execs False split_labels loop_start = Some c \<and>
     fst (cs_server c) = Sv_Done \<and>
     snd (snd (snd (cs_server c))) = [''0 0'' @ CRLF, ''1 0'' @ CRLF, ''-1 0'' @ CRLF] \<and>
     s_forwarded (cs_gw c) = [''0 0'', ''1 0'', ''-1 0''] \<and>
     rw_sent (s_world (cs_gw c)) = [CRLF] \<and>
     s_main (cs_gw c) = Main_Destroy \<and> gateway_ended (cs_gw c) \<and>
     (\<exists>e. (e, Seconds 1, GatewayHandleUpdate []) \<in> set (rw_events (s_world (cs_gw c))))"
    by (simp add: ref_eval loop_eval split_labels_def answer_labels_def gateway_ended_def)
  with cosim_execs_reachable[OF loop_start_reachable] show ?thesis by blast
qed

section \<open>The server does not wait in vain\<close>

context closed_loop begin

lemma waiting_balance:
  assumes cfg: "positionDeltaX cfg \<noteq> 0" "timeDelta cfg \<noteq> 0"
      "unat (timeStart cfg) + unat (timeDelta cfg) * unat (iterations cfg) < 2 ^ 31"
    and r: "cosim_reachable S cal valid P H R cfg sent outbox True c0 c"
    and pc: "fst (cs_server c) = Sv_Recv i" and alive: "\<forall>f. s_main (cs_gw c) \<noteq> Main_Failed f"
    and t: "s_thread (cs_gw c) = T_Recv d" and all: "to_gateway sent c = []"
  shows "d = [] \<and>
    length (m_messageQueue (s_gw (cs_gw c))) +
    length (filter (\<lambda>v. carries (ev_call v)) (cal_events (cal (s_world (cs_gw c))))) +
    (length (outbox (s_world (cs_gw c))) - unat i) = 1 \<and>
    unat i \<le> length (outbox (s_world (cs_gw c))) \<and>
    length (m_messageQueue (s_gw (cs_gw c))) =
      length (filter (\<lambda>v. ev_call v = GatewayForwardUp) (cal_events (cal (s_world (cs_gw c)))))"
proof -
  let ?s = "cs_gw c" and ?ts = "time_stamps '' ''"
  let ?o = "outbox (s_world ?s)" and ?q = "m_messageQueue (s_gw ?s)"
  note rg = cosim_gateway_reachable[OF r]
  obtain st v where cs: "cs_server c = (Sv_Recv i, st, v)" using pc by (cases "cs_server c") auto
  from loop_reachable[OF cfg(1) r] obtain sts ended where
    c0: "cosim_initial S cal valid P cfg sent outbox c0" and
    inv: "loop_inv cal sent outbox cfg sts ended c" by blast
  then have sv: "server_inv sent cfg sts ended (Sv_Recv i, st, v)"
    and rec: "prefix (s_received ?s) (concat (sent v))" and i: "unat i \<le> length ?o"
    by (simp_all add: loop_inv_def Let_def cs)
  from sv have n: "length sts = Suc (unat i)" and v: "sent v = turn_messages cfg 0 sts"
    by (simp_all add: server_inv_def)
  have s0: "default_delimiters (s_gw (cs_gw c0))" "outbox (s_world (cs_gw c0)) = []"
    using c0 by (simp_all add: cosim_initial_def)
  have ok: "turns_ok cfg sts" using sv cfg(2,3) by (simp add: turns_ok_def server_inv_def)
  have rall: "s_received ?s = concat (turn_messages cfg 0 sts)"
    using rec all v by (auto simp: to_gateway_def cs prefix_def)
  have M: "m_delimiterMessage (s_gw (cs_gw c0)) = CRLF" using s0(1) by (simp add: default_delimiters_def CRLF_def)
  note so = reachable_stream[OF rg, unfolded M]
  then have "find_sub CRLF d = None" by (simp add: stream_ok_def pc_ok_def t)
  with stream_ok_frames[OF so] have "frames CRLF (s_received ?s) = (s_forwarded ?s @ ?q, d)"
    by (simp add: thread_data_def t frames_None CRLF_def)
  then have f: "s_forwarded ?s @ ?q = server_bodies cfg sts" "d = []"
    unfolding rall turn_frames by simp_all
  have "length (?ts (s_forwarded ?s)) + length (?ts ?q) = length sts"
    using arg_cong[OF turns_all_stamps[OF ok, folded f(1)], of length] by simp
  moreover have "length (?ts ?q) = length ?q" using turns_queue_stamps[OF ok f(1)] .
  moreover have "length (?ts (s_forwarded ?s)) = carrier_count (cal (s_world ?s)) + length ?o"
    using reachable_answered[OF rg alive] responses_bounded(2)[OF rg s0 rec sv]
    by (simp add: answered_def s0(2))
  moreover have "length ?q = length (filter (\<lambda>v. ev_call v = GatewayForwardUp) (cal_events (cal (s_world ?s))))"
    using forward_matches_queue[OF rg alive] by (simp add: t)
  ultimately show ?thesis using n i f(2) by (simp add: carrier_count_def carried_events_def)
qed

end

text \<open>C7: No message is lost in the closed loop, so nothing is stuck: if the server waits for a response,
  everything that it has sent has arrived and the receiving thread waits for more, then the thread
  holds no part of a message, and there is exactly one thing that leads to the response: the last
  message is in the queue (and so is its call of \<open>ForwardUp\<close>), or its update is pending, or its response
  has been sent and only has to arrive.\<close>

theorem server_never_waits_in_vain:
  assumes "gateway_answers S cal valid P H outbox" and "server_link R sent"
    and "positionDeltaX cfg \<noteq> 0" and "timeDelta cfg \<noteq> 0"
    and "unat (timeStart cfg) + unat (timeDelta cfg) * unat (iterations cfg) < 2 ^ 31"
    and "cosim_reachable S cal valid P H R cfg sent outbox True c0 c"
    and "fst (cs_server c) = Sv_Recv i" and "\<forall>f. s_main (cs_gw c) \<noteq> Main_Failed f"
    and "s_thread (cs_gw c) = T_Recv d" and "to_gateway sent c = []"
  shows "d = [] \<and>
    length (m_messageQueue (s_gw (cs_gw c))) +
    length (filter (\<lambda>v. carries (ev_call v)) (cal_events (cal (s_world (cs_gw c))))) +
    (length (outbox (s_world (cs_gw c))) - unat i) = 1 \<and>
    unat i \<le> length (outbox (s_world (cs_gw c))) \<and>
    length (m_messageQueue (s_gw (cs_gw c))) =
      length (filter (\<lambda>v. ev_call v = GatewayForwardUp) (cal_events (cal (s_world (cs_gw c)))))"
  by (rule closed_loop.waiting_balance[OF closed_loop.intro[OF assms(1,2)] assms(3-10)])

definition queued_labels :: "cosim_label list" where
  "queued_labels = Server_send # map Gateway_step
     (thread_starts @ [L_Recv (Received (''0 0'' @ CRLF))] @ thread_message @ [L_Thread])"

lemma queued_run:
  "\<exists>c. loop_execs True queued_labels loop_start = Some c \<and> fst (cs_server c) = Sv_Recv 0 \<and>
    s_main (cs_gw c) = Main_Run \<and> s_thread (cs_gw c) = T_Recv [] \<and> to_gateway snd c = [] \<and>
    rw_sent (s_world (cs_gw c)) = [] \<and> m_messageQueue (s_gw (cs_gw c)) = [''0 0'']"
  by (simp add: ref_eval loop_eval queued_labels_def)

theorem server_never_waits_in_vain_witness:
  "\<exists>c. loop_execs True queued_labels loop_start = Some c \<and> fst (cs_server c) = Sv_Recv 0 \<and>
     length (filter (\<lambda>v. carries (ev_call v)) (cal_events (ref_cal (s_world (cs_gw c))))) = 0"
proof -
  obtain c where c: "loop_execs True queued_labels loop_start = Some c" "fst (cs_server c) = Sv_Recv 0"
    "s_main (cs_gw c) = Main_Run" "s_thread (cs_gw c) = T_Recv []" "to_gateway snd c = []"
    "m_messageQueue (s_gw (cs_gw c)) = [''0 0'']" using queued_run by blast
  have cfg: "positionDeltaX loop_config \<noteq> 0" "timeDelta loop_config \<noteq> 0"
    "unat (timeStart loop_config) + unat (timeDelta loop_config) * unat (iterations loop_config) < 2 ^ 31"
    by (simp_all add: loop_config_def server_defaults_def)
  have "\<forall>f. s_main (cs_gw c) \<noteq> Main_Failed f" using c(3) by simp
  from server_never_waits_in_vain[OF ref_conn.simple_gateway_answers ref_link.server_link_axioms cfg
      cosim_execs_reachable[OF loop_start_reachable c(1)] c(2) this c(4,5)] c(1,2,6)
  show ?thesis by (intro exI[of _ c]) simp
qed

end
