(* ===== verification/Gateway_Eventually.thy ===== *)
theory Gateway_Eventually
  imports Gateway_Shutdown Gateway_Answers
begin

text \<open>
  That the gateway makes progress next to the events of the rest of the simulation: if these settle,
  that is, there is no infinite chain of them up to any time, then a queued message is processed and
  a pending update is executed after finitely many events, unless an event fails.
\<close>

section \<open>Events for the current time\<close>

lemma prompt_pop: "cal_ok k \<Longrightarrow> cal_next k = Some (c, k') \<Longrightarrow> prompt k \<Longrightarrow> prompt k'"
  using cal_next_now[of k c k'] by (auto simp: prompt_def elim!: cal_next_SomeD)

lemma prompt_pop_destroy: "cal_next_destroy k = Some (c, k') \<Longrightarrow> prompt k \<Longrightarrow> prompt k'"
  by (auto simp: prompt_def elim!: cal_next_destroy_SomeD)

context gateway_host begin

lemma main_event_prompt:
  assumes v: "valid (s_user s) w" and pr: "prompt (cal w)"
  shows "prompt (cal (s_world (main_event S P H c (s\<lparr>s_world := w\<rparr>))))"
proof (cases "c = GatewayStop")
  case True
  from main_stop_calm[of "s\<lparr>s_world := w\<rparr>"] v pr True show ?thesis
    by (simp add: main_event_def calm_def)
next
  case False
  show ?thesis
  proof (cases "dispatch S H c (s_user s, s_gw s, w)")
    case (Inl f)
    with False pr show ?thesis by (simp add: main_event_def)
  next
    case (Inr q)
    obtain u g' w' where q: "q = (u, g', w')" by (cases q)
    from dispatch_calm[OF v False Inr[unfolded q]] False Inr q pr show ?thesis
      by (simp add: main_event_def calm_def)
  qed
qed

lemma gw_step_prompt:
  assumes step: "gw_step S P H s l s'" and ok: "sys_ok cal valid t0 s" and pr: "prompt (cal (s_world s))"
  shows "prompt (cal (s_world s'))"
proof -
  from ok gw_step_alive[OF step] have v: "valid (s_user s) (s_world s)" by (simp add: sys_ok_def)
  have ctx: "prompt (cal (sim_schedule_with_context S n 0 c (s_world s)))" for n c
    using sim_scheduled_context[OF v, of 0 n c] pr by auto
  show ?thesis
    using step
  proof (cases rule: gw_step.cases)
    case thread
    then show ?thesis using pr ctx
      by (auto simp: thread_step_def Let_def split: thread_pc.splits option.splits if_splits)
  next
    case (recv d x)
    then show ?thesis using pr by (auto simp: thread_step_def Let_def split: recv_result.splits)
  next
    case (run c w)
    from sim_next_event[OF v run(4)] main_event_prompt prompt_pop[OF sim_ok[OF v]] pr show ?thesis
      unfolding run(2) by blast
  next
    case run_end
    with pr show ?thesis by simp
  next
    case (destroy c w)
    from event_simulator.next_destroy_Some[OF simulator v destroy(4)] main_event_prompt prompt_pop_destroy pr
    show ?thesis unfolding destroy(2) by blast
  next
    case (join b d)
    obtain g2 w2 where f: "Stop_finish S P True (s_gw s, s_world s) = (g2, w2)" by fastforce
    from host_calm_stop[OF v f] pr f join show ?thesis by (simp add: main_join_def calm_def)
  qed
qed

lemma reachable_prompt:
  "gw_reachable S cal valid P H s0 s \<Longrightarrow> prompt (cal (s_world s))"
proof (induction rule: gw_reachable.induct)
  case (start s)
  obtain k ed ew where
    c: "cal (s_world s) = cal_schedule ew 0 GatewayWaitForNextUpdate (cal_schedule_destroy ed GatewayStop k)"
    and ev: "\<forall>v \<in> set (cal_events k). \<not> gateway_callback (ev_call v)" by (rule gw_initial_calendar[OF start])
  have "prompt (cal_schedule_destroy ed GatewayStop k)"
    using ev instant_gateway by (auto simp: prompt_def cal_schedule_destroy_def)
  then show ?case by (simp add: c)
next
  case (step s0 s l s')
  from gw_step_prompt[OF step.hyps(2) reachable_ok[OF step.hyps(1)] step.IH] show ?case .
qed

end

section \<open>The rest of the simulation settles\<close>

text \<open>
  One event of the rest of the simulation at a time up to \<open>T\<close>, from \<open>(u, w)\<close> to \<open>(u', w')\<close>, whatever the
  gateway is then. The relation is well-founded if no chain of these events is infinite.
\<close>

definition other_step ::
    "('x callback, 'w) sim_ops \<Rightarrow> ('u \<Rightarrow> 'w \<Rightarrow> bool) \<Rightarrow> ('x, 'u, 'w) gw_host \<Rightarrow> time \<Rightarrow> 'u \<times> 'w \<Rightarrow> 'u \<times> 'w \<Rightarrow> bool"
where
  "other_step S valid H T = (\<lambda>(u', w') (u, w). valid u w \<and>
     (\<exists>c w1 g g'. sim_next S w = Some (c, w1) \<and> \<not> gateway_callback c \<and> sim_now S w1 \<le> T \<and>
        other_event H c (u, g, w1) = Inr (u', g', w')))"

text \<open>A message that asks the simulator to stop.\<close>

definition terminated :: "string \<Rightarrow> string list \<Rightarrow> bool" where
  "terminated D ms \<longleftrightarrow> (\<exists>m \<in> set ms. \<exists>T < 0. message_stamp D m = Some T)"

lemma terminated_simps [simp]:
  "\<not> terminated D []" "terminated D (ms @ ms') \<longleftrightarrow> terminated D ms \<or> terminated D ms'"
  by (auto simp: terminated_def)

locale settling_host = gateway_host S cal valid P H
  for S :: "('x callback, 'w) sim_ops" and cal :: "'w \<Rightarrow> 'x callback calendar"
    and valid :: "'u \<Rightarrow> 'w \<Rightarrow> bool" and P :: "'w os_ops" and H :: "('x, 'u, 'w) gw_host" +
  assumes settles: "wfp (other_step S valid H T)"
    and run_initialize: "valid u w \<Longrightarrow> do_initialize H data (u, g, w) = Inr (u', g', w') \<Longrightarrow>
      cal_stopped (cal w') = cal_stopped (cal w)"
    and run_update: "valid u w \<Longrightarrow> do_update H data (u, g, w) = Inr (u', g', w') \<Longrightarrow>
      cal_stopped (cal w') = cal_stopped (cal w)"
    and run_other: "valid u w \<Longrightarrow> \<not> gateway_callback c \<Longrightarrow> other_event H c (u, g, w) = Inr (u', g', w') \<Longrightarrow>
      cal_stopped (cal w') = cal_stopped (cal w)"

section \<open>Only the terminate message stops the simulator\<close>

context gateway_platform begin

lemma WaitForNextUpdate_stopped:
  assumes v: "valid w" and run: "WaitForNextUpdate S (g, w) = (g', w')"
  shows "cal_stopped (cal w') = cal_stopped (cal w)"
  using v run by (cases rule: WaitForNextUpdate_cal) simp_all

lemma process_message_stopped:
  assumes v: "valid w" and run: "process_message S T vs (g, w) = Inr (g', w')"
  shows "cal_stopped (cal w') \<longleftrightarrow> T < 0 \<or> cal_stopped (cal w)"
  using v run by (cases rule: process_message_cal) simp_all

end

context settling_host begin

lemma dispatch_stopped:
  assumes v: "valid u w" and c: "c \<noteq> GatewayStop" and run: "dispatch S H c (u, g, w) = Inr (u', g', w')"
  shows "cal_stopped (cal w') \<longleftrightarrow> cal_stopped (cal w) \<or>
    c = GatewayForwardUp \<and> terminated (m_delimiterField g) (take 1 (m_messageQueue g))"
proof (cases "gateway_callback c")
  case False
  then have "other_event H c (u, g, w) = Inr (u', g', w')" using run by (cases c) (simp_all add: dispatch_def)
  from run_other[OF v False this] False show ?thesis by auto
next
  case True
  then consider "c = GatewayForwardUp" | "c = GatewayWaitForNextUpdate"
    | d where "c = GatewayHandleUpdate d" | d where "c = GatewayDoInitialize d" using c by (cases c) auto
  then show ?thesis
  proof cases
    case 1
    with run have f: "ForwardUp S (g, w) = Inr (g', w')" by (auto simp: dispatch_def)
    then obtain m q where q: "m_messageQueue g = m # q"
      by (cases "m_messageQueue g") (simp_all add: ForwardUp_def)
    with f obtain T vs where p: "process_message S T vs (g\<lparr>m_messageQueue := q\<rparr>, w) = Inr (g', w')"
      and st: "message_stamp (m_delimiterField g) m = Some T"
      by (auto simp: ForwardUp_def message_stamp_def split: option.splits)
    from gateway_platform.process_message_stopped[OF platform v p] 1 q st show ?thesis
      by (auto simp: terminated_def)
  next
    case 2
    with run have "WaitForNextUpdate S (g, w) = (g', w')" by (simp add: dispatch_def)
    from gateway_platform.WaitForNextUpdate_stopped[OF platform v this] 2 show ?thesis by simp
  next
    case (3 d)
    with run have r: "HandleUpdate S (do_update H) d (u, g, w) = Inr (u', g', w')" by (simp add: dispatch_def)
    have "cal_stopped (cal w') = cal_stopped (cal w)"
    proof (cases "sim_now S w = m_timePause g")
      case True
      obtain e w1 where s: "sim_schedule_now S GatewayWaitForNextUpdate w = (e, w1)" by fastforce
      from True r s have d: "do_update H d (u, g\<lparr>m_eventWait := Some e\<rparr>, w1) = Inr (u', g', w')"
        by (simp add: HandleUpdate_def)
      from sim_scheduled_now[OF v s] have "valid u w1" "cal_stopped (cal w1) = cal_stopped (cal w)" by auto
      with run_update[OF _ d] show ?thesis by simp
    next
      case False
      with r have d: "do_update H d (u, g, w) = Inr (u', g', w')" by (simp add: HandleUpdate_def)
      show ?thesis by (rule run_update[OF v d])
    qed
    with 3 show ?thesis by simp
  next
    case (4 d)
    with run have "do_initialize H d (u, g, w) = Inr (u', g', w')" by (simp add: dispatch_def)
    from run_initialize[OF v this] 4 show ?thesis by simp
  qed
qed

end

text \<open>The simulator has been stopped exactly if a terminate message has been processed.\<close>

definition stopped_by_message :: "('w \<Rightarrow> 'x callback calendar) \<Rightarrow> ('u, 'w) gw_sys \<Rightarrow> bool" where
  "stopped_by_message cal s \<longleftrightarrow>
     (cal_stopped (cal (s_world s)) \<longleftrightarrow> terminated (m_delimiterField (s_gw s)) (s_forwarded s))"

context settling_host begin

lemmas host_finish_cal = gateway_platform.Stop_finish_cal[OF platform]

lemma main_event_stopped:
  assumes v: "valid (s_user s) w" and pop: "gw_popped t0 x c (s_gw s) (cal w)"
    and inv: "cal_stopped (cal w) \<longleftrightarrow> terminated (m_delimiterField (s_gw s)) (s_forwarded s)"
  shows "stopped_by_message cal (main_event S P H c (s\<lparr>s_world := w\<rparr>))"
proof (cases "c = GatewayStop")
  case True
  show ?thesis
  proof (cases "m_state (s_gw s) = CONNECTED \<and> m_thread (s_gw s)")
    case True
    with \<open>c = GatewayStop\<close> inv show ?thesis
      by (simp add: main_event_def main_stop_def Stop_signal_def stopped_by_message_def)
  next
    case False
    let ?g = "s_gw s\<lparr>m_state := STOPPING\<rparr>"
    obtain g2 w2 where f: "Stop_finish S P (m_state (s_gw s) = CONNECTED) (?g, w) = (g2, w2)" by fastforce
    with False \<open>c = GatewayStop\<close> inv host_finish_cal(2,3)[OF v f] show ?thesis
      by (auto simp: main_event_def main_stop_def Stop_signal_def stopped_by_message_def)
  qed
next
  case False
  show ?thesis
  proof (cases "dispatch S H c (s_user s, s_gw s, w)")
    case (Inl f)
    with False inv show ?thesis by (simp add: main_event_def stopped_by_message_def)
  next
    case (Inr q)
    obtain u g' w' where q: "q = (u, g', w')" by (cases q)
    have "m_delimiterField g' = m_delimiterField (s_gw s)"
      using dispatch_ok[OF v pop False Inr[unfolded q]] by (simp add: gw_frame_def)
    with dispatch_stopped[OF v False Inr[unfolded q]] False Inr q inv show ?thesis
      by (auto simp: main_event_def stopped_by_message_def)
  qed
qed

lemma gw_step_stopped:
  assumes step: "gw_step S P H s l s'" and ok: "sys_ok cal valid t0 s" and inv: "stopped_by_message cal s"
  shows "stopped_by_message cal s'"
proof -
  from ok gw_step_alive[OF step] have v: "valid (s_user s) (s_world s)"
    and g: "gw_ok t0 (forward_extra (s_thread s)) (s_gw s) (cal (s_world s))" by (simp_all add: sys_ok_def)
  have ctx: "cal_stopped (cal (sim_schedule_with_context S n 0 c (s_world s))) = cal_stopped (cal (s_world s))" for n c
    using sim_scheduled_context[OF v, of 0 n c] by auto
  have inv': "cal_stopped (cal w) \<longleftrightarrow> terminated (m_delimiterField (s_gw s)) (s_forwarded s)"
    if "cal_stopped (cal w) = cal_stopped (cal (s_world s))" for w
    using inv that by (simp add: stopped_by_message_def)
  show ?thesis
    using step
  proof (cases rule: gw_step.cases)
    case thread
    then show ?thesis using inv ctx
      by (auto simp: stopped_by_message_def thread_step_def Let_def
          split: thread_pc.splits option.splits if_splits)
  next
    case (recv d x)
    then show ?thesis using inv
      by (auto simp: stopped_by_message_def thread_step_def Let_def split: recv_result.splits)
  next
    case (run c w)
    from sim_next_event[OF v run(4)] have "cal_next (cal (s_world s)) = Some (c, cal w)" by blast
    then have "cal_stopped (cal w) = cal_stopped (cal (s_world s))" by (rule cal_next_SomeD) simp
    from main_event_stopped[OF _ _ inv'[OF this]] host_popped[OF v g run(4)] show ?thesis
      unfolding run(2) by blast
  next
    case run_end
    with inv show ?thesis by (simp add: stopped_by_message_def)
  next
    case (destroy c w)
    from event_simulator.next_destroy_Some[OF simulator v destroy(4)]
    have "cal_next_destroy (cal (s_world s)) = Some (c, cal w)" by blast
    then have "cal_stopped (cal w) = cal_stopped (cal (s_world s))" by (rule cal_next_destroy_SomeD)
    from main_event_stopped[OF _ _ inv'[OF this]] host_popped_destroy[OF v g destroy(4)] show ?thesis
      unfolding destroy(2) by blast
  next
    case (join b d)
    obtain g2 w2 where f: "Stop_finish S P True (s_gw s, s_world s) = (g2, w2)" by fastforce
    from host_finish_cal(2,3)[OF v f] inv f join show ?thesis
      by (simp add: main_join_def stopped_by_message_def)
  qed
qed

lemma reachable_stopped:
  "gw_reachable S cal valid P H s0 s \<Longrightarrow> \<not> cal_stopped (cal (s_world s0)) \<Longrightarrow> stopped_by_message cal s"
proof (induction rule: gw_reachable.induct)
  case (start s)
  then have "s_forwarded s = []" by (auto simp: gw_initial_def)
  with start show ?case by (simp add: stopped_by_message_def)
next
  case (step s0 s l s')
  from gw_step_stopped[OF step.hyps(2) reachable_ok[OF step.hyps(1)] step.IH[OF step.prems]] show ?case .
qed

end

section \<open>The next event of the gateway\<close>

text \<open>An event fails: the next one in the event loop ends the program of the gateway.\<close>

definition event_fails ::
    "('x callback, 'w) sim_ops \<Rightarrow> ('x, 'u, 'w) gw_host \<Rightarrow> ('u, 'w) gw_sys \<Rightarrow> bool" where
  "event_fails S H s \<longleftrightarrow> s_main s = Main_Run \<and>
     (\<exists>c w f. sim_next S (s_world s) = Some (c, w) \<and> c \<noteq> GatewayStop \<and>
        dispatch S H c (s_user s, s_gw s, w) = Inl f)"

text \<open>The gateway listens: it is connected and its thread has not found the end of the connection.\<close>

definition listening :: "('w \<Rightarrow> 'x callback calendar) \<Rightarrow> ('u, 'w) gw_sys \<Rightarrow> bool" where
  "listening cal s \<longleftrightarrow> s_main s = Main_Run \<and> m_state (s_gw s) = CONNECTED \<and>
     \<not> stop_pending (cal (s_world s)) \<and> (\<forall>d. s_thread s \<noteq> T_Lost d \<and> s_thread s \<noteq> T_Done d)"

abbreviation (input) gateway_events :: "'x callback calendar \<Rightarrow> 'x callback event list" where
  "gateway_events k \<equiv> filter (\<lambda>v. gateway_callback (ev_call v)) (cal_events k)"

text \<open>The event loop gets from \<open>s\<close> to \<open>s'\<close>, while the thread does nothing.\<close>

definition by_events ::
    "('x callback, 'w) sim_ops \<Rightarrow> 'w os_ops \<Rightarrow> ('x, 'u, 'w) gw_host \<Rightarrow> ('u, 'w) gw_sys \<Rightarrow> ('u, 'w) gw_sys \<Rightarrow> bool"
where
  "by_events S P H s s' \<longleftrightarrow> (\<exists>ls. set ls \<subseteq> {L_Event} \<and> gw_execs S P H ls s = Some s')"

lemma by_events_refl: "by_events S P H s s"
  unfolding by_events_def by (rule exI[of _ "[]"]) simp

lemma by_events_step: "gw_exec S P H L_Event s = Some s' \<Longrightarrow> by_events S P H s s'"
  unfolding by_events_def by (rule exI[of _ "[L_Event]"]) simp

lemma by_events_trans: "by_events S P H s1 s2 \<Longrightarrow> by_events S P H s2 s3 \<Longrightarrow> by_events S P H s1 s3"
  unfolding by_events_def
proof (elim exE conjE)
  fix ls ls'
  assume "set ls \<subseteq> {L_Event}" "gw_execs S P H ls s1 = Some s2" "set ls' \<subseteq> {L_Event}" "gw_execs S P H ls' s2 = Some s3"
  then have "set (ls @ ls') \<subseteq> {L_Event} \<and> gw_execs S P H (ls @ ls') s1 = Some s3" by (simp add: gw_execs_append)
  then show "\<exists>ls. set ls \<subseteq> {L_Event} \<and> gw_execs S P H ls s1 = Some s3" by blast
qed

lemma by_events_reachable:
  "gw_reachable S cal valid P H s0 s \<Longrightarrow> by_events S P H s s' \<Longrightarrow> gw_reachable S cal valid P H s0 s'"
  unfolding by_events_def using gw_execs_reachable by blast

text \<open>\<open>s'\<close> differs from \<open>s\<close> only by events of the rest of the simulation.\<close>

definition others_ran ::
    "('w \<Rightarrow> 'x callback calendar) \<Rightarrow> ('u, 'w) gw_sys \<Rightarrow> ('u, 'w) gw_sys \<Rightarrow> bool" where
  "others_ran cal s s' \<longleftrightarrow> s_main s' = s_main s \<and> s_thread s' = s_thread s \<and> s_received s' = s_received s \<and>
     s_forwarded s' = s_forwarded s \<and> (\<exists>ds. s_gw s' = s_gw s\<lparr>m_data := ds\<rparr>) \<and>
     gateway_events (cal (s_world s')) = gateway_events (cal (s_world s)) \<and>
     cal_stopped (cal (s_world s')) = cal_stopped (cal (s_world s))"

lemma others_ran_refl: "others_ran cal s s"
  by (simp add: others_ran_def same_data)

lemma others_ran_trans:
  assumes "others_ran cal s1 s2" and "others_ran cal s2 s3"
  shows "others_ran cal s1 s3"
proof -
  from assms have e: "\<exists>ds. s_gw s2 = s_gw s1\<lparr>m_data := ds\<rparr>" "\<exists>ds. s_gw s3 = s_gw s2\<lparr>m_data := ds\<rparr>"
    unfolding others_ran_def by blast+
  from data_trans[OF e(2,1)] assms show ?thesis unfolding others_ran_def by (elim conjE, intro conjI) simp_all
qed

context settling_host begin

lemma runs_on:
  assumes "valid u w" and "\<not> cal_stopped (cal w)" and "cal_events (cal w) \<noteq> []"
  obtains c w' where "sim_next S w = Some (c, w')"
proof -
  have "cal_next (cal w) \<noteq> None" using assms(2,3) by (auto simp: cal_next_def split: list.splits)
  with event_simulator.next_None[OF simulator assms(1)] that show thesis by (cases "sim_next S w") auto
qed

text \<open>One event of the rest of the simulation.\<close>

lemma other_event_runs:
  assumes r: "gw_reachable S cal valid P H s0 s" and m: "s_main s = Main_Run"
    and nx: "sim_next S (s_world s) = Some (c, w)" and c: "\<not> gateway_callback c"
    and x: "x \<in> set (gateway_events (cal (s_world s)))" and nf: "\<not> event_fails S H s"
  obtains s1 where "gw_exec S P H L_Event s = Some s1" and "others_ran cal s s1"
    and "other_step S valid H (ev_time x) (s_user s1, s_world s1) (s_user s, s_world s)"
proof -
  have v: "valid (s_user s) (s_world s)" using reachable_facts(1)[OF r] m by simp
  from sim_next_event[OF v nx] have v': "valid (s_user s) w"
    and nk: "cal_next (cal (s_world s)) = Some (c, cal w)" by blast+
  from nk obtain e where ev: "cal_events (cal (s_world s)) = (e, cal_now (cal w), c) # cal_events (cal w)"
    and st: "\<not> cal_stopped (cal (s_world s))" "\<not> cal_stopped (cal w)" by (rule cal_next_SomeD)
  have cs: "c \<noteq> GatewayStop" "c \<noteq> GatewayForwardUp" using c by auto
  obtain u g' w' where d: "dispatch S H c (s_user s, s_gw s, w) = Inr (u, g', w')"
  proof (cases "dispatch S H c (s_user s, s_gw s, w)")
    case (Inl f)
    with nf m nx cs show ?thesis by (auto simp: event_fails_def)
  next
    case (Inr q)
    with that show ?thesis by (cases q) auto
  qed
  then have o: "other_event H c (s_user s, s_gw s, w) = Inr (u, g', w')" using c by (cases c) (simp_all add: dispatch_def)
  from other_event[OF v' c o] have kg: "keeps_gateway (cal w) (cal w')" and g: "\<exists>ds. g' = s_gw s\<lparr>m_data := ds\<rparr>"
    by blast+
  let ?s1 = "s\<lparr>s_user := u, s_gw := g', s_world := w'\<rparr>"
  have "gw_exec S P H L_Event s = Some ?s1" using m nx d cs by (simp add: gw_exec_def main_event_def)
  moreover have "gateway_events (cal w') = gateway_events (cal w)" using kg unfolding keeps_events_def by blast
  then have "others_ran cal s ?s1"
    using g c st run_other[OF v' c o] unfolding others_ran_def by (simp add: ev)
  moreover have "cal_now (cal w) \<le> ev_time x"
    using cal_next_not_past[OF sim_ok[OF v] nk] x by auto
  then have "other_step S valid H (ev_time x) (u, w') (s_user s, s_world s)"
    using v nx c o sim_time[OF v'] unfolding other_step_def by auto
  ultimately show thesis using that[of ?s1] by simp
qed

lemma next_gateway_event:
  assumes "gw_reachable S cal valid P H s0 s" and "s_main s = Main_Run"
    and "\<not> cal_stopped (cal (s_world s))" and "x \<in> set (gateway_events (cal (s_world s)))"
  shows "\<exists>s'. by_events S P H s s' \<and> others_ran cal s s' \<and>
    (event_fails S H s' \<or> (\<exists>c w. sim_next S (s_world s') = Some (c, w) \<and> gateway_callback c))"
  using settles[of "ev_time x"] assms
proof (induction "(s_user s, s_world s)" arbitrary: s rule: wfp_induct_rule)
  case (less s)
  let ?goal = "\<lambda>s'. event_fails S H s' \<or> (\<exists>c w. sim_next S (s_world s') = Some (c, w) \<and> gateway_callback c)"
  show ?case
  proof (cases "?goal s")
    case True
    then show ?thesis using by_events_refl others_ran_refl by blast
  next
    case False
    have v: "valid (s_user s) (s_world s)" using reachable_facts(1)[OF less.prems(1)] less.prems(2) by simp
    have "cal_events (cal (s_world s)) \<noteq> []" using less.prems(4) by auto
    from runs_on[OF v less.prems(3) this] obtain c w where nx: "sim_next S (s_world s) = Some (c, w)" .
    with False have c: "\<not> gateway_callback c" and nf: "\<not> event_fails S H s" by auto
    from other_event_runs[OF less.prems(1,2) nx c less.prems(4) nf] obtain s1 where
      s1: "gw_exec S P H L_Event s = Some s1" "others_ran cal s s1"
        "other_step S valid H (ev_time x) (s_user s1, s_world s1) (s_user s, s_world s)" .
    have r1: "gw_reachable S cal valid P H s0 s1"
      by (rule gw_reachable.step[OF less.prems(1) gw_exec_step[OF s1(1)]])
    have "s_main s1 = Main_Run" "\<not> cal_stopped (cal (s_world s1))" "x \<in> set (gateway_events (cal (s_world s1)))"
      using s1(2) less.prems(2-4) by (simp_all add: others_ran_def)
    from less.hyps[OF s1(3) r1 this] obtain s' where
      n: "by_events S P H s1 s'" "others_ran cal s1 s'" "?goal s'" by blast
    from by_events_trans[OF by_events_step[OF s1(1)] n(1)] others_ran_trans[OF s1(2) n(2)] n(3) show ?thesis by blast
  qed
qed

end

section \<open>An event of the gateway\<close>

text \<open>What is still to be done for the messages that have arrived: two events for one in the queue, one after that.\<close>

definition load :: "('w \<Rightarrow> 'x callback calendar) \<Rightarrow> ('u, 'w) gw_sys \<Rightarrow> nat" where
  "load cal s = 2 * length (m_messageQueue (s_gw s)) + carrier_count (cal (s_world s))"

lemma hd_place:
  assumes "sorted (map ev_time vs)" and "v \<in> set vs" and "ev_time v \<le> ev_time x"
  shows "hd (place x vs) = hd vs"
proof (cases vs)
  case (Cons y ys)
  then have "ev_time y \<le> ev_time v" using assms(1,2) by auto
  with assms(3) Cons show ?thesis by (simp add: place_def)
qed (use assms(2) in simp)

text \<open>The next event of the gateway is not its wait event.\<close>

definition front :: "'x callback calendar \<Rightarrow> bool" where
  "front k \<longleftrightarrow> ev_call (hd (gateway_events k)) \<noteq> GatewayWaitForNextUpdate"

context settling_host begin

text \<open>The wait event goes behind all that can be done at the current time.\<close>

lemma wait_again:
  assumes v: "valid u w" and own: "wait_owned i (cal w)" and pr: "prompt (cal w)"
    and x: "x \<in> set (cal_events (cal w))" "instant (ev_call x)"
    and none: "waits (cal w) = {}" and k: "k = cal_schedule e 0 GatewayWaitForNextUpdate (cal_cancel_opt i (cal w))"
  shows "front k"
proof -
  let ?k = "cal_cancel_opt i (cal w)" and ?v = "(e, cal_now (cal w), GatewayWaitForNextUpdate)"
  have ok: "cal_ok ?k" using cal_ok_cancel[OF sim_ok[OF v]] sim_ok[OF v] by (simp add: cal_cancel_opt_def split: option.splits)
  then have sorted: "sorted (map ev_time (gateway_events ?k))" by (simp add: cal_ok_def sorted_filter)
  have "x \<in> set (cal_events ?k)"
    using x own by (cases i) (auto simp: cal_cancel_opt_def wait_owned_def)
  then have xk: "x \<in> set (gateway_events ?k)" using instant_gateway[OF x(2)] by simp
  have t: "ev_time x \<le> ev_time ?v" using pr x by (simp add: prompt_def)
  have "gateway_events k = place ?v (gateway_events ?k)"
    using ok filter_place[of "cal_events ?k" "\<lambda>v. gateway_callback (ev_call v)" ?v]
    by (simp add: k cal_schedule_def cal_ok_def)
  then have h: "hd (gateway_events k) = hd (gateway_events ?k)" using hd_place[OF sorted xk t] by simp
  have "hd (gateway_events ?k) \<in> set (cal_events ?k)" using xk hd_in_set[of "gateway_events ?k"] by fastforce
  then have "hd (gateway_events ?k) \<in> set (cal_events (cal w))" using cal_cancel_opt_subset(1) by blast
  moreover have "\<forall>y \<in> set (cal_events (cal w)). ev_call y \<noteq> GatewayWaitForNextUpdate"
    using none by (auto simp: waits_def)
  ultimately show ?thesis unfolding front_def h by blast
qed

end

context settling_host begin

lemma load_events:
  assumes r: "gw_reachable S cal valid P H s0 s" and m: "s_main s = Main_Run" and t: "s_thread s = T_Recv d"
    and l: "0 < load cal s"
  obtains x where "x \<in> set (gateway_events (cal (s_world s)))"
    and "ev_call x = GatewayForwardUp \<or> carries (ev_call x)"
proof (cases "m_messageQueue (s_gw s) = []")
  case True
  with l have "carried_events (cal (s_world s)) \<noteq> []" by (simp add: load_def carrier_count_def)
  then obtain x where "x \<in> set (carried_events (cal (s_world s)))" by (cases "carried_events (cal (s_world s))") auto
  then have "x \<in> set (cal_events (cal (s_world s)))" "carries (ev_call x)" by (simp_all add: carried_events_def)
  with carries_gateway have "x \<in> set (gateway_events (cal (s_world s)))" by simp
  with that \<open>carries (ev_call x)\<close> show thesis by blast
next
  case False
  with forward_matches_queue[OF r] m t have
    "filter (\<lambda>v. ev_call v = GatewayForwardUp) (cal_events (cal (s_world s))) \<noteq> []" by auto
  then obtain x where "x \<in> set (filter (\<lambda>v. ev_call v = GatewayForwardUp) (cal_events (cal (s_world s))))"
    by (meson hd_in_set)
  then have "x \<in> set (gateway_events (cal (s_world s)))" "ev_call x = GatewayForwardUp" by simp_all
  with that show thesis by blast
qed

text \<open>An event of the gateway that does not fail.\<close>

lemma gateway_event_runs:
  assumes r: "gw_reachable S cal valid P H s0 s" and l: "listening cal s"
    and nx: "sim_next S (s_world s) = Some (c, w)" and c: "gateway_callback c" and nf: "\<not> event_fails S H s"
    and s2: "s2 = main_event S P H c (s\<lparr>s_world := w\<rparr>)"
  shows "gw_exec S P H L_Event s = Some s2" and "listening cal s2"
    and "s_thread s2 = s_thread s" and "s_received s2 = s_received s"
    and "if c = GatewayWaitForNextUpdate then load cal s2 = load cal s \<and> s_forwarded s2 = s_forwarded s
      else load cal s2 < load cal s"
proof -
  have m: "s_main s = Main_Run" using l by (simp add: listening_def)
  from reachable_facts(1,2)[OF r] m have v: "valid (s_user s) (s_world s)"
    and g: "gw_ok (sim_now S (s_world s0)) (forward_extra (s_thread s)) (s_gw s) (cal (s_world s))" by simp_all
  from sim_next_event[OF v nx] have nk: "cal_next (cal (s_world s)) = Some (c, cal w)" by blast
  then obtain e where ev: "cal_events (cal (s_world s)) = (e, cal_now (cal w), c) # cal_events (cal w)"
    by (rule cal_next_SomeD)
  from host_popped[OF v g nx] have v': "valid (s_user s) w" and
    pop: "gw_popped (sim_now S (s_world s0)) (forward_extra (s_thread s)) c (s_gw s) (cal w)" by blast+
  have cs: "c \<noteq> GatewayStop" and sp: "\<not> stop_pending (cal w)" using l ev by (auto simp: listening_def stop_pending_def)
  show ex: "gw_exec S P H L_Event s = Some s2" using m nx by (simp add: gw_exec_def s2)
  obtain u g' w' where d: "dispatch S H c (s_user s, s_gw s, w) = Inr (u, g', w')"
  proof (cases "dispatch S H c (s_user s, s_gw s, w)")
    case (Inl f)
    with nf m nx cs show ?thesis by (auto simp: event_fails_def)
  next
    case (Inr q)
    with that show ?thesis by (cases q) auto
  qed
  let ?ms = "if c = GatewayForwardUp then take 1 (m_messageQueue (s_gw s)) else []"
  have r2: "s2 = s\<lparr>s_user := u, s_gw := g', s_world := w', s_forwarded := s_forwarded s @ ?ms\<rparr>"
    using cs d by (simp add: s2 main_event_def)
  show "s_thread s2 = s_thread s" "s_received s2 = s_received s" by (simp_all add: r2)
  from dispatch_ok[OF v' pop cs d] have fr: "gw_frame c (s_gw s) g'" by blast
  show "listening cal s2"
    using l fr dispatch_calm[OF v' cs d] sp by (simp add: listening_def r2 gw_frame_def calm_def)
  have n: "carrier_count (cal w') = carrier_count (cal w) + length (time_stamps (m_delimiterField (s_gw s)) ?ms)"
    by (rule dispatch_count[OF v' pop cs d])
  note k = carrier_count_pop[OF nk]
  have "length (time_stamps (m_delimiterField (s_gw s)) ?ms) \<le> length ?ms" by (rule stamps_length)
  moreover have "c = GatewayForwardUp \<Longrightarrow> m_messageQueue (s_gw s) \<noteq> []" using pop by (auto simp: gw_popped_def)
  moreover have "carries c \<or> c = GatewayForwardUp \<or> c = GatewayWaitForNextUpdate" using c cs by (cases c) auto
  ultimately show "if c = GatewayWaitForNextUpdate then load cal s2 = load cal s \<and> s_forwarded s2 = s_forwarded s
      else load cal s2 < load cal s"
    using n k fr by (cases "m_messageQueue (s_gw s)") (auto simp: load_def r2 gw_frame_def)
qed

lemma wait_goes_back:
  assumes r: "gw_reachable S cal valid P H s0 s" and l: "listening cal s" and t: "s_thread s = T_Recv d"
    and nx: "sim_next S (s_world s) = Some (GatewayWaitForNextUpdate, w)"
    and inc: "increasing_stamps s" and pos: "0 < load cal s"
    and s2: "s2 = main_event S P H GatewayWaitForNextUpdate (s\<lparr>s_world := w\<rparr>)"
  shows "front (cal (s_world s2))"
proof -
  have m: "s_main s = Main_Run" and conn: "m_state (s_gw s) = CONNECTED" using l by (simp_all add: listening_def)
  from reachable_facts(1,2)[OF r] m have v: "valid (s_user s) (s_world s)"
    and g: "gw_ok (sim_now S (s_world s0)) (forward_extra (s_thread s)) (s_gw s) (cal (s_world s))" by simp_all
  from sim_next_event[OF v nx] have nk: "cal_next (cal (s_world s)) = Some (GatewayWaitForNextUpdate, cal w)" by blast
  then obtain e where ev: "cal_events (cal (s_world s)) = (e, cal_now (cal w), GatewayWaitForNextUpdate) # cal_events (cal w)"
    by (rule cal_next_SomeD)
  from host_popped[OF v g nx] have v': "valid (s_user s) w" and
    own: "wait_owned (m_eventWait (s_gw s)) (cal w)" by (auto simp: gw_popped_def)
  have pc: "paced (m_eventWait (s_gw s)) (m_timePause (s_gw s)) (cal (s_world s))"
    using reachable_paced[OF r _ inc] m by (simp add: sys_paced_def)
  from paced_pop[OF sim_ok[OF v] nk pc] have none: "waits (cal w) = {}" "updates (cal w) = {}"
    by (simp_all add: paced_popped_def)
  from load_events[OF r m t pos] obtain x where x: "x \<in> set (gateway_events (cal (s_world s)))"
    "ev_call x = GatewayForwardUp \<or> carries (ev_call x)" .
  then have xw: "x \<in> set (cal_events (cal w))" by (auto simp: ev)
  then have "\<not> (\<exists>d. ev_call x = GatewayHandleUpdate d)" using none(2) unfolding updates_def by blast
  with x(2) have "instant (ev_call x)" by (cases "ev_call x") auto
  note wait_behind = wait_again[OF v' own prompt_pop[OF sim_ok[OF v] nk reachable_prompt[OF r]] xw this none(1)]
  obtain g' w' where run: "WaitForNextUpdate S (s_gw s, w) = (g', w')" by fastforce
  have w': "s_world s2 = w'" using run by (simp add: s2 main_event_def dispatch_def)
  show ?thesis
  proof (rule gateway_platform.WaitForNextUpdate_cal[OF platform v' run], goal_cases)
    case 1
    with conn show ?case by simp
  next
    case (2 e)
    from wait_behind[OF 2(5)] show ?case unfolding w' .
  qed
qed

end

section \<open>What has arrived is processed\<close>

context settling_host begin

lemma stop_pending_filter: "stop_pending k \<longleftrightarrow> filter (\<lambda>v. ev_call v = GatewayStop) (cal_events k) \<noteq> []"
  by (auto simp: stop_pending_def filter_empty_conv)

lemma others_ran_facts:
  assumes "others_ran cal s s'"
  shows "listening cal s' = listening cal s" and "load cal s' = load cal s"
    and "increasing_stamps s' = increasing_stamps s" and "front (cal (s_world s')) = front (cal (s_world s))"
proof -
  let ?k = "cal (s_world s)" and ?k' = "cal (s_world s')"
  have ge: "gateway_events ?k' = gateway_events ?k" using assms by (simp add: others_ran_def)
  have sub: "filter (\<lambda>v. Q (ev_call v)) (cal_events ?k') = filter (\<lambda>v. Q (ev_call v)) (cal_events ?k)"
    if "\<And>c. Q c \<Longrightarrow> gateway_callback c" for Q
  proof -
    have "filter (\<lambda>v. Q (ev_call v)) vs = filter (\<lambda>v. Q (ev_call v)) (filter (\<lambda>v. gateway_callback (ev_call v)) vs)"
      for vs :: "'x callback event list" using that by (induction vs) auto
    with ge show ?thesis by metis
  qed
  have "carried_events ?k' = carried_events ?k"
    unfolding carried_events_def by (rule sub) (rule carries_gateway)
  moreover have "filter (\<lambda>v. ev_call v = GatewayStop) (cal_events ?k') = filter (\<lambda>v. ev_call v = GatewayStop) (cal_events ?k)"
    by (rule sub) auto
  then have "stop_pending ?k' = stop_pending ?k" by (simp add: stop_pending_filter)
  moreover obtain ds where "s_gw s' = s_gw s\<lparr>m_data := ds\<rparr>" using assms unfolding others_ran_def by blast
  moreover have "s_main s' = s_main s" "s_thread s' = s_thread s" "s_forwarded s' = s_forwarded s"
    using assms by (simp_all add: others_ran_def)
  ultimately show "listening cal s' = listening cal s" "load cal s' = load cal s"
    "increasing_stamps s' = increasing_stamps s" "front ?k' = front ?k"
    using ge by (simp_all add: listening_def load_def carrier_count_def increasing_stamps_def front_def)
qed

lemma next_gateway_runs:
  assumes r: "gw_reachable S cal valid P H s0 s" and l: "listening cal s" and t: "s_thread s = T_Recv d"
    and st: "\<not> cal_stopped (cal (s_world s))" and inc: "increasing_stamps s" and pos: "0 < load cal s"
  shows "\<exists>s'. by_events S P H s s' \<and> s_thread s' = s_thread s \<and> s_received s' = s_received s \<and>
    (event_fails S H s' \<or> listening cal s' \<and> (load cal s' < load cal s \<or>
      \<not> front (cal (s_world s)) \<and> load cal s' = load cal s \<and> s_forwarded s' = s_forwarded s \<and> front (cal (s_world s'))))"
proof -
  have m: "s_main s = Main_Run" using l by (simp add: listening_def)
  from load_events[OF r m t pos] obtain x where "x \<in> set (gateway_events (cal (s_world s)))" .
  from next_gateway_event[OF r m st this] obtain s1 where b: "by_events S P H s s1" "others_ran cal s s1"
    and nx: "event_fails S H s1 \<or> (\<exists>c w. sim_next S (s_world s1) = Some (c, w) \<and> gateway_callback c)" by blast
  note f = others_ran_facts[OF b(2)]
  note r1 = by_events_reachable[OF r b(1)]
  from b(2) have same: "s_thread s1 = s_thread s" "s_received s1 = s_received s" "s_forwarded s1 = s_forwarded s"
    by (simp_all add: others_ran_def)
  show ?thesis
  proof (cases "event_fails S H s1")
    case True
    with b(1) same show ?thesis by blast
  next
    case False
    with nx obtain c w where nc: "sim_next S (s_world s1) = Some (c, w)" "gateway_callback c" by blast
    have l1: "listening cal s1" using f(1) l by simp
    note g = gateway_event_runs[OF r1 l1 nc False refl]
    let ?s2 = "main_event S P H c (s1\<lparr>s_world := w\<rparr>)"
    have b2: "by_events S P H s ?s2" by (rule by_events_trans[OF b(1) by_events_step[OF g(1)]])
    show ?thesis
    proof (cases "c = GatewayWaitForNextUpdate")
      case False
      with g b2 same f(2) show ?thesis by (intro exI[of _ ?s2]) simp
    next
      case True
      have "valid (s_user s1) (s_world s1)" using reachable_facts(1)[OF r1] l1 by (simp add: listening_def)
      from sim_next_event[OF this nc(1)] obtain e where
        "cal_events (cal (s_world s1)) = (e, cal_now (cal w), c) # cal_events (cal w)" using cal_next_SomeD by metis
      then have "\<not> front (cal (s_world s1))" using True by (simp add: front_def)
      moreover have "front (cal (s_world ?s2))"
        using wait_goes_back[OF r1 l1 _ nc(1)[unfolded True] _ _ refl] t inc pos f same(1) True by simp
      ultimately show ?thesis using g b2 same f(2,4) True by (intro exI[of _ ?s2]) simp
    qed
  qed
qed

lemma load_step:
  assumes r: "gw_reachable S cal valid P H s0 s" and s0: "\<not> cal_stopped (cal (s_world s0))"
    and l: "listening cal s" and t: "s_thread s = T_Recv d"
    and st: "\<not> cal_stopped (cal (s_world s))" and inc: "increasing_stamps s" and pos: "0 < load cal s"
  shows "\<exists>s'. by_events S P H s s' \<and> s_thread s' = s_thread s \<and> s_received s' = s_received s \<and>
    (event_fails S H s' \<or> listening cal s' \<and> load cal s' < load cal s)"
proof -
  from next_gateway_runs[OF r l t st inc pos] obtain s1 where
    1: "by_events S P H s s1" "s_thread s1 = s_thread s" "s_received s1 = s_received s"
    "event_fails S H s1 \<or> listening cal s1 \<and> (load cal s1 < load cal s \<or>
      load cal s1 = load cal s \<and> s_forwarded s1 = s_forwarded s \<and> front (cal (s_world s1)))" by blast
  note r1 = by_events_reachable[OF r 1(1)]
  show ?thesis
  proof (cases "event_fails S H s1 \<or> listening cal s1 \<and> load cal s1 < load cal s")
    case True
    with 1 show ?thesis by blast
  next
    case False
    with 1(4) have f: "listening cal s1" "load cal s1 = load cal s" "s_forwarded s1 = s_forwarded s"
      "front (cal (s_world s1))" by blast+
    have d: "m_delimiterField (s_gw s1) = m_delimiterField (s_gw s)"
      using reachable_delimiters[OF r] reachable_delimiters[OF r1] by simp
    have "\<not> cal_stopped (cal (s_world s1))"
      using reachable_stopped[OF r s0] reachable_stopped[OF r1 s0] st f(3) d by (simp add: stopped_by_message_def)
    moreover have "increasing_stamps s1" using inc f(3) d by (simp add: increasing_stamps_def)
    moreover have "s_thread s1 = T_Recv d" "0 < load cal s1" using 1(2) t pos f(2) by simp_all
    ultimately obtain s2 where 2: "by_events S P H s1 s2" "s_thread s2 = s_thread s1" "s_received s2 = s_received s1"
      "event_fails S H s2 \<or> listening cal s2 \<and> load cal s2 < load cal s1"
      using next_gateway_runs[OF r1 f(1)] f(4) by blast
    from by_events_trans[OF 1(1) 2(1)] 2(2-4) 1(2,3) f(2) show ?thesis by (intro exI[of _ s2]) simp
  qed
qed

text \<open>
  While the thread waits in \<open>recv\<close>, the event loop processes all messages in the queue and executes
  all updates, unless an event fails or one of the messages stops the simulator.
\<close>

lemma load_done:
  assumes "gw_reachable S cal valid P H s0 s" and s0: "\<not> cal_stopped (cal (s_world s0))"
    and "listening cal s" and "s_thread s = T_Recv d"
    and inc: "\<And>s'. gw_reachable S cal valid P H s0 s' \<Longrightarrow> s_received s' = s_received s \<Longrightarrow> increasing_stamps s'"
  shows "\<exists>s'. by_events S P H s s' \<and> s_thread s' = s_thread s \<and> s_received s' = s_received s \<and>
    (event_fails S H s' \<or> listening cal s' \<and> (load cal s' = 0 \<or> cal_stopped (cal (s_world s'))))"
  using assms
proof (induction "load cal s" arbitrary: s rule: less_induct)
  case less
  show ?case
  proof (cases "load cal s = 0 \<or> cal_stopped (cal (s_world s))")
    case True
    with less.prems(3) by_events_refl show ?thesis by blast
  next
    case False
    have "increasing_stamps s" by (rule less.prems(5)[OF less.prems(1) refl])
    from load_step[OF less.prems(1) s0 less.prems(3,4) _ this] False obtain s1 where
      1: "by_events S P H s s1" "s_thread s1 = s_thread s" "s_received s1 = s_received s"
      "event_fails S H s1 \<or> listening cal s1 \<and> load cal s1 < load cal s" by blast
    note r1 = by_events_reachable[OF less.prems(1) 1(1)]
    show ?thesis
    proof (cases "event_fails S H s1")
      case True
      with 1 show ?thesis by blast
    next
      case False
      with 1 have l: "load cal s1 < load cal s" "listening cal s1" by simp_all
      have "s_thread s1 = T_Recv d" using 1(2) less.prems(4) by simp
      from less.hyps[OF l(1) r1 s0 l(2) this less.prems(5)] 1(3) obtain s2 where
        2: "by_events S P H s1 s2" "s_thread s2 = s_thread s1" "s_received s2 = s_received s1"
        "event_fails S H s2 \<or> listening cal s2 \<and> (load cal s2 = 0 \<or> cal_stopped (cal (s_world s2)))" by metis
      from by_events_trans[OF 1(1) 2(1)] 2(2-4) 1(2,3) show ?thesis by (intro exI[of _ s2]) simp
    qed
  qed
qed

end

end
