(* ===== verification/Cosim_Completion.thy ===== *)
theory Cosim_Completion
  imports Closed_Loop_Properties Gateway_Eventually
begin

text \<open>
  The co-simulation can be completed: from every state of the closed loop in which the gateway
  listens, there is a way to the end of both programs with all messages processed and answered, so
  no deadlock and no endless loop is reachable. The rest of the simulation has to settle
  (\<open>settling_host\<close>), and its events must not fail.
\<close>

section \<open>What the two programs can reach\<close>

definition cosim_leads ::
    "('x callback, 'w) sim_ops \<Rightarrow> 'w os_ops \<Rightarrow> ('x, 'u, 'w) gw_host \<Rightarrow> 'v server_ops \<Rightarrow> server_config \<Rightarrow>
     ('v \<Rightarrow> string list) \<Rightarrow> ('w \<Rightarrow> string list) \<Rightarrow> ('u, 'w, 'v) cosim \<Rightarrow> ('u, 'w, 'v) cosim \<Rightarrow> bool" where
  "cosim_leads S P H R cfg sent outbox c c' \<longleftrightarrow>
     (\<exists>ls. cosim_execs S P H R cfg sent outbox True ls c = Some c')"

lemma cosim_execs_append:
  "cosim_execs S P H R cfg sent outbox whole (ls @ ls') c =
     (case cosim_execs S P H R cfg sent outbox whole ls c of
        None \<Rightarrow> None | Some c' \<Rightarrow> cosim_execs S P H R cfg sent outbox whole ls' c')"
  by (induction ls arbitrary: c) (simp_all split: option.splits)

lemma leads_refl: "cosim_leads S P H R cfg sent outbox c c"
  unfolding cosim_leads_def by (rule exI[of _ "[]"]) simp

lemma leads_step:
  "cosim_exec S P H R cfg sent outbox True l c = Some c' \<Longrightarrow> cosim_leads S P H R cfg sent outbox c c'"
  unfolding cosim_leads_def by (rule exI[of _ "[l]"]) simp

lemma leads_trans:
  assumes "cosim_leads S P H R cfg sent outbox c1 c2" and "cosim_leads S P H R cfg sent outbox c2 c3"
  shows "cosim_leads S P H R cfg sent outbox c1 c3"
proof -
  from assms obtain ls ls' where "cosim_execs S P H R cfg sent outbox True ls c1 = Some c2"
    "cosim_execs S P H R cfg sent outbox True ls' c2 = Some c3" by (auto simp: cosim_leads_def)
  then have "cosim_execs S P H R cfg sent outbox True (ls @ ls') c1 = Some c3" by (simp add: cosim_execs_append)
  then show ?thesis unfolding cosim_leads_def by blast
qed

lemma leads_reachable:
  "cosim_reachable S cal valid P H R cfg sent outbox True c0 c \<Longrightarrow> cosim_leads S P H R cfg sent outbox c c' \<Longrightarrow>
   cosim_reachable S cal valid P H R cfg sent outbox True c0 c'"
  unfolding cosim_leads_def using cosim_execs_reachable by blast

lemma leads_gateway:
  "gw_exec S P H l (cs_gw c) = Some g \<Longrightarrow> gateway_input sent c l \<Longrightarrow>
   cosim_leads S P H R cfg sent outbox c (c\<lparr>cs_gw := g\<rparr>)"
  by (rule leads_step[where l = "Gateway_step l"]) (simp add: cosim_exec_def)

lemma leads_events:
  assumes "by_events S P H (cs_gw c) g"
  shows "cosim_leads S P H R cfg sent outbox c (c\<lparr>cs_gw := g\<rparr>)"
proof -
  from assms obtain ls where "set ls \<subseteq> {L_Event}" "gw_execs S P H ls (cs_gw c) = Some g"
    by (auto simp: by_events_def)
  then show ?thesis
  proof (induction ls arbitrary: c)
    case Nil
    then have "c\<lparr>cs_gw := g\<rparr> = c" by auto
    then show ?case by (simp add: leads_refl)
  next
    case (Cons l ls)
    then obtain g1 where g1: "gw_exec S P H l (cs_gw c) = Some g1" "gw_execs S P H ls g1 = Some g"
      and l: "l = L_Event" by (auto split: option.splits)
    have 1: "cosim_leads S P H R cfg sent outbox c (c\<lparr>cs_gw := g1\<rparr>)"
      by (rule leads_gateway[OF g1(1)]) (simp add: l gateway_input_def)
    have "cosim_leads S P H R cfg sent outbox (c\<lparr>cs_gw := g1\<rparr>) (c\<lparr>cs_gw := g1\<rparr>\<lparr>cs_gw := g\<rparr>)"
      using Cons.IH[of "c\<lparr>cs_gw := g1\<rparr>"] Cons.prems(1) g1(2) by simp
    with leads_trans[OF 1] show ?case by simp
  qed
qed

section \<open>The thread takes in what has been sent\<close>

text \<open>The bytes that the thread holds, and how far it is from \<open>recv\<close>.\<close>

definition held :: "('u, 'w) gw_sys \<Rightarrow> nat" where
  "held s = (case s_thread s of T_Find d \<Rightarrow> length d | T_Recv d \<Rightarrow> length d
     | _ \<Rightarrow> length (m_messageBuffer (s_gw s)))"

definition pc_rank :: "thread_pc \<Rightarrow> nat" where
  "pc_rank pc = (case pc of T_Push _ \<Rightarrow> 4 | T_Forward \<Rightarrow> 3 | T_Loop \<Rightarrow> 2 | T_Find _ \<Rightarrow> 1 | _ \<Rightarrow> 0)"

definition drain_measure :: "('v \<Rightarrow> string list) \<Rightarrow> ('u, 'w, 'v) cosim \<Rightarrow> nat" where
  "drain_measure sent c = 10 * length (to_gateway sent c) + 5 * held (cs_gw c) + pc_rank (s_thread (cs_gw c))"

lemma received_less:
  fixes k n d :: nat
  assumes "0 < k" and "k \<le> n"
  shows "10 * (n - k) + 5 * (d + k) + 1 < 10 * n + 5 * d"
  using assms by (simp add: algebra_simps)

lemma thread_drains:
  assumes run: "thread_step S x s = Some s'" and nr: "\<nexists>d. s_thread s = T_Recv d"
    and nl: "\<And>d. s_thread s \<noteq> T_Lost d" and conn: "m_state (s_gw s) = CONNECTED"
    and D: "m_delimiterMessage (s_gw s) \<noteq> []"
  shows "s_received s' = s_received s \<and>
    5 * held s' + pc_rank (s_thread s') < 5 * held s + pc_rank (s_thread s)"
proof (cases "s_thread s")
  case (T_Find d)
  show ?thesis
  proof (cases "find_sub (m_delimiterMessage (s_gw s)) d")
    case None
    with run T_Find show ?thesis by (auto simp: thread_step_def held_def pc_rank_def)
  next
    case (Some k)
    have "0 < length (m_delimiterMessage (s_gw s))" using D by simp
    then have "5 * (length d - (k + length (m_delimiterMessage (s_gw s)))) + 4 < 5 * length d + 1"
      using find_sub_length[OF Some] by linarith
    with run T_Find Some show ?thesis by (auto simp: thread_step_def Let_def held_def pc_rank_def)
  qed
qed (use run nr nl conn in \<open>auto simp: thread_step_def Let_def held_def pc_rank_def\<close>)

lemma thread_runs:
  assumes "\<And>d. s_thread s \<noteq> T_Done d"
  obtains s' where "thread_step S x s = Some s'"
proof -
  have "thread_step S x s \<noteq> None"
  proof (cases "s_thread s")
    case (T_Find d)
    then show ?thesis by (cases "find_sub (m_delimiterMessage (s_gw s)) d") (simp_all add: thread_step_def Let_def)
  next
    case (T_Recv d)
    then show ?thesis by (cases x) (simp_all add: thread_step_def)
  qed (use assms in \<open>simp_all add: thread_step_def Let_def\<close>)
  with that show thesis by blast
qed

context gateway_host begin

lemma listening_thread:
  assumes v: "valid (s_user s) (s_world s)" and l: "listening cal s" and run: "thread_step S r s = Some s'"
    and x: "\<forall>d. s_thread s = T_Recv d \<longrightarrow> (\<exists>bs. r = Received bs)"
  shows "listening cal s'"
proof -
  have ctx: "\<not> stop_pending (cal (sim_schedule_with_context S n 0 GatewayForwardUp (s_world s)))" for n
    using sim_scheduled_context[OF v, of 0 n GatewayForwardUp] l by (auto simp: listening_def)
  show ?thesis
    using run l x ctx
    by (auto simp: thread_step_def Let_def listening_def split: thread_pc.splits option.splits recv_result.splits if_splits)
qed

lemma drain_step:
  assumes r: "gw_reachable S cal valid P H s0 (cs_gw c)" and l: "listening cal (cs_gw c)"
    and D: "m_delimiterMessage (s_gw (cs_gw c)) \<noteq> []"
    and nd: "\<not> ((\<exists>d. s_thread (cs_gw c) = T_Recv d) \<and> to_gateway sent c = [])"
  shows "\<exists>g. cosim_leads S P H R cfg sent outbox c (c\<lparr>cs_gw := g\<rparr>) \<and> gw_reachable S cal valid P H s0 g \<and>
    listening cal g \<and> drain_measure sent (c\<lparr>cs_gw := g\<rparr>) < drain_measure sent c"
proof -
  let ?s = "cs_gw c"
  have m: "s_main ?s = Main_Run" and conn: "m_state (s_gw ?s) = CONNECTED"
    and nl: "\<And>d. s_thread ?s \<noteq> T_Lost d" "\<And>d. s_thread ?s \<noteq> T_Done d" using l by (simp_all add: listening_def)
  have v: "valid (s_user ?s) (s_world ?s)" using reachable_facts(1)[OF r] m by simp
  obtain lb x g where x: "gw_exec S P H lb ?s = Some g" "gateway_input sent c lb" "thread_step S x ?s = Some g"
    "\<forall>d. s_thread ?s = T_Recv d \<longrightarrow> (\<exists>bs. x = Received bs)"
    and less: "drain_measure sent (c\<lparr>cs_gw := g\<rparr>) < drain_measure sent c"
  proof (cases "\<exists>d. s_thread ?s = T_Recv d")
    case True
    then obtain d where t: "s_thread ?s = T_Recv d" by blast
    with nd have ne: "to_gateway sent c \<noteq> []" by blast
    let ?bs = "take BUFFER_SIZE (to_gateway sent c)"
    have bs: "?bs \<noteq> []" "length ?bs \<le> BUFFER_SIZE" using ne by (simp_all add: BUFFER_SIZE_def)
    let ?g = "?s\<lparr>s_thread := T_Find (d @ ?bs), s_received := s_received ?s @ ?bs\<rparr>"
    have run: "thread_step S (Received ?bs) ?s = Some ?g" using t by (simp add: thread_step_def)
    have "to_gateway sent (c\<lparr>cs_gw := ?g\<rparr>) = drop (length ?bs) (to_gateway sent c)"
      by (simp add: to_gateway_def add.commute)
    then have "drain_measure sent (c\<lparr>cs_gw := ?g\<rparr>) =
        10 * (length (to_gateway sent c) - length ?bs) + 5 * (length d + length ?bs) + 1"
      unfolding drain_measure_def by (simp add: held_def pc_rank_def)
    moreover have "drain_measure sent c = 10 * length (to_gateway sent c) + 5 * length d"
      by (simp add: drain_measure_def held_def pc_rank_def t)
    moreover have "0 < length ?bs" "length ?bs \<le> length (to_gateway sent c)" using bs(1) by simp_all
    ultimately have less: "drain_measure sent (c\<lparr>cs_gw := ?g\<rparr>) < drain_measure sent c"
      using received_less[of "length ?bs" "length (to_gateway sent c)" "length d"] by (simp only:)
    have ex: "gw_exec S P H (L_Recv (Received ?bs)) ?s = Some ?g"
      using t run bs m by (simp add: gw_exec_def recv_ok_def main_alive_def)
    have "gateway_input sent c (L_Recv (Received ?bs))" by (simp add: gateway_input_def take_is_prefix)
    from that[OF ex this run _ less] show thesis by simp
  next
    case False
    obtain g where run: "thread_step S Closed ?s = Some g" using thread_runs[OF nl(2)] .
    have "gw_exec S P H L_Thread ?s = Some g"
      using False run m by (cases "s_thread ?s") (simp_all add: gw_exec_def main_alive_def)
    moreover note dr = thread_drains[OF run False nl(1) conn D]
    then have "to_gateway sent (c\<lparr>cs_gw := g\<rparr>) = to_gateway sent c" by (simp add: to_gateway_def)
    with dr have "drain_measure sent (c\<lparr>cs_gw := g\<rparr>) < drain_measure sent c"
      by (simp add: drain_measure_def)
    ultimately show thesis using run False by (intro that[of L_Thread g Closed]) (simp_all add: gateway_input_def)
  qed
  note step = gw_exec_step[OF x(1)]
  from leads_gateway[OF x(1,2)] gw_reachable.step[OF r step] listening_thread[OF v l x(3,4)] less
  show ?thesis by blast
qed

lemma drains:
  assumes "gw_reachable S cal valid P H s0 (cs_gw c)" and "listening cal (cs_gw c)"
    and D: "m_delimiterMessage (s_gw s0) \<noteq> []"
  shows "\<exists>g. cosim_leads S P H R cfg sent outbox c (c\<lparr>cs_gw := g\<rparr>) \<and> gw_reachable S cal valid P H s0 g \<and>
    listening cal g \<and> (\<exists>d. s_thread g = T_Recv d) \<and> to_gateway sent (c\<lparr>cs_gw := g\<rparr>) = []"
  using assms(1,2)
proof (induction "drain_measure sent c" arbitrary: c rule: less_induct)
  case less
  show ?case
  proof (cases "(\<exists>d. s_thread (cs_gw c) = T_Recv d) \<and> to_gateway sent c = []")
    case True
    have "c\<lparr>cs_gw := cs_gw c\<rparr> = c" by simp
    with True less.prems leads_refl show ?thesis by (intro exI[of _ "cs_gw c"]) simp
  next
    case False
    have "m_delimiterMessage (s_gw (cs_gw c)) \<noteq> []" using reachable_delimiters[OF less.prems(1)] D by simp
    from drain_step[OF less.prems this False] obtain g where
      g: "cosim_leads S P H R cfg sent outbox c (c\<lparr>cs_gw := g\<rparr>)" "gw_reachable S cal valid P H s0 g"
        "listening cal g" "drain_measure sent (c\<lparr>cs_gw := g\<rparr>) < drain_measure sent c" by blast
    from less.hyps[OF g(4)] g(2,3) obtain g' where
      g': "cosim_leads S P H R cfg sent outbox (c\<lparr>cs_gw := g\<rparr>) (c\<lparr>cs_gw := g\<rparr>\<lparr>cs_gw := g'\<rparr>)"
        "gw_reachable S cal valid P H s0 g'" "listening cal g'" "\<exists>d. s_thread g' = T_Recv d"
        "to_gateway sent (c\<lparr>cs_gw := g\<rparr>\<lparr>cs_gw := g'\<rparr>) = []" by auto
    with leads_trans[OF g(1) g'(1)] show ?thesis by (intro exI[of _ g']) simp
  qed
qed

end

section \<open>The server at the end\<close>

context closed_loop begin

text \<open>
  If the server has left its loop while the gateway listens, it has sent everything.
\<close>

lemma done_cause:
  assumes cfg: "positionDeltaX cfg \<noteq> 0" and it: "iterations cfg \<noteq> 0"
  shows "cosim_reachable S cal valid P H R cfg sent outbox True c0 c \<Longrightarrow> fst (cs_server c) = Sv_Done \<Longrightarrow>
    length (sent (snd (snd (cs_server c)))) = Suc (unat (iterations cfg)) \<or>
    m_state (s_gw (cs_gw c)) = STOPPING \<or> \<not> main_alive (cs_gw c)"
proof (induction rule: cosim_reachable.induct)
  case (start c)
  then show ?case by (auto simp: cosim_initial_def)
next
  case (step c0 c l c')
  note rg = cosim_gateway_reachable[OF step.hyps(1)]
  from loop_reachable[OF cfg step.hyps(1)] obtain sts ended where
    inv: "loop_inv cal sent outbox cfg sts ended c" by blast
  from step.hyps(2) show ?case
  proof (cases rule: cosim_exec_cases)
    case (gateway gl g)
    have "main_alive (cs_gw c)" using gw_step_alive[OF gateway(2)] by (simp add: main_alive_iff)
    moreover have "m_state (s_gw (cs_gw c)) = STOPPING \<Longrightarrow> m_state (s_gw g) = STOPPING"
      using gw_step_state[OF gateway(2) reachable_ok[OF rg]]
      by (cases "m_state (s_gw g)") (simp_all add: less_eq_gw_state_def)
    ultimately show ?thesis using step.IH step.prems gateway(3) by auto
  next
    case (send i st v s)
    obtain pc' st' v' where s: "s = (pc', st', v')" by (cases s)
    have sv: "server_inv sent cfg sts ended (Sv_Send i, st, v)" using inv send(1) by (simp add: loop_inv_def Let_def)
    from server_step_send[OF sv send(2)[unfolded s]] step.prems send(3) s it
    show ?thesis by (auto simp: server_inv_def turn_messages_def split: if_splits)
  next
    case (recv i st v n s)
    obtain pc' st' v' where s: "s = (pc', st', v')" by (cases s)
    have sv: "server_inv sent cfg sts ended (Sv_Recv i, st, v)" using inv recv(1) by (simp add: loop_inv_def Let_def)
    from server_step_recv[OF sv cfg recv(5)[unfolded s]] step.prems recv(6) s show ?thesis by simp
  next
    case (eof i st v s)
    then show ?thesis by (auto simp: gateway_ended_def)
  qed
qed

lemma gw_step_recv:
  assumes step: "gw_step S P H s l s'" and t: "s_thread s = T_Recv d" and ne: "s_thread s' \<noteq> T_Recv d"
  shows "\<exists>r. l = L_Recv r \<and> thread_step S r s = Some s'"
proof -
  have ev: "s_thread (main_event S P H c (s\<lparr>s_world := w\<rparr>)) = s_thread s" for c w
    by (auto simp: main_event_def main_stop_def Let_def split: sum.splits prod.splits)
  from step t ne ev main_join_frame[of s S P] show ?thesis
    by (cases rule: gw_step.cases) (auto simp: main_frame_def)
qed

text \<open>The thread of the gateway runs until the server has left its loop or the gateway stops.\<close>

lemma gateway_thread_ended:
  assumes ok: "sys_ok cal valid t0 (cs_gw c)" and step: "gw_step S P H (cs_gw c) l g" and inp: "gateway_input sent c l"
    and conn: "CONNECTED \<le> m_state (s_gw (cs_gw c))" and stays: "m_state (s_gw (cs_gw c)) = STOPPING \<Longrightarrow> m_state (s_gw g) = STOPPING"
    and old: "\<And>d. s_thread (cs_gw c) = T_Lost d \<or> s_thread (cs_gw c) = T_Done d \<Longrightarrow>
      server_ended (fst (cs_server c)) \<or> m_state (s_gw (cs_gw c)) = STOPPING"
    and d: "s_thread g = T_Lost d \<or> s_thread g = T_Done d"
  shows "server_ended (fst (cs_server c)) \<or> m_state (s_gw g) = STOPPING"
proof (rule gw_step_cases[OF step ok])
  assume "main_frame (cs_gw c) g"
  with d old stays show ?thesis by (auto simp: main_frame_def)
next
  fix r
  assume run: "thread_step S r (cs_gw c) = Some g"
  show ?thesis
  proof (cases "s_thread (cs_gw c)")
    case T_Loop
    with run d conn show ?thesis
      by (cases "m_state (s_gw (cs_gw c))") (auto simp: thread_step_def Let_def less_eq_gw_state_def split: if_splits)
  next
    case (T_Recv d')
    with d have "s_thread g \<noteq> T_Recv d'" by auto
    from gw_step_recv[OF step T_Recv this] obtain r' where
      "l = L_Recv r'" "thread_step S r' (cs_gw c) = Some g" by blast
    with inp T_Recv d show ?thesis by (cases r') (auto simp: thread_step_def gateway_input_def)
  next
    case (T_Find d')
    with run d show ?thesis by (auto simp: thread_step_def Let_def split: option.splits)
  qed (use run d old stays in \<open>auto simp: thread_step_def Let_def\<close>)
qed

lemma thread_ended:
  "cosim_reachable S cal valid P H R cfg sent outbox True c0 c \<Longrightarrow> CONNECTED \<le> m_state (s_gw (cs_gw c)) \<and>
    ((\<exists>d. s_thread (cs_gw c) = T_Lost d \<or> s_thread (cs_gw c) = T_Done d) \<longrightarrow>
      server_ended (fst (cs_server c)) \<or> m_state (s_gw (cs_gw c)) = STOPPING)"
proof (induction rule: cosim_reachable.induct)
  case (start c)
  then have i: "gw_initial S cal valid P (cs_gw c)" by (simp add: cosim_initial_def)
  then have "s_thread (cs_gw c) = T_Loop" by (auto simp: gw_initial_def)
  with gw_initial_steady[OF i] show ?case by (simp add: stop_sign_def)
next
  case (step c0 c l c')
  from step.hyps(2) show ?case
  proof (cases rule: cosim_exec_cases)
    case (gateway gl g)
    note ok = reachable_ok[OF cosim_gateway_reachable[OF step.hyps(1)]]
    note mono = gw_step_state[OF gateway(2) ok]
    have stays: "m_state (s_gw g) = STOPPING" if "m_state (s_gw (cs_gw c)) = STOPPING"
      using mono that by (cases "m_state (s_gw g)") (simp_all add: less_eq_gw_state_def)
    have "CONNECTED \<le> m_state (s_gw g)" using step.IH mono order_trans by blast
    moreover have "server_ended (fst (cs_server c)) \<or> m_state (s_gw g) = STOPPING"
      if "s_thread g = T_Lost d \<or> s_thread g = T_Done d" for d
      using gateway_thread_ended[OF ok gateway(2,1) _ stays _ that] step.IH by blast
    ultimately show ?thesis using gateway(3) by auto
  qed (use step.IH in \<open>auto simp: server_ended_def\<close>)
qed

text \<open>The messages that have arrived, while the server has not sent the terminate message.\<close>

lemma turns_go_on:
  assumes ok: "turns_ok cfg sts" and ms: "set ms \<subseteq> set (server_bodies cfg sts)"
  shows "\<not> terminated '' '' ms"
proof
  assume "terminated '' '' ms"
  then obtain m T where m: "m \<in> set ms" "T < 0" "message_stamp '' '' m = Some T" by (auto simp: terminated_def)
  with ms have "m \<in> set (server_bodies cfg sts)" by blast
  then obtain j where j: "j < length sts" "m = server_bodies cfg sts ! j"
    by (auto simp: in_set_conv_nth[of m "server_bodies cfg sts"] server_bodies_def)
  from turns_fields[OF ok j(1)] j(2) m(3) have "T = turn_stamp cfg j" by (auto simp: message_stamp_def)
  with turn_stamp_bounds(1)[OF ok j(1)] m(2) show False by simp
qed

lemma terminate_stops: "terminated '' '' (ms @ [''-1 0''])"
  using terminate_fields by (auto simp: terminated_def message_stamp_def Seconds_def)

lemma turns_arrived:
  assumes r: "gw_reachable S cal valid P H s0 s" and s0: "default_delimiters (s_gw s0)"
    and rec: "prefix (s_received s) (concat (sent v))" and inv: "server_inv sent cfg sts False (pc, st, v)"
    and ok: "turns_ok cfg sts"
  shows "\<not> terminated (m_delimiterField (s_gw s)) (s_forwarded s)"
proof -
  have "prefix (s_received s) (concat (turn_messages cfg 0 sts))"
    using rec inv by (simp add: server_inv_def)
  note served = served_prefix[OF gateway_host_axioms r s0 this]
  have "set (s_forwarded s) \<subseteq> set (server_bodies cfg sts)"
    using set_mono_prefix[OF append_prefixD[OF served(2)]] by (simp add: turn_frames)
  from turns_go_on[OF ok this] show ?thesis by (simp add: served(1))
qed

lemma stamps_increase:
  assumes r: "gw_reachable S cal valid P H s0 s" and s0: "default_delimiters (s_gw s0)" "outbox (s_world s0) = []"
    and rec: "prefix (s_received s) (concat (sent v))" and inv: "server_inv sent cfg sts ended (pc, st, v)"
    and ok: "turns_ok cfg sts"
  shows "increasing_stamps s"
proof -
  note b = responses_bounded[OF r s0 rec inv]
  from turns_stamps(2)[OF ok append_prefixD[OF b(1)]] show ?thesis by (simp add: increasing_stamps_def b(2))
qed

text \<open>All that the server has sent has arrived, the terminate message included.\<close>

lemma all_arrived:
  assumes r: "gw_reachable S cal valid P H s0 s" and s0: "default_delimiters (s_gw s0)"
    and t: "s_thread s = T_Recv d" and inv: "server_inv sent cfg sts True (pc, st, v)"
    and rec: "s_received s = concat (sent v)"
  shows "s_forwarded s @ m_messageQueue (s_gw s) = server_bodies cfg sts @ [''-1 0'']" and "d = []"
proof -
  have M: "m_delimiterMessage (s_gw s0) = CRLF" using s0 by (simp add: default_delimiters_def CRLF_def)
  note so = reachable_stream[OF r, unfolded M]
  then have "find_sub CRLF d = None" by (simp add: stream_ok_def pc_ok_def t)
  with stream_ok_frames[OF so] have "frames CRLF (s_received s) = (s_forwarded s @ m_messageQueue (s_gw s), d)"
    by (simp add: thread_data_def t frames_None CRLF_def)
  moreover have "s_received s = concat (turn_messages cfg 0 sts @ [terminate_message])"
    using rec inv by (simp add: server_inv_def)
  ultimately show "s_forwarded s @ m_messageQueue (s_gw s) = server_bodies cfg sts @ [''-1 0'']" "d = []"
    using stream_frames[of cfg sts] by simp_all
qed

end

section \<open>From turn to turn\<close>

text \<open>
  The co-simulation has ended well: the server has left its loop, the event loop of the gateway has
  ended and the receiving thread too; all turns have been sent, processed and answered, and then
  the terminate message has been processed.
\<close>

definition completed ::
    "('w \<Rightarrow> 'x callback calendar) \<Rightarrow> ('w \<Rightarrow> string list) \<Rightarrow> server_config \<Rightarrow> ('u, 'w, 'v) cosim \<Rightarrow> bool" where
  "completed cal outbox cfg c \<longleftrightarrow>
     (let s = cs_gw c in
      fst (cs_server c) = Sv_Done \<and> s_main s = Main_Destroy \<and> s_thread s = T_Done [] \<and>
      m_messageQueue (s_gw s) = [] \<and> carrier_count (cal (s_world s)) = 0 \<and>
      length (outbox (s_world s)) = unat (iterations cfg) \<and>
      (\<exists>sts. length sts = unat (iterations cfg) \<and> s_forwarded s = server_bodies cfg sts @ [''-1 0'']))"

text \<open>
  The closed loop with a rest of the simulation that settles, and responses that the server can
  receive as a whole.
\<close>

locale completing_loop =
  closed_loop S cal valid P H outbox R sent + settling_host S cal valid P H
  for S :: "('x callback, 'w) sim_ops" and cal :: "'w \<Rightarrow> 'x callback calendar"
    and valid :: "'u \<Rightarrow> 'w \<Rightarrow> bool" and P :: "'w os_ops" and H :: "('x, 'u, 'w) gw_host"
    and outbox :: "'w \<Rightarrow> string list" and R :: "'v server_ops" and sent :: "'v \<Rightarrow> string list" +
  fixes cfg :: server_config and c0 :: "('u, 'w, 'v) cosim"
  assumes deltas: "positionDeltaX cfg \<noteq> 0" "timeDelta cfg \<noteq> 0"
    and horizon: "unat (timeStart cfg) + unat (timeDelta cfg) * unat (iterations cfg) < 2 ^ 31"
    and turns: "iterations cfg \<noteq> 0"
    and running: "\<not> cal_stopped (cal (s_world (cs_gw c0)))"
    and short: "cosim_reachable S cal valid P H R cfg sent outbox True c0 c \<Longrightarrow>
      m \<in> set (outbox (s_world (cs_gw c))) \<Longrightarrow> m \<noteq> [] \<and> length m < BUFFER_SIZE"
begin

abbreviation reach where "reach \<equiv> cosim_reachable S cal valid P H R cfg sent outbox True c0"
abbreviation leads where "leads \<equiv> cosim_leads S P H R cfg sent outbox"

lemma loop_state:
  assumes "reach c"
  obtains sts ended where "default_delimiters (s_gw (cs_gw c0))" and "outbox (s_world (cs_gw c0)) = []"
    and "loop_inv cal sent outbox cfg sts ended c" and "server_inv sent cfg sts ended (cs_server c)"
    and "prefix (s_received (cs_gw c)) (concat (sent (snd (snd (cs_server c)))))" and "turns_ok cfg sts"
proof -
  from loop_reachable[OF deltas(1) assms] obtain sts ended where
    i: "cosim_initial S cal valid P cfg sent outbox c0" "loop_inv cal sent outbox cfg sts ended c" by blast
  then have sv: "server_inv sent cfg sts ended (cs_server c)"
    and "prefix (s_received (cs_gw c)) (concat (sent (snd (snd (cs_server c)))))"
    by (simp_all add: loop_inv_def Let_def)
  moreover have "turns_ok cfg sts" using sv deltas horizon by (simp add: turns_ok_def server_inv_def split_beta)
  ultimately show thesis using i that by (simp add: cosim_initial_def)
qed

lemma listens:
  assumes r: "reach c" and m: "s_main (cs_gw c) = Main_Run" and pc: "fst (cs_server c) \<noteq> Sv_Done"
  shows "listening cal (cs_gw c)"
proof -
  from r obtain sts ended where inv: "loop_inv cal sent outbox cfg sts ended c"
    and sv: "server_inv sent cfg sts ended (cs_server c)" by (rule loop_state)
  have "\<not> stop_sign cal (cs_gw c)" using inv m pc by (simp add: loop_inv_def Let_def in_loop_def)
  moreover have "\<not> server_ended (fst (cs_server c))"
    using sv pc by (cases "cs_server c") (auto simp: server_ended_def server_inv_def split: server_pc.splits)
  ultimately show ?thesis using thread_ended[OF r] m by (auto simp: listening_def stop_sign_def)
qed

text \<open>The gateway takes in and processes what the server has sent.\<close>

lemma processes:
  assumes r: "reach c" and l: "listening cal (cs_gw c)"
  shows "\<exists>g d. leads c (c\<lparr>cs_gw := g\<rparr>) \<and> (event_fails S H g \<or>
    listening cal g \<and> s_thread g = T_Recv d \<and> to_gateway sent (c\<lparr>cs_gw := g\<rparr>) = [] \<and>
    (load cal g = 0 \<or> cal_stopped (cal (s_world g))))"
proof -
  from r obtain sts ended where s0: "default_delimiters (s_gw (cs_gw c0))" "outbox (s_world (cs_gw c0)) = []"
    by (rule loop_state)
  then have D: "m_delimiterMessage (s_gw (cs_gw c0)) \<noteq> []" by (simp add: default_delimiters_def)
  from drains[OF cosim_gateway_reachable[OF r] l D] obtain g d where
    g: "leads c (c\<lparr>cs_gw := g\<rparr>)" "listening cal g" "s_thread g = T_Recv d" "to_gateway sent (c\<lparr>cs_gw := g\<rparr>) = []"
    by blast
  note r1 = leads_reachable[OF r g(1)]
  obtain pc st v where cs: "cs_server c = (pc, st, v)" by (cases "cs_server c")
  from r1 obtain sts1 ended1 where sv: "server_inv sent cfg sts1 ended1 (pc, st, v)"
    and rec: "prefix (s_received g) (concat (sent v))" and ok: "turns_ok cfg sts1"
    by (rule loop_state) (simp add: cs)
  have rg: "gw_reachable S cal valid P H (cs_gw c0) g" using cosim_gateway_reachable[OF r1] by simp
  have inc: "increasing_stamps s'"
    if "gw_reachable S cal valid P H (cs_gw c0) s'" "s_received s' = s_received g" for s'
    using stamps_increase[OF that(1) s0 _ sv ok] rec that(2) by simp
  from load_done[OF rg running g(2,3) inc] obtain g' where
    g': "by_events S P H g g'" "s_thread g' = s_thread g" "s_received g' = s_received g"
    "event_fails S H g' \<or> listening cal g' \<and> (load cal g' = 0 \<or> cal_stopped (cal (s_world g')))" by blast
  have "leads (c\<lparr>cs_gw := g\<rparr>) (c\<lparr>cs_gw := g'\<rparr>)" using leads_events[of S P H "c\<lparr>cs_gw := g\<rparr>" g'] g'(1) by simp
  from leads_trans[OF g(1) this] g(3,4) g'(2-4) show ?thesis
    by (intro exI[of _ g'] exI[of _ d]) (simp add: to_gateway_def)
qed

text \<open>A message of a turn is answered, and the server receives the response.\<close>

lemma load_0:
  assumes "load cal g = 0"
  shows "m_messageQueue (s_gw g) = []" and "carrier_count (cal (s_world g)) = 0"
  using assms by (simp_all add: load_def)

lemma answers:
  assumes r: "reach c" and l: "listening cal (cs_gw c)" and pc: "fst (cs_server c) = Sv_Recv i"
  shows "\<exists>c'. leads c c' \<and> (event_fails S H (cs_gw c') \<or>
    listening cal (cs_gw c') \<and> fst (cs_server c') = Sv_Send (i + 1) \<and> unat (i + 1) = Suc (unat i))"
proof -
  from processes[OF r l] obtain g d where
    g: "leads c (c\<lparr>cs_gw := g\<rparr>)" "event_fails S H g \<or> listening cal g \<and> s_thread g = T_Recv d \<and>
      to_gateway sent (c\<lparr>cs_gw := g\<rparr>) = [] \<and> (load cal g = 0 \<or> cal_stopped (cal (s_world g)))" by blast
  show ?thesis
  proof (cases "event_fails S H g")
    case True
    with g(1) show ?thesis by (intro exI[of _ "c\<lparr>cs_gw := g\<rparr>"]) simp
  next
    case False
    let ?c = "c\<lparr>cs_gw := g\<rparr>" and ?o = "outbox (s_world g)"
    from False g(2) have l': "listening cal g" and t: "s_thread g = T_Recv d" and all: "to_gateway sent ?c = []"
      and p: "load cal g = 0 \<or> cal_stopped (cal (s_world g))" by simp_all
    note r' = leads_reachable[OF r g(1)]
    have rg: "gw_reachable S cal valid P H (cs_gw c0) g" using cosim_gateway_reachable[OF r'] by simp
    obtain st v where cs: "cs_server c = (Sv_Recv i, st, v)" using pc by (cases "cs_server c") auto
    from r' obtain sts ended where s0: "default_delimiters (s_gw (cs_gw c0))"
      and inv: "loop_inv cal sent outbox cfg sts ended ?c" and sv: "server_inv sent cfg sts ended (Sv_Recv i, st, v)"
      and rec: "prefix (s_received g) (concat (sent v))" and ok: "turns_ok cfg sts"
      by (rule loop_state) (simp add: cs)
    then have "server_inv sent cfg sts False (Sv_Recv i, st, v)" by (simp add: server_inv_def)
    from turns_arrived[OF rg s0 rec this ok] reachable_stopped[OF rg running] p have q: "load cal g = 0"
      by (simp add: stopped_by_message_def)
    have m: "s_main g = Main_Run" using l' by (simp add: listening_def)
    then have alive: "\<forall>f. s_main (cs_gw ?c) \<noteq> Main_Failed f" by simp
    have pc': "fst (cs_server ?c) = Sv_Recv i" "s_thread (cs_gw ?c) = T_Recv d" using cs t by simp_all
    from waiting_balance[OF deltas horizon r' pc'(1) alive pc'(2) all] load_0[OF q]
    have len: "length ?o = Suc (unat i)" by (auto simp: carrier_count_def carried_events_def)
    from inv have rd: "cs_read c = length (concat (take (unat i) ?o))" by (simp add: loop_inv_def Let_def cs)
    have "?o = take (unat i) ?o @ [?o ! unat i]" using take_Suc_conv_app_nth[of "unat i" ?o] len by simp
    then have "concat ?o = concat (take (unat i) ?o @ [?o ! unat i])" by (rule arg_cong)
    then have to: "to_server outbox ?c = ?o ! unat i" by (simp add: to_server_def rd)
    have "?o ! unat i \<in> set ?o" using len by simp
    with short[OF r'] have sh: "?o ! unat i \<noteq> []" "length (?o ! unat i) < BUFFER_SIZE" by simp_all
    obtain s where step: "server_step R cfg (Received (?o ! unat i)) (Sv_Recv i, st, v) = Some s"
      by (simp add: server_step_def)
    obtain pc1 st1 v1 where s: "s = (pc1, st1, v1)" by (cases s)
    let ?n = "length (?o ! unat i)"
    have "cosim_exec S P H R cfg sent outbox True (Server_recv ?n) ?c =
        Some (?c\<lparr>cs_server := s, cs_read := cs_read c + ?n\<rparr>)"
      using sh step by (simp add: cosim_exec_def cs to)
    from leads_trans[OF g(1) leads_step[OF this]] l' server_step_recv[OF sv deltas(1) step[unfolded s]]
    show ?thesis by (intro exI[of _ "?c\<lparr>cs_server := s, cs_read := cs_read c + ?n\<rparr>"]) (simp add: s)
  qed
qed

text \<open>The server sends the messages of all turns.\<close>

lemma sends:
  assumes pc: "fst (cs_server c) = Sv_Send i"
  obtains s where "leads c (c\<lparr>cs_server := s\<rparr>)" and "server_step R cfg Closed (cs_server c) = Some s"
proof -
  obtain s where s: "server_step R cfg Closed (cs_server c) = Some s"
    using pc by (cases "cs_server c") (simp add: server_step_def)
  then have "cosim_exec S P H R cfg sent outbox True Server_send c = Some (c\<lparr>cs_server := s\<rparr>)"
    using pc by (simp add: cosim_exec_def)
  from that[OF leads_step[OF this] s] show thesis .
qed

lemma all_turns:
  assumes "reach c" and "listening cal (cs_gw c)" and "fst (cs_server c) = Sv_Send i"
  shows "\<exists>c'. leads c c' \<and> (event_fails S H (cs_gw c') \<or>
    listening cal (cs_gw c') \<and> fst (cs_server c') = Sv_Done)"
  using assms
proof (induction "unat (iterations cfg) - unat i" arbitrary: c i rule: less_induct)
  case less
  obtain st v where cs: "cs_server c = (Sv_Send i, st, v)" using less.prems(3) by (cases "cs_server c") auto
  from sends[OF less.prems(3)] obtain s where
    s: "leads c (c\<lparr>cs_server := s\<rparr>)" "server_step R cfg Closed (Sv_Send i, st, v) = Some s" by (metis cs)
  obtain pc1 st1 v1 where q: "s = (pc1, st1, v1)" by (cases s)
  from less.prems(1) obtain sts ended where sv: "server_inv sent cfg sts ended (Sv_Send i, st, v)"
    by (rule loop_state) (simp add: cs)
  note n = server_step_send[OF sv s(2)[unfolded q]]
  show ?case
  proof (cases "iterations cfg \<le> i")
    case True
    with n s(1) less.prems(2) q show ?thesis by (intro exI[of _ "c\<lparr>cs_server := s\<rparr>"]) simp
  next
    case False
    with n have pc: "fst (cs_server (c\<lparr>cs_server := s\<rparr>)) = Sv_Recv i" by (simp add: q)
    note r = leads_reachable[OF less.prems(1) s(1)]
    have "listening cal (cs_gw (c\<lparr>cs_server := s\<rparr>))" using less.prems(2) by simp
    from answers[OF r this pc] obtain c1 where
      c1: "leads (c\<lparr>cs_server := s\<rparr>) c1" "event_fails S H (cs_gw c1) \<or>
        listening cal (cs_gw c1) \<and> fst (cs_server c1) = Sv_Send (i + 1) \<and> unat (i + 1) = Suc (unat i)" by blast
    note l1 = leads_trans[OF s(1) c1(1)]
    show ?thesis
    proof (cases "event_fails S H (cs_gw c1)")
      case True
      with l1 show ?thesis by blast
    next
      case nf: False
      with c1(2) have c: "listening cal (cs_gw c1)" "fst (cs_server c1) = Sv_Send (i + 1)"
        "unat (i + 1) = Suc (unat i)" by blast+
      have "unat i < unat (iterations cfg)" using False by (simp add: word_le_nat_alt)
      then have "unat (iterations cfg) - unat (i + 1) < unat (iterations cfg) - unat i" using c(3) by linarith
      from less.hyps[OF this leads_reachable[OF less.prems(1) l1] c(1,2)] l1 leads_trans show ?thesis by metis
    qed
  qed
qed

text \<open>After the terminate message both threads of the gateway end.\<close>

lemma threads_end:
  assumes r: "reach c" and l: "listening cal (cs_gw c)" and pc: "fst (cs_server c) = Sv_Done"
    and t: "s_thread (cs_gw c) = T_Recv d" and all: "to_gateway sent c = []"
    and st: "cal_stopped (cal (s_world (cs_gw c)))"
  shows "\<exists>g. leads c (c\<lparr>cs_gw := g\<rparr>) \<and> s_main g = Main_Destroy \<and> s_thread g = T_Done d \<and>
    s_gw g = s_gw (cs_gw c) \<and> s_forwarded g = s_forwarded (cs_gw c) \<and>
    outbox (s_world g) = outbox (s_world (cs_gw c)) \<and>
    carrier_count (cal (s_world g)) = carrier_count (cal (s_world (cs_gw c)))"
proof -
  let ?s = "cs_gw c"
  let ?g1 = "?s\<lparr>s_main := Main_Destroy\<rparr>"
  let ?g2 = "?g1\<lparr>s_thread := T_Lost d\<rparr>"
  let ?w = "sim_schedule_with_context S (m_context (s_gw ?s)) 0 GatewayStop (s_world ?s)"
  let ?g3 = "?g2\<lparr>s_world := ?w, s_thread := T_Done d\<rparr>"
  have m: "s_main ?s = Main_Run" using l by (simp add: listening_def)
  have v: "valid (s_user ?s) (s_world ?s)" using reachable_facts(1)[OF cosim_gateway_reachable[OF r]] m by simp
  have "cal_next (cal (s_world ?s)) = None" using st by (simp add: cal_next_def)
  with event_simulator.next_None[OF simulator v] have "sim_next S (s_world ?s) = None" by simp
  then have 1: "gw_exec S P H L_End ?s = Some ?g1" using m by (simp add: gw_exec_def)
  have 2: "gw_exec S P H (L_Recv Closed) ?g1 = Some ?g2"
    using t by (simp add: gw_exec_def recv_ok_def main_alive_def thread_step_def)
  have 3: "gw_exec S P H L_Thread ?g2 = Some ?g3" by (simp add: gw_exec_def main_alive_def thread_step_def)
  have l1: "leads c (c\<lparr>cs_gw := ?g1\<rparr>)" by (rule leads_gateway[OF 1]) (simp add: gateway_input_def)
  have "gateway_input sent (c\<lparr>cs_gw := ?g1\<rparr>) (L_Recv Closed)"
    using all pc by (simp add: gateway_input_def server_ended_def to_gateway_def)
  with 2 have l2: "leads (c\<lparr>cs_gw := ?g1\<rparr>) (c\<lparr>cs_gw := ?g2\<rparr>)"
    using leads_gateway[of S P H "L_Recv Closed" "c\<lparr>cs_gw := ?g1\<rparr>" ?g2] by simp
  have l3: "leads (c\<lparr>cs_gw := ?g2\<rparr>) (c\<lparr>cs_gw := ?g3\<rparr>)"
    using leads_gateway[of S P H L_Thread "c\<lparr>cs_gw := ?g2\<rparr>" ?g3] 3 by (simp add: gateway_input_def)
  obtain e where "cal ?w = cal_schedule e 0 GatewayStop (cal (s_world ?s))"
    using sim_scheduled_context[OF v, of 0 "m_context (s_gw ?s)" GatewayStop] by auto
  then have "carrier_count (cal ?w) = carrier_count (cal (s_world ?s))"
    by (simp add: carrier_count_def carried_schedule_other)
  with leads_trans[OF l1 leads_trans[OF l2 l3]] out_context show ?thesis by (intro exI[of _ ?g3]) simp
qed

text \<open>After the server has left its loop, what it sent is processed to the last message.\<close>

lemma nothing_left:
  assumes r: "reach c" and l: "listening cal (cs_gw c)" and pc: "fst (cs_server c) = Sv_Done"
    and t: "s_thread (cs_gw c) = T_Recv d" and all: "to_gateway sent c = []"
    and p: "load cal (cs_gw c) = 0 \<or> cal_stopped (cal (s_world (cs_gw c)))"
  shows "d = [] \<and> cal_stopped (cal (s_world (cs_gw c))) \<and> m_messageQueue (s_gw (cs_gw c)) = [] \<and>
    (\<exists>sts. length sts = unat (iterations cfg) \<and> s_forwarded (cs_gw c) = server_bodies cfg sts @ [''-1 0''] \<and>
      length (outbox (s_world (cs_gw c))) = length sts \<and> carrier_count (cal (s_world (cs_gw c))) = 0)"
proof -
  let ?g = "cs_gw c"
  note rg = cosim_gateway_reachable[OF r]
  obtain st v where cs: "cs_server c = (Sv_Done, st, v)" using pc by (cases "cs_server c") auto
  from r obtain sts ended where s0: "default_delimiters (s_gw (cs_gw c0))" "outbox (s_world (cs_gw c0)) = []"
    and inv: "loop_inv cal sent outbox cfg sts ended c" and sv: "server_inv sent cfg sts ended (Sv_Done, st, v)"
    and rec: "prefix (s_received ?g) (concat (sent v))" and ok: "turns_ok cfg sts"
    by (rule loop_state) (simp add: cs)
  have m: "s_main ?g = Main_Run" "m_state (s_gw ?g) = CONNECTED" using l by (simp_all add: listening_def)
  have "length (sent v) = Suc (unat (iterations cfg))"
    using done_cause[OF deltas(1) turns r] m by (simp add: cs main_alive_def)
  with sv have e: "ended" "length sts = unat (iterations cfg)"
    by (auto simp: server_inv_def turn_messages_def split: if_splits)
  have "s_received ?g = concat (sent v)" using rec all by (auto simp: to_gateway_def cs prefix_def)
  note f = all_arrived[OF rg s0(1) t sv[unfolded eqTrueI[OF e(1)]] this]
  have D: "m_delimiterField (s_gw ?g) = '' ''" by (rule responses_bounded(2)[OF rg s0 rec sv])
  have stop: "cal_stopped (cal (s_world ?g)) \<longleftrightarrow> terminated '' '' (s_forwarded ?g)"
    using reachable_stopped[OF rg running] by (simp add: stopped_by_message_def D)
  have q: "m_messageQueue (s_gw ?g) = []"
  proof (rule ccontr)
    assume ne: "m_messageQueue (s_gw ?g) \<noteq> []"
    then obtain q m where "m_messageQueue (s_gw ?g) = q @ [m]" by (cases "m_messageQueue (s_gw ?g)" rule: rev_cases) auto
    with f(1) have "s_forwarded ?g @ q = server_bodies cfg sts" by simp
    then have "set (s_forwarded ?g) \<subseteq> set (server_bodies cfg sts)" by (metis Un_upper1 set_append)
    with turns_go_on[OF ok this] stop p load_0(1)[of ?g] ne show False by blast
  qed
  with f(1) have fw: "s_forwarded ?g = server_bodies cfg sts @ [''-1 0'']" by simp
  have out: "length (outbox (s_world ?g)) = length sts"
    using inv m(1) by (simp add: loop_inv_def Let_def cs in_loop_def)
  have "length (time_stamps '' '' (s_forwarded ?g)) = length sts"
    by (simp add: fw terminate_stamps turns_all_stamps[OF ok])
  then have "carrier_count (cal (s_world ?g)) = 0"
    using reachable_answered[OF rg] m(1) out by (simp add: answered_def s0(2) D)
  with stop terminate_stops fw q out e(2) f(2) show ?thesis by auto
qed

lemma ends:
  assumes r: "reach c" and l: "listening cal (cs_gw c)" and pc: "fst (cs_server c) = Sv_Done"
  shows "\<exists>c'. leads c c' \<and> (event_fails S H (cs_gw c') \<or> completed cal outbox cfg c')"
proof -
  from processes[OF r l] obtain g d where
    g: "leads c (c\<lparr>cs_gw := g\<rparr>)" "event_fails S H g \<or> listening cal g \<and> s_thread g = T_Recv d \<and>
      to_gateway sent (c\<lparr>cs_gw := g\<rparr>) = [] \<and> (load cal g = 0 \<or> cal_stopped (cal (s_world g)))" by blast
  let ?c = "c\<lparr>cs_gw := g\<rparr>"
  show ?thesis
  proof (cases "event_fails S H g")
    case True
    with g(1) show ?thesis by (intro exI[of _ ?c]) simp
  next
    case False
    then have c: "listening cal (cs_gw ?c)" "fst (cs_server ?c) = Sv_Done" "s_thread (cs_gw ?c) = T_Recv d"
      "to_gateway sent ?c = []" and p: "load cal (cs_gw ?c) = 0 \<or> cal_stopped (cal (s_world (cs_gw ?c)))"
      using g(2) pc by simp_all
    note r' = leads_reachable[OF r g(1)]
    note n = nothing_left[OF r' c p]
    then have st: "cal_stopped (cal (s_world (cs_gw ?c)))" by blast
    from threads_end[OF r' c st] obtain g' where g': "leads ?c (?c\<lparr>cs_gw := g'\<rparr>)"
      "s_main g' = Main_Destroy" "s_thread g' = T_Done d" "s_gw g' = s_gw g" "s_forwarded g' = s_forwarded g"
      "outbox (s_world g') = outbox (s_world g)" "carrier_count (cal (s_world g')) = carrier_count (cal (s_world g))"
      by auto
    then have "completed cal outbox cfg (?c\<lparr>cs_gw := g'\<rparr>)" using n pc by (auto simp: completed_def)
    with leads_trans[OF g(1) g'(1)] show ?thesis by blast
  qed
qed

lemma loop_completes:
  assumes r: "reach c" and l: "listening cal (cs_gw c)"
  shows "\<exists>c'. leads c c' \<and> (event_fails S H (cs_gw c') \<or> completed cal outbox cfg c')"
proof -
  have "\<exists>c'. leads c c' \<and> (event_fails S H (cs_gw c') \<or> listening cal (cs_gw c') \<and> fst (cs_server c') = Sv_Done)"
  proof (cases "fst (cs_server c)")
    case (Sv_Send i)
    from all_turns[OF r l this] show ?thesis .
  next
    case (Sv_Recv i)
    from answers[OF r l this] obtain c1 where c1: "leads c c1" "event_fails S H (cs_gw c1) \<or>
        listening cal (cs_gw c1) \<and> fst (cs_server c1) = Sv_Send (i + 1)" by blast
    with all_turns[OF leads_reachable[OF r c1(1)]] leads_trans[OF c1(1)] show ?thesis by blast
  next
    case Sv_Done
    with l leads_refl show ?thesis by blast
  next
    case (Sv_Failed f)
    from r obtain sts ended where "server_inv sent cfg sts ended (cs_server c)" by (rule loop_state)
    with Sv_Failed show ?thesis by (cases "cs_server c") (simp add: server_inv_def)
  qed
  then obtain c1 where c1: "leads c c1" "event_fails S H (cs_gw c1) \<or>
      listening cal (cs_gw c1) \<and> fst (cs_server c1) = Sv_Done" by blast
  with ends[OF leads_reachable[OF r c1(1)]] leads_trans[OF c1(1)] show ?thesis by blast
qed

end

end
