(* ===== verification/Settled_Platform.thy ===== *)
theory Settled_Platform
  imports Gateway_Eventually Closed_Loop_Properties
begin

text \<open>
  The example on the reference platform settles: a send request runs once, and each packet that is
  sent lowers the number of packets that its application has left, so that no chain of the events
  of the applications is infinite.
\<close>

section \<open>What is left to do\<close>

definition request_event :: "'x callback \<Rightarrow> bool" where
  "request_event c \<longleftrightarrow> (\<exists>i n. c = AppProcessSendRequest i n)"

text \<open>An event counts one, a \<open>SendPacket\<close> also the packets that its application has left.\<close>

definition event_weight :: "('a, 't, 's) tsa list \<Rightarrow> 'x callback \<Rightarrow> nat" where
  "event_weight as c =
     Suc (case c of AppSendPacket i \<Rightarrow> if i < length as then unat (m_packetCount (as ! i)) else 0 | _ \<Rightarrow> 0)"

definition weights :: "('a, 't, 's) tsa list \<Rightarrow> 'x callback event list \<Rightarrow> nat" where
  "weights as vs = sum_list (map (\<lambda>v. event_weight as (ev_call v)) vs)"

abbreviation requests :: "'x callback event list \<Rightarrow> nat" where
  "requests vs \<equiv> length (filter (\<lambda>v. request_event (ev_call v)) vs)"

lemma weights_simps [simp]:
  "weights as [] = 0" "weights as (v # vs) = event_weight as (ev_call v) + weights as vs"
  by (simp_all add: weights_def)

lemma weights_place [simp]: "weights as (place v vs) = event_weight as (ev_call v) + weights as vs"
proof -
  let ?P = "\<lambda>x. ev_time x \<le> ev_time v"
  have "weights as (takeWhile ?P vs) + weights as (dropWhile ?P vs) = weights as vs"
    unfolding weights_def by (simp flip: sum_list_append map_append)
  then show ?thesis by (simp add: place_def weights_def)
qed

lemma weights_filter: "weights as (filter Q vs) \<le> weights as vs"
  by (induction vs) simp_all

lemma requests_filter: "requests (filter Q vs) \<le> requests vs"
  by (induction vs) simp_all

lemma event_weight_fewer:
  assumes "i < length as" and "m_packetCount a \<le> m_packetCount (as ! i)"
  shows "event_weight (as[i := a]) c \<le> event_weight as c"
  using assms by (cases c) (auto simp: event_weight_def nth_list_update word_le_nat_alt)

lemma weights_fewer:
  assumes "i < length as" and "m_packetCount a \<le> m_packetCount (as ! i)"
  shows "weights (as[i := a]) vs \<le> weights as vs"
  unfolding weights_def by (rule sum_list_mono) (rule event_weight_fewer[OF assms])

lemma event_weight_pos: "0 < event_weight as c"
  by (simp add: event_weight_def)

section \<open>The applications on the reference platform\<close>

lemma ref_request:
  assumes "ProcessSendRequest ref_sim i n (a, w) = (a', w')"
  shows "requests (rw_events w') = requests (rw_events w) \<and> rw_stopped w' = rw_stopped w"
  using assms
  by (auto simp: ProcessSendRequest_def ref_sim_simps ref_insert_def length_filter_place request_event_def
      split: if_splits)

lemma ref_send_one: "rw_events (send_one ref_net i a k w) = rw_events w \<and> rw_stopped (send_one ref_net i a k w) = rw_stopped w"
  by (simp add: send_one_def ref_net_def Let_def)

lemma ref_packet:
  assumes "SendPacket ref_sim ref_net i (a, w) = Inr (a', w')"
  shows "rw_stopped w' = rw_stopped w \<and> (a' = a \<and> w' = w \<or>
    0 < m_packetCount a \<and> m_packetCount a' = m_packetCount a - 1 \<and>
    (\<exists>e t. rw_events w' = place (e, t, AppSendPacket i) (rw_events w)))"
proof (cases "0 < m_packetCount a")
  case False
  with assms show ?thesis by (auto simp: SendPacket_def split: if_splits)
next
  case True
  with assms obtain k where k: "m_socket_tsa a = Some k"
    by (auto simp: SendPacket_def split: if_splits option.splits)
  let ?w = "send_one ref_net i a k w"
  obtain e w2 where i: "ref_insert (m_packetInterval a) (AppSendPacket i) ?w = (e, w2)" by fastforce
  then have w2: "rw_events w2 = place (e, rw_now ?w + m_packetInterval a, AppSendPacket i) (rw_events ?w)"
    "rw_stopped w2 = rw_stopped ?w" by (auto simp: ref_insert_def)
  from assms True k i have "m_packetCount a' = m_packetCount a - 1" "w' = w2"
    by (auto simp: SendPacket_def ref_sim_simps Let_def split: if_splits)
  with w2 ref_send_one[of i a k w] True show ?thesis by auto
qed

lemma ref_cancel:
  assumes "CancelEvents ref_sim (a, w) = (a', w')"
  shows "a' = a \<and> rw_stopped w' = rw_stopped w \<and> (\<exists>Q. rw_events w' = filter Q (rw_events w))"
proof -
  have "rw_events w = filter (\<lambda>v. True) (rw_events w)" by simp
  with assms show ?thesis
    by (auto simp: CancelEvents_def cancel_event_def ref_sim_simps split: option.splits if_splits
        intro: exI[of _ "\<lambda>v. True"])
qed

lemma ref_start_app:
  assumes "StartApplication ref_sim ref_net i (a, w) = Inr (a', w')"
  shows "m_packetCount a' = m_packetCount a \<and> rw_stopped w' = rw_stopped w \<and>
    (\<exists>Q. rw_events w' = filter Q (rw_events w))"
proof -
  from assms obtain b where "CancelEvents ref_sim (b, w) = (a', w')" "m_packetCount b = m_packetCount a"
    by (auto simp: StartApplication_def bind_socket_def ref_net_def ConnectionSucceeded_def Let_def
        split: option.splits if_splits)
  with ref_cancel show ?thesis by metis
qed

section \<open>Every event lowers it\<close>

definition to_do :: "(ref_user \<times> ref_callback ref_world) rel" where
  "to_do = measures [\<lambda>(u, w). requests (rw_events w), \<lambda>(u, w). weights (sg_apps u) (rw_events w)]"

lemma to_doI:
  "requests (rw_events w') < requests (rw_events w) \<or> requests (rw_events w') \<le> requests (rw_events w) \<and>
     weights (sg_apps u') (rw_events w') < weights (sg_apps u) (rw_events w) \<Longrightarrow> ((u', w'), (u, w)) \<in> to_do"
  by (auto simp: to_do_def)

lemma on_app_InrD:
  assumes "on_app i f (u, g, w) = Inr (u', g', w')"
  shows "\<exists>a'. i < length (sg_apps u) \<and> f (sg_apps u ! i, w) = Inr (a', w') \<and>
    u' = u\<lparr>sg_apps := (sg_apps u)[i := a']\<rparr>"
  using assms by (auto simp: on_app_def split: if_splits)

lemma to_do_packet:
  assumes ev: "rw_events w = (e, t, AppSendPacket i) # rw_events w1" and i: "i < length (sg_apps u)"
    and s: "SendPacket ref_sim ref_net i (sg_apps u ! i, w1) = Inr (a', w')"
    and u': "u' = u\<lparr>sg_apps := (sg_apps u)[i := a']\<rparr>"
  shows "((u', w'), (u, w)) \<in> to_do"
proof -
  let ?a = "sg_apps u ! i"
  from ref_packet[OF s] have "a' = ?a \<and> w' = w1 \<or> 0 < m_packetCount ?a \<and> m_packetCount a' = m_packetCount ?a - 1 \<and>
      (\<exists>e t. rw_events w' = place (e, t, AppSendPacket i) (rw_events w1))" by blast
  then show ?thesis
  proof (elim disjE conjE exE)
    assume "a' = ?a" "w' = w1"
    with u' show ?thesis by (intro to_doI) (simp add: ev request_event_def event_weight_pos)
  next
    fix e' t'
    assume a: "0 < m_packetCount ?a" "m_packetCount a' = m_packetCount ?a - 1"
      and w': "rw_events w' = place (e', t', AppSendPacket i) (rw_events w1)"
    have n: "Suc (unat (m_packetCount a')) = unat (m_packetCount ?a)"
      using a by (metis Suc_pred' unat_minus_one unat_gt_0 word_gt_0 less_irrefl)
    then have "m_packetCount a' \<le> m_packetCount ?a" by (simp add: word_le_nat_alt)
    from weights_fewer[OF i this, of "rw_events w1"] n i show ?thesis
      by (intro to_doI) (simp add: ev w' u' length_filter_place request_event_def event_weight_def)
  qed
qed

lemma to_do_start:
  assumes ev: "rw_events w = (e, t, UserEvent (Start_app i)) # rw_events w1" and i: "i < length (sg_apps u)"
    and s: "StartApplication ref_sim ref_net i (sg_apps u ! i, w1) = Inr (a', w')"
    and u': "u' = u\<lparr>sg_apps := (sg_apps u)[i := a']\<rparr>"
  shows "((u', w'), (u, w)) \<in> to_do"
proof -
  from ref_start_app[OF s] obtain Q where q: "m_packetCount a' = m_packetCount (sg_apps u ! i)"
    "rw_events w' = filter Q (rw_events w1)" by blast
  have "weights (sg_apps u') (rw_events w') \<le> weights (sg_apps u) (rw_events w')"
    using weights_fewer[OF i, of a'] q(1) by (simp add: u')
  also have "\<dots> \<le> weights (sg_apps u) (rw_events w1)" by (simp add: q(2) weights_filter)
  also have "\<dots> < weights (sg_apps u) (rw_events w)" by (simp add: ev event_weight_pos)
  finally show ?thesis using requests_filter[of Q "rw_events w1"] by (intro to_doI) (simp add: ev q(2))
qed

lemma to_do_popped:
  assumes ev: "rw_events w = (e, t, c) # rw_events w1" and c: "\<not> gateway_callback c"
    and run: "other_event ref_host c (u, g, w1) = Inr (u', g', w')"
  shows "((u', w'), (u, w)) \<in> to_do \<and> rw_stopped w' = rw_stopped w1"
proof -
  from run have r: "simple_other ref_sim ref_net ref_net_event c (u, g, w1) = Inr (u', g', w')"
    by (simp add: simple_host_def)
  consider (request) i n where "c = AppProcessSendRequest i n" | (packet) i where "c = AppSendPacket i"
    | (start) i where "c = UserEvent (Start_app i)" | (net) y where "c = UserEvent (Network y)"
    using c by (cases c) (auto, metis simple_event.exhaust)
  then show ?thesis
  proof cases
    case (request i n)
    with r have "on_app i (\<lambda>aw. Inr (ProcessSendRequest ref_sim i n aw)) (u, g, w1) = Inr (u', g', w')"
      by (simp add: simple_other_def)
    from on_app_InrD[OF this] obtain a' where "ProcessSendRequest ref_sim i n (sg_apps u ! i, w1) = (a', w')" by auto
    from ref_request[OF this] show ?thesis by (auto simp: ev request request_event_def intro!: to_doI)
  next
    case (packet i)
    with r have "on_app i (SendPacket ref_sim ref_net i) (u, g, w1) = Inr (u', g', w')" by (simp add: simple_other_def)
    from on_app_InrD[OF this] to_do_packet[OF ev[unfolded packet]] ref_packet show ?thesis by blast
  next
    case (start i)
    with r have "on_app i (StartApplication ref_sim ref_net i) (u, g, w1) = Inr (u', g', w')" by (simp add: simple_other_def)
    from on_app_InrD[OF this] to_do_start[OF ev[unfolded start]] ref_start_app show ?thesis by blast
  next
    case (net y)
    with r have n: "receive_all y u = Inr u'" "w' = w1" by (auto simp: simple_other_def ref_net_event_def)
    with receive_all_apps[OF n(1)] show ?thesis by (auto simp: ev event_weight_pos intro!: to_doI)
  qed
qed

lemma ref_settles: "wfp (other_step ref_sim ref_ok ref_host T)"
proof -
  have "{(x, y). other_step ref_sim ref_ok ref_host T x y} \<subseteq> to_do"
  proof (rule subrelI)
    fix x y :: "ref_user \<times> ref_callback ref_world"
    assume "(x, y) \<in> {(x, y). other_step ref_sim ref_ok ref_host T x y}"
    moreover obtain u' w' u w where xy: "x = (u', w')" "y = (u, w)" by (cases x, cases y)
    ultimately obtain c w1 g g' where "sim_next ref_sim w = Some (c, w1)" and c: "\<not> gateway_callback c"
      and run: "other_event ref_host c (u, g, w1) = Inr (u', g', w')" by (auto simp: other_step_def)
    then obtain e t where "rw_events w = (e, t, c) # rw_events w1"
      by (auto simp: ref_sim_simps split: if_splits list.splits)
    from to_do_popped[OF this c run] xy show "(x, y) \<in> to_do" by simp
  qed
  moreover have "wf to_do" by (simp add: to_do_def)
  ultimately show ?thesis unfolding wfp_def using wf_subset by blast
qed

section \<open>The updates do not stop the simulator\<close>

lemma ref_update_stopped:
  "update_vehicles ref_sim V data is (u, g, w) = Inr (u', g', w') \<Longrightarrow> rw_stopped w' = rw_stopped w"
proof (induction "is" arbitrary: u g w)
  case (Cons i "is")
  then obtain u1 g1 w1 where r: "update_vehicle ref_sim V data i (u, g, w) = Inr (u1, g1, w1)"
    "update_vehicles ref_sim V data is (u1, g1, w1) = Inr (u', g', w')" by auto
  have "w1 = w \<or> w1 = Send ref_sim (unat i) 3 w"
    using r(1) by (auto simp: update_vehicle_def Let_def split: if_splits prod.splits)
  then have "rw_stopped w1 = rw_stopped w" by (auto simp: Send_def ref_sim_simps ref_insert_def)
  with Cons.IH[OF r(2)] show ?case by simp
qed simp

lemma ref_DoUpdate_stopped:
  assumes "DoUpdate ref_sim ref_os V data (u, g, w) = Inr (u', g', w')"
  shows "rw_stopped w' = rw_stopped w"
proof -
  from assms obtain g1 w1 where
    r: "update_vehicles ref_sim V data (map of_nat [0..<length (sg_mobility u)]) (u, g, w) = Inr (u', g1, w1)"
      "SendResponse ref_os (g1, w1) = Inr (g', w')" by (auto simp: DoUpdate_def)
  from SendResponse_InrD[OF r(2)] obtain s m k where "os_send ref_os s m w1 = (k, w')" by blast
  then have "rw_stopped w' = rw_stopped w1" by (auto simp: ref_os_simps)
  with ref_update_stopped[OF r(1)] show ?thesis by simp
qed

interpretation ref_settling: settling_host ref_sim ref_cal ref_ok ref_os ref_host
proof (intro settling_host.intro settling_host_axioms.intro, goal_cases)
  case 1
  show ?case by (rule ref_simple.simple_gateway_host)
next
  case (2 T)
  show ?case by (rule ref_settles)
next
  case (3 u w data g u' g' w')
  then have "DoUpdate ref_sim ref_os int_vectors data (u, g, w) = Inr (u', g', w')"
    by (simp add: simple_host_def DoInitialize_def)
  from ref_DoUpdate_stopped[OF this] show ?case by (simp add: ref_cal_def)
next
  case (4 u w data g u' g' w')
  then have "DoUpdate ref_sim ref_os int_vectors data (u, g, w) = Inr (u', g', w')" by (simp add: simple_host_def)
  from ref_DoUpdate_stopped[OF this] show ?case by (simp add: ref_cal_def)
next
  case (5 u w c g u' g' w')
  let ?w = "w\<lparr>rw_events := (0, 0, c) # rw_events w\<rparr>"
  have "rw_events ?w = (0, 0, c) # rw_events w" by simp
  from to_do_popped[OF this 5(2,3)] show ?case by (simp add: ref_cal_def)
qed

end
