(* ===== verification/Simple_Responses.thy ===== *)
theory Simple_Responses
  imports Simple_Connection Cosim_Run
begin

text \<open>
  What the gateway of the example answers: every response is made of one packet count for each
  vehicle, so it is never empty and its length is bounded by the number of the vehicles.
\<close>

section \<open>DoUpdate\<close>

definition count_values :: "nat \<Rightarrow> string list \<Rightarrow> bool" where
  "count_values n vs \<longleftrightarrow> length vs = n \<and> (\<forall>v \<in> set vs. \<exists>k :: u16. v = to_string (unat k))"

definition count_response :: "nat \<Rightarrow> string \<Rightarrow> bool" where
  "count_response n m \<longleftrightarrow> (\<exists>vs. count_values n vs \<and> m = response_message '' '' [CHR 0x0D, CHR 0x0A] vs)"

lemma update_vehicle_counts:
  assumes "update_vehicle S V data i (u, g, w) = Inr (u', g', w')"
  shows "\<exists>k :: u16. g' = g\<lparr>m_data := (m_data g)[unat i := to_string (unat k)]\<rparr>"
proof -
  from assms have "\<exists>k :: u16. SetValue i (to_string (unat k)) g = Inr g'"
    by (auto simp: update_vehicle_def Let_def split: if_splits prod.splits)
  then obtain k :: u16 where "SetValue i (to_string (unat k)) g = Inr g'" ..
  then have "g\<lparr>m_data := (m_data g)[unat i := to_string (unat k)]\<rparr> = g'"
    by (simp add: SetValue_def split: if_splits)
  then show ?thesis by (intro exI[of _ k]) (rule sym)
qed

lemma update_vehicles_counts:
  "update_vehicles S V data (map of_nat [0..<k]) (u, g, w) = Inr (u', g', w') \<Longrightarrow> k \<le> length (m_data g) \<Longrightarrow>
   k < 2 ^ 32 \<Longrightarrow> \<exists>vs. count_values k vs \<and> g' = g\<lparr>m_data := vs @ drop k (m_data g)\<rparr>"
proof (induction k arbitrary: u' g' w')
  case 0
  then have "g' = g" by simp
  then show ?case by (intro exI[of _ "[]"]) (simp add: count_values_def)
next
  case (Suc k)
  then obtain u1 g1 w1 where 1: "update_vehicles S V data (map of_nat [0..<k]) (u, g, w) = Inr (u1, g1, w1)"
    and 2: "update_vehicle S V data (of_nat k) (u1, g1, w1) = Inr (u', g', w')"
    by (auto simp: update_vehicles_append)
  from Suc.IH[OF 1] Suc.prems(2,3) obtain vs where
    vs: "count_values k vs" "g1 = g\<lparr>m_data := vs @ drop k (m_data g)\<rparr>" by auto
  from update_vehicle_counts[OF 2] obtain c :: u16 where
    c: "g' = g1\<lparr>m_data := (m_data g1)[unat (of_nat k :: u32) := to_string (unat c)]\<rparr>" by blast
  have "unat (of_nat k :: u32) = k" using Suc.prems(3) by (simp add: unat_of_nat take_bit_eq_mod)
  moreover have "drop k (m_data g) = m_data g ! k # drop (Suc k) (m_data g)"
    using Suc.prems(2) by (simp add: Cons_nth_drop_Suc)
  moreover have "length vs = k" using vs(1) by (simp add: count_values_def)
  ultimately have "g' = g\<lparr>m_data := (vs @ [to_string (unat c)]) @ drop (Suc k) (m_data g)\<rparr>"
    by (simp add: c vs(2) list_update_append)
  moreover have "count_values (Suc k) (vs @ [to_string (unat c)])" using vs(1) by (auto simp: count_values_def)
  ultimately show ?case by blast
qed

lemma SendResponse_out:
  assumes "SendResponse P (g, w) = Inr (g', w')"
  shows "\<exists>s r. os_send P s (response_message (m_delimiterField g) (m_delimiterMessage g) (m_data g)) w = (r, w')"
  using assms by (fastforce simp: SendResponse_def Let_def split: if_splits option.splits prod.splits)

context simple_connection begin

lemma DoUpdate_counts:
  assumes run: "DoUpdate S P V data (u, g, w) = Inr (u', g', w')"
    and sz: "simple_sized n u g" and n: "n < 2 ^ 32" and dl: "default_delimiters g"
  shows "\<exists>m ms. outbox w' = ms @ [m] \<and> count_response n m"
proof -
  have len: "length (sg_mobility u) = n" "length (m_data g) = n" using sz by (simp_all add: simple_sized_def)
  from run obtain u1 g1 w1 where
    r: "update_vehicles S V data (map of_nat [0..<n]) (u, g, w) = Inr (u1, g1, w1)"
    "SendResponse P (g1, w1) = Inr (g', w')" by (auto simp: DoUpdate_def len)
  from update_vehicles_counts[OF r(1) _ n] len(2) obtain vs where
    vs: "count_values n vs" "g1 = g\<lparr>m_data := vs\<rparr>" by auto
  from SendResponse_out[OF r(2)] obtain s k where
    "os_send P s (response_message (m_delimiterField g1) (m_delimiterMessage g1) (m_data g1)) w1 = (k, w')" by blast
  from pair_out(7)[OF this] vs dl show ?thesis
    by (auto simp: count_response_def default_delimiters_def)
qed

section \<open>Every response\<close>

abbreviation (input) example_host where "example_host \<equiv> simple_host S P V N net_event"

lemma dispatch_counts:
  assumes v: "simple_valid cal valid u w" and c: "c \<noteq> GatewayStop"
    and run: "dispatch S example_host c (u, g, w) = Inr (u', g', w')"
    and sz: "simple_sized n u g" and n: "n < 2 ^ 32" and dl: "default_delimiters g"
  shows "\<exists>ms. outbox w' = outbox w @ ms \<and> (\<forall>m \<in> set ms. count_response n m)"
proof -
  from answers.dispatch_out[OF v c run] obtain ms where
    ms: "outbox w' = outbox w @ ms" "length ms = (if carries c then 1 else 0)" by blast
  show ?thesis
  proof (cases "carries c")
    case False
    with ms show ?thesis by (intro exI[of _ "[]"]) simp
  next
    case True
    then obtain d where "c = GatewayHandleUpdate d \<or> c = GatewayDoInitialize d" by (cases c) auto
    then obtain i w1 where d: "DoUpdate S P V d (u, g\<lparr>m_eventWait := i\<rparr>, w1) = Inr (u', g', w')"
    proof
      assume "c = GatewayHandleUpdate d"
      with run have "HandleUpdate S (DoUpdate S P V) d (u, g, w) = Inr (u', g', w')"
        by (simp add: dispatch_def simple_host_def)
      with HandleUpdate_calls[of S "DoUpdate S P V" d u g w] that show thesis by auto
    next
      assume "c = GatewayDoInitialize d"
      with run have "DoUpdate S P V d (u, g\<lparr>m_eventWait := m_eventWait g\<rparr>, w) = Inr (u', g', w')"
        by (simp add: dispatch_def simple_host_def DoInitialize_def)
      with that show thesis by blast
    qed
    have "simple_sized n u (g\<lparr>m_eventWait := i\<rparr>)" "default_delimiters (g\<lparr>m_eventWait := i\<rparr>)"
      using sz dl by (simp_all add: simple_sized_def default_delimiters_def)
    from DoUpdate_counts[OF d this(1) n this(2)] obtain m ms' where
      m: "outbox w' = ms' @ [m]" "count_response n m" by blast
    from ms(2) True obtain m' where "ms = [m']" by (cases ms) auto
    with ms(1) m show ?thesis by (intro exI[of _ "[m]"]) simp
  qed
qed

lemma main_event_counts:
  assumes v: "simple_valid cal valid (s_user s) w" and pop: "gw_popped t0 x c (s_gw s) (cal w)"
    and sz: "simple_sized n (s_user s) (s_gw s)" and n: "n < 2 ^ 32" and dl: "default_delimiters (s_gw s)"
  shows "\<exists>ms. outbox (s_world (main_event S P example_host c (s\<lparr>s_world := w\<rparr>))) = outbox w @ ms \<and>
    (\<forall>m \<in> set ms. count_response n m)"
proof (cases "c = GatewayStop")
  case True
  have "simple_valid cal valid (s_user (s\<lparr>s_world := w\<rparr>)) (s_world (s\<lparr>s_world := w\<rparr>))"
    "gw_popped t0 x c (s_gw (s\<lparr>s_world := w\<rparr>)) (cal (s_world (s\<lparr>s_world := w\<rparr>)))"
    using v pop by simp_all
  from answers.main_stop_answered[OF this] True show ?thesis
    by (intro exI[of _ "[]"]) (simp add: main_event_def)
next
  case False
  show ?thesis
  proof (cases "dispatch S example_host c (s_user s, s_gw s, w)")
    case (Inl f)
    with False show ?thesis by (intro exI[of _ "[]"]) (simp add: main_event_def)
  next
    case (Inr q)
    obtain u g' w' where q: "q = (u, g', w')" by (cases q)
    from dispatch_counts[OF v False Inr[unfolded q] sz n dl] False Inr q show ?thesis
      by (auto simp: main_event_def)
  qed
qed

lemma gw_step_counts:
  assumes step: "gw_step S P example_host s l s'" and ok: "sys_ok cal (simple_valid cal valid) t0 s"
    and sz: "simple_sized n (s_user s) (s_gw s)" and n: "n < 2 ^ 32" and dl: "default_delimiters (s_gw s)"
  shows "\<exists>ms. outbox (s_world s') = outbox (s_world s) @ ms \<and> (\<forall>m \<in> set ms. count_response n m)"
proof -
  from ok host.gw_step_alive[OF step] have v: "simple_valid cal valid (s_user s) (s_world s)"
    and g: "gw_ok t0 (forward_extra (s_thread s)) (s_gw s) (cal (s_world s))" by (simp_all add: sys_ok_def)
  show ?thesis
    using step
  proof (cases rule: gw_step.cases)
    case thread
    from answers.thread_step_answered[OF v thread(3)] show ?thesis by simp
  next
    case (recv d r)
    from answers.thread_step_answered[OF v recv(4)] show ?thesis by simp
  next
    case (run c w)
    from host.host_popped[OF v g run(4)] main_event_counts[OF _ _ sz n dl] conn_next[OF run(4)] show ?thesis
      unfolding run(2) by metis
  next
    case run_end
    then show ?thesis by simp
  next
    case (destroy c w)
    from host.host_popped_destroy[OF v g destroy(4)] main_event_counts[OF _ _ sz n dl]
      conn_next_destroy[OF destroy(4)] show ?thesis
      unfolding destroy(2) by metis
  next
    case (join b d)
    then show ?thesis using answers.main_join_answered[OF v g] by simp
  qed
qed

lemma reachable_counts:
  assumes "gw_reachable S cal (simple_valid cal valid) P example_host s0 s"
    and "default_delimiters (s_gw s0)" and "simple_sized n (s_user s0) (s_gw s0)" and n: "n < 2 ^ 32"
  shows "\<exists>ms. outbox (s_world s) = outbox (s_world s0) @ ms \<and> (\<forall>m \<in> set ms. count_response n m)"
  using assms(1-3)
proof (induction s0 s rule: gw_reachable.induct)
  case (start s)
  show ?case by (intro exI[of _ "[]"]) simp
next
  case (step s0 s l s')
  note r = step.hyps(1)
  have "default_delimiters (s_gw s)"
    using host.reachable_delimiters[OF r] step.prems(1) by (simp add: default_delimiters_def)
  from gw_step_counts[OF step.hyps(2) host.reachable_ok[OF r] reachable_sized[OF r step.prems(2)] n this]
  obtain ms' where "outbox (s_world s') = outbox (s_world s) @ ms'" "\<forall>m \<in> set ms'. count_response n m" by blast
  moreover from step.IH[OF step.prems] obtain ms where
    "outbox (s_world s) = outbox (s_world s0) @ ms" "\<forall>m \<in> set ms. count_response n m" by blast
  ultimately show ?case by (intro exI[of _ "ms @ ms'"]) auto
qed

end

section \<open>The length of a response\<close>

lemma to_string_length: "n < 10 ^ Suc k \<Longrightarrow> length (to_string n) \<le> Suc k"
proof (induction k arbitrary: n)
  case 0
  then show ?case by (simp add: to_string.simps[of n])
next
  case (Suc k)
  then have "n div 10 < 10 ^ Suc k" by (simp add: less_mult_imp_div_less mult.commute)
  from Suc.IH[OF this] show ?case by (simp add: to_string.simps[of n])
qed

lemma to_string_u16: "length (to_string (unat (k :: u16))) \<le> 5"
proof -
  have "unat k < 10 ^ Suc 4" using unsigned_less[of k, where ?'a = nat] by simp
  from to_string_length[OF this] show ?thesis by simp
qed

lemma join_length:
  "\<forall>v \<in> set vs. length v \<le> b \<Longrightarrow> length (join D vs) \<le> (b + length D) * length vs"
proof (induction D vs rule: join.induct)
  case (3 D v w vs)
  then have "length (join D (w # vs)) \<le> (b + length D) * length (w # vs)" "length v \<le> b" by simp_all
  then show ?case by (simp add: algebra_simps)
qed simp_all

lemma count_response_size:
  assumes "count_response n m"
  shows "m \<noteq> []" and "length m \<le> 6 * n + 2"
proof -
  from assms obtain vs where vs: "count_values n vs" and m: "m = join '' '' vs @ [CHR 0x0D, CHR 0x0A]"
    by (auto simp: count_response_def response_message_eq)
  from vs to_string_u16 have "\<forall>v \<in> set vs. length v \<le> 5" by (auto simp: count_values_def)
  from join_length[OF this, of "'' ''"] vs show "length m \<le> 6 * n + 2" by (simp add: m count_values_def)
  show "m \<noteq> []" by (simp add: m)
qed

section \<open>What the server can read\<close>

lemma count_values_free:
  assumes "count_values n vs"
  shows "\<forall>v \<in> set vs. find_sub '' '' v = None" and "\<forall>v \<in> set vs. find_sub CRLF v = None"
  using assms to_string_no_delimiter[of "CHR '' ''" "'' ''"] to_string_no_delimiter[of "CHR 0x0D" CRLF]
  by (auto simp: count_values_def is_digit_def CRLF_def)

lemma count_values_map:
  assumes "count_values n vs"
  shows "\<exists>ks :: u16 list. vs = map (\<lambda>k. to_string (unat k)) ks"
proof -
  from assms have "\<forall>v \<in> set vs. v \<in> range (\<lambda>k :: u16. to_string (unat k))" by (auto simp: count_values_def)
  then have "vs \<in> lists (range (\<lambda>k :: u16. to_string (unat k)))" by auto
  then show ?thesis by (simp add: lists_image) blast
qed

lemma count_response_reads:
  assumes "count_response n m" and "0 < n"
  shows "\<exists>ks :: u16 list. length ks = n \<and>
    frames CRLF m = ([join '' '' (map (\<lambda>k. to_string (unat k)) ks)], []) \<and>
    split_fields '' '' (join '' '' (map (\<lambda>k. to_string (unat k)) ks)) = Some (map (\<lambda>k. to_string (unat k)) ks)"
proof -
  from assms(1) obtain vs where vs: "count_values n vs" and m: "m = join '' '' vs @ CRLF"
    by (auto simp: count_response_def response_message_eq CRLF_def)
  note free = count_values_free[OF vs]
  have "find_sub CRLF (response_message '' '' CRLF vs) = Some (length (join '' '' vs))"
    by (rule response_framed[OF _ _ _ _ free(2)]) (simp_all add: CRLF_def unbordered_def)
  then have "frames CRLF (join '' '' vs @ CRLF @ []) = ([join '' '' vs], [])"
    using frames_message[of CRLF "join '' '' vs" "[]"] by (simp add: response_message_eq frames_None CRLF_def)
  moreover have "vs \<noteq> []" using vs assms(2) by (auto simp: count_values_def)
  from split_fields_join[OF _ space_unbordered this free(1)] have "split_fields '' '' (join '' '' vs) = Some vs" by simp
  moreover obtain ks :: "u16 list" where "vs = map (\<lambda>k. to_string (unat k)) ks" using count_values_map[OF vs] by blast
  ultimately show ?thesis using vs m by (intro exI[of _ ks]) (simp add: count_values_def)
qed


lemma one_labels_sent:
  "\<exists>s. gw_execs ref_sim ref_os ref_host one_labels one_start = Some s \<and> rw_sent (s_world s) = [''2'' @ CRLF]"
  by (simp add: ref_eval one_labels_def one_start_def one_gateway_def one_vehicle_def one_fields one_times
     update_vehicle_def vector_at_def stoi_at_def ELEMENTS_PER_VEHICLE_def int_vectors_def)


end
