(* ===== verification/Lone_Gateway.thy ===== *)
theory Lone_Gateway
  imports Gateway_Eventually Simple_Gateway
begin

text \<open>
  The example without vehicles: then nobody but the gateway schedules events, so that no event of
  the rest of the simulation can fail.
\<close>

definition gateway_only :: "'x callback calendar \<Rightarrow> bool" where
  "gateway_only k \<longleftrightarrow> (\<forall>v \<in> set (cal_events k). gateway_callback (ev_call v)) \<and>
     (\<forall>x \<in> set (cal_destroy k). gateway_callback (snd x))"

lemma gateway_only_schedule [simp]:
  "gateway_only (cal_schedule e d c k) \<longleftrightarrow> gateway_callback c \<and> gateway_only k"
  by (auto simp: gateway_only_def cal_schedule_def)

lemma gateway_only_stop [simp]: "gateway_only (k\<lparr>cal_stopped := b\<rparr>) = gateway_only k"
  by (simp add: gateway_only_def)

lemma gateway_only_cancel: "gateway_only k \<Longrightarrow> gateway_only (cal_cancel_opt i k)"
  by (auto simp: gateway_only_def cal_cancel_opt_def cal_cancel_def split: option.splits)

lemma gateway_only_next:
  "gateway_only k \<Longrightarrow> cal_next k = Some (c, k') \<Longrightarrow> gateway_callback c \<and> gateway_only k'"
  by (auto simp: gateway_only_def cal_next_def split: if_splits list.splits)

lemma gateway_only_destroy:
  "gateway_only k \<Longrightarrow> cal_next_destroy k = Some (c, k') \<Longrightarrow> gateway_callback c \<and> gateway_only k'"
  by (auto simp: gateway_only_def cal_next_destroy_def split: list.splits)

definition lone :: "('w \<Rightarrow> 'x callback calendar) \<Rightarrow> ('v, 'a, 't, 's) simple \<Rightarrow> 'w \<Rightarrow> bool" where
  "lone cal u w \<longleftrightarrow> sg_mobility u = [] \<and> gateway_only (cal w)"

context simple_platform begin

abbreviation (input) own_host where "own_host \<equiv> simple_host S P V N net_event"

lemma lone_DoUpdate:
  assumes "valid w" and "lone cal u w" and run: "DoUpdate S P V data (u, g, w) = Inr (u', g', w')"
  shows "lone cal u' w'"
proof -
  from assms(2) run have u: "u' = u" and r: "SendResponse P (g, w) = Inr (g', w')"
    by (auto simp: DoUpdate_def lone_def)
  from SendResponse_InrD[OF r] obtain s m k where "os_send P s m w = (k, w')" by blast
  with os_send[OF assms(1)] assms(2) show ?thesis by (simp add: lone_def u)
qed

lemma lone_HandleUpdate:
  assumes v: "valid w" and l: "lone cal u w" and run: "HandleUpdate S (DoUpdate S P V) data (u, g, w) = Inr (u', g', w')"
  shows "lone cal u' w'"
proof (cases "sim_now S w = m_timePause g")
  case True
  obtain e w1 where s: "sim_schedule_now S GatewayWaitForNextUpdate w = (e, w1)" by fastforce
  from True run s have d: "DoUpdate S P V data (u, g\<lparr>m_eventWait := Some e\<rparr>, w1) = Inr (u', g', w')"
    by (simp add: HandleUpdate_def)
  from schedule_now[OF v s] l have "valid w1" "lone cal u w1" by (simp_all add: lone_def)
  from lone_DoUpdate[OF this d] show ?thesis .
next
  case False
  with run have "DoUpdate S P V data (u, g, w) = Inr (u', g', w')" by (simp add: HandleUpdate_def)
  from lone_DoUpdate[OF v l this] show ?thesis .
qed

lemma lone_dispatch:
  assumes v: "valid w" and l: "lone cal u w" and c: "gateway_callback c" "c \<noteq> GatewayStop"
    and run: "dispatch S own_host c (u, g, w) = Inr (u', g', w')"
  shows "lone cal u' w'"
proof -
  consider "c = GatewayForwardUp" | "c = GatewayWaitForNextUpdate"
    | d where "c = GatewayHandleUpdate d" | d where "c = GatewayDoInitialize d" using c by (cases c) auto
  then show ?thesis
  proof cases
    case 1
    with run have u: "u' = u" and f: "ForwardUp S (g, w) = Inr (g', w')" by (auto simp: dispatch_def)
    then obtain T vs g1 where p: "process_message S T vs (g1, w) = Inr (g', w')"
      by (auto simp: ForwardUp_def split: list.splits option.splits)
    from v p have "gateway_only (cal w')"
      by (cases rule: process_message_cal) (use l in \<open>simp_all add: lone_def gateway_only_cancel\<close>)
    with l u show ?thesis by (simp add: lone_def)
  next
    case 2
    with run have u: "u' = u" and f: "WaitForNextUpdate S (g, w) = (g', w')" by (simp_all add: dispatch_def)
    from v f have "gateway_only (cal w')"
      by (cases rule: WaitForNextUpdate_cal) (use l in \<open>simp_all add: lone_def gateway_only_cancel\<close>)
    with l u show ?thesis by (simp add: lone_def)
  next
    case (3 d)
    with run lone_HandleUpdate[OF v l] show ?thesis by (simp add: dispatch_def simple_host_def)
  next
    case (4 d)
    with run lone_DoUpdate[OF v l] show ?thesis by (simp add: dispatch_def simple_host_def DoInitialize_def)
  qed
qed

lemma lone_finish:
  "valid w \<Longrightarrow> lone cal u w \<Longrightarrow> Stop_finish S P b (g, w) = (g', w') \<Longrightarrow> lone cal u w'"
  using Stop_finish_cal(2)[of w b g g' w'] by (simp add: lone_def gateway_only_cancel)

lemma lone_event:
  assumes v: "valid w" and l: "lone cal (s_user s) w" and c: "gateway_callback c"
    and s': "s' = main_event S P own_host c (s\<lparr>s_world := w\<rparr>)"
  shows "lone cal (s_user s') (s_world s')"
proof (cases "c = GatewayStop")
  case True
  with s' l lone_finish[OF v l] show ?thesis
    by (auto simp: main_event_def main_stop_def Let_def split: prod.splits)
next
  case False
  show ?thesis
  proof (cases "dispatch S own_host c (s_user s, s_gw s, w)")
    case (Inl f)
    with False s' l show ?thesis by (simp add: main_event_def)
  next
    case (Inr q)
    obtain u g' w' where q: "q = (u, g', w')" by (cases q)
    from lone_dispatch[OF v l c False Inr[unfolded q]] False Inr q s' show ?thesis
      by (auto simp: main_event_def)
  qed
qed

lemma lone_step:
  assumes step: "gw_step S P own_host s l s'" and v: "valid (s_world s)" and lo: "lone cal (s_user s) (s_world s)"
  shows "lone cal (s_user s') (s_world s')"
proof -
  have ctx: "gateway_only (cal (sim_schedule_with_context S n 0 c (s_world s))) \<longleftrightarrow>
      gateway_callback c \<and> gateway_only (cal (s_world s))" for n c
    using schedule_with_context[OF v, of 0 n c] by auto
  show ?thesis
    using step
  proof (cases rule: gw_step.cases)
    case thread
    then show ?thesis using lo ctx
      by (auto simp: lone_def thread_step_def Let_def split: thread_pc.splits option.splits if_splits)
  next
    case (recv d x)
    then show ?thesis using lo by (auto simp: thread_step_def Let_def split: recv_result.splits)
  next
    case (run c w)
    from next_Some[OF v run(4)] gateway_only_next lo have "valid w" "lone cal (s_user s) w" "gateway_callback c"
      unfolding lone_def by blast+
    from lone_event[OF this run(2)] show ?thesis .
  next
    case run_end
    with lo show ?thesis by simp
  next
    case (destroy c w)
    from next_destroy_Some[OF v destroy(4)] gateway_only_destroy lo
    have "valid w" "lone cal (s_user s) w" "gateway_callback c" unfolding lone_def by blast+
    from lone_event[OF this destroy(2)] show ?thesis .
  next
    case (join b d)
    with lone_finish[OF v lo] show ?thesis by (auto simp: main_join_def split: prod.splits)
  qed
qed

lemma reachable_lone:
  assumes "gw_reachable S cal (simple_valid cal valid) P own_host s0 s" and "lone cal (s_user s0) (s_world s0)"
  shows "lone cal (s_user s) (s_world s)"
  using assms
proof (induction s0 s rule: gw_reachable.induct)
  case (step s0 s l s')
  from host.reachable_facts(1)[OF step.hyps(1) host.gw_step_alive[OF step.hyps(2)]]
  have "valid (s_world s)" by (simp add: simple_valid_def)
  from lone_step[OF step.hyps(2) this step.IH[OF step.prems]] show ?case .
qed

lemma lone_never_fails:
  assumes "gw_reachable S cal (simple_valid cal valid) P own_host s0 s" and "lone cal (s_user s0) (s_world s0)"
    and m: "s_main s = Main_Run" and nx: "sim_next S (s_world s) = Some (c, w)"
  shows "gateway_callback c"
proof -
  have "valid (s_world s)" using host.reachable_facts(1)[OF assms(1)] m by (simp add: simple_valid_def)
  from next_Some[OF this nx] gateway_only_next reachable_lone[OF assms(1,2)] show ?thesis
    unfolding lone_def by blast
qed

end

end
