(* ===== verification/Example_Completion.thy ===== *)
theory Example_Completion
  imports Cosim_Completion Settled_Platform Simple_Responses Lone_Gateway
begin

text \<open>
  The co-simulation of the example's two programs can be completed: \<open>Cosim_Completion\<close> for the
  class \<open>SimpleGateway\<close>, whose responses are short enough for the buffer of the server if there are
  at most 682 vehicles.
\<close>

lemma example_completing:
  assumes "simple_connection S cal valid N P ev outbox" and "server_link R sent"
    and "settling_host S cal (simple_valid cal valid) P (simple_host S P V N ev)"
    and "positionDeltaX cfg \<noteq> 0" and "timeDelta cfg \<noteq> 0"
    and "unat (timeStart cfg) + unat (timeDelta cfg) * unat (iterations cfg) < 2 ^ 31"
    and "iterations cfg \<noteq> 0" and n: "unat (numberOfNodes cfg) \<le> 682"
    and "\<not> cal_stopped (cal (s_world (cs_gw c0)))"
    and c0: "default_delimiters (s_gw (cs_gw c0))" "outbox (s_world (cs_gw c0)) = []"
      "simple_sized (unat (numberOfNodes cfg)) (s_user (cs_gw c0)) (s_gw (cs_gw c0))"
  shows "completing_loop S cal (simple_valid cal valid) P (simple_host S P V N ev) outbox R sent cfg c0"
proof (intro completing_loop.intro completing_loop_axioms.intro)
  show "closed_loop S cal (simple_valid cal valid) P (simple_host S P V N ev) outbox R sent"
    by (rule closed_loop.intro[OF simple_connection.simple_gateway_answers[OF assms(1)] assms(2)])
  fix c m
  assume r: "cosim_reachable S cal (simple_valid cal valid) P (simple_host S P V N ev) R cfg sent outbox True c0 c"
    and m: "m \<in> set (outbox (s_world (cs_gw c)))"
  have "unat (numberOfNodes cfg) < 2 ^ 32" using n by simp
  from simple_connection.reachable_counts[OF assms(1) cosim_gateway_reachable[OF r] c0(1,3) this] c0(2) m
  have "count_response (unat (numberOfNodes cfg)) m" by auto
  from count_response_size[OF this] n show "m \<noteq> [] \<and> length m < BUFFER_SIZE" by (simp add: BUFFER_SIZE_def)
qed (use assms in blast)+

text \<open>The next event is one of the rest of the simulation and ends the program of the gateway.\<close>

definition rest_fails ::
    "('x callback, 'w) sim_ops \<Rightarrow> ('x, 'u, 'w) gw_host \<Rightarrow> ('u, 'w) gw_sys \<Rightarrow> bool" where
  "rest_fails S H s \<longleftrightarrow> s_main s = Main_Run \<and>
     (\<exists>x w f. sim_next S (s_world s) = Some (x, w) \<and> \<not> gateway_callback x \<and>
        other_event H x (s_user s, s_gw s, w) = Inl f)"

text \<open>C6: The two programs of the example, from their \<open>main\<close> functions on, with whole responses, a simulation
  that starts at the time 0 and a network whose own events settle, can always be brought to their
  end: from every state that any interleaving reaches while the server is in its loop, there are
  further steps after which the server has left its loop, the event loop and the receiving thread
  of the gateway have ended, and nothing is left over: one message for each iteration and then the
  terminate message have been processed, in this order, no update is pending, and each iteration
  has been answered. The only other end is a failing event of the rest of the simulation (an
  application or the network). So no deadlock and no endless loop of events is reachable.\<close>

theorem cosimulation_completes:
  assumes "simple_connection S cal valid N P ev outbox" and "server_link R sent"
    and "settling_host S cal (simple_valid cal valid) P (simple_host S P V N ev)"
    and "positionDeltaX cfg \<noteq> 0" and "timeDelta cfg \<noteq> 0"
    and "unat (timeStart cfg) + unat (timeDelta cfg) * unat (iterations cfg) < 2 ^ 31"
    and "iterations cfg \<noteq> 0" and "unat (numberOfNodes cfg) \<le> 682" and "v_neq V = (\<noteq>)"
    and "valid w0" and "builds_network cal valid create_network" and "builds_network cal valid start_apps"
    and "\<forall>v \<in> set (cal_events (cal w0)). \<not> gateway_callback (ev_call v)"
    and "\<forall>v \<in> set (cal_destroy (cal w0)). \<not> gateway_callback (snd v)"
    and "simple_main S P V N create_network start_apps protocol d (numberOfNodes cfg) addr port w0 = Inr s0"
    and "sim_now S (s_world s0) = 0" and "\<not> cal_stopped (cal (s_world s0))"
    and "outbox (s_world s0) = []" and "sent v0 = []"
    and "cosim_execs S P (simple_host S P V N ev) R cfg sent outbox True ls
      \<lparr>cs_gw = s0, cs_server = (Sv_Send 0, server_init (numberOfNodes cfg), v0), cs_read = 0\<rparr> = Some c"
    and "s_main (cs_gw c) = Main_Run" and "fst (cs_server c) \<noteq> Sv_Done"
  shows "\<exists>ls' c'. cosim_execs S P (simple_host S P V N ev) R cfg sent outbox True ls' c = Some c' \<and>
    (rest_fails S (simple_host S P V N ev) (cs_gw c') \<or>
     fst (cs_server c') = Sv_Done \<and> s_main (cs_gw c') = Main_Destroy \<and> s_thread (cs_gw c') = T_Done [] \<and>
     m_messageQueue (s_gw (cs_gw c')) = [] \<and>
     filter (\<lambda>v. carries (ev_call v)) (cal_events (cal (s_world (cs_gw c')))) = [] \<and>
     length (outbox (s_world (cs_gw c'))) = unat (iterations cfg) \<and>
     (\<exists>sts. length sts = unat (iterations cfg) \<and>
        s_forwarded (cs_gw c') = server_bodies cfg sts @ [''-1 0'']))"
proof -
  let ?H = "simple_host S P V N ev"
  let ?c0 = "\<lparr>cs_gw = s0, cs_server = (Sv_Send 0, server_init (numberOfNodes cfg), v0), cs_read = 0\<rparr>"
  note sized = simple_main_sized[OF assms(15)]
  have "cosim_initial S cal (simple_valid cal valid) P cfg sent outbox ?c0"
    using simple_main_initial[OF assms(10-15)] sized assms(18,19) by (simp add: cosim_initial_def)
  note r = cosim_execs_reachable[OF cosim_reachable.start[OF this] assms(20)]
  have c0: "\<not> cal_stopped (cal (s_world (cs_gw ?c0)))" "default_delimiters (s_gw (cs_gw ?c0))"
    "outbox (s_world (cs_gw ?c0)) = []"
    "simple_sized (unat (numberOfNodes cfg)) (s_user (cs_gw ?c0)) (s_gw (cs_gw ?c0))"
    "sim_now S (s_world (cs_gw ?c0)) = 0"
    using sized assms(16-18) by simp_all
  note loop = example_completing[OF assms(1-8) c0(1-4)]
  from completing_loop.loop_completes[OF loop r completing_loop.listens[OF loop r assms(21,22)]] obtain c' where
    c': "cosim_leads S P ?H R cfg sent outbox c c'" "event_fails S ?H (cs_gw c') \<or> completed cal outbox cfg c'"
    by blast
  then obtain ls' where ls': "cosim_execs S P ?H R cfg sent outbox True ls' c = Some c'"
    by (auto simp: cosim_leads_def)
  note r' = leads_reachable[OF r c'(1)]
  have "rest_fails S ?H (cs_gw c')" if "event_fails S ?H (cs_gw c')"
  proof -
    from that obtain x w f where x: "s_main (cs_gw c') = Main_Run" "sim_next S (s_world (cs_gw c')) = Some (x, w)"
      "x \<noteq> GatewayStop" "dispatch S ?H x (s_user (cs_gw c'), s_gw (cs_gw c'), w) = Inl f"
      by (auto simp: event_fails_def)
    have "\<not> gateway_callback x"
    proof
      assume "gateway_callback x"
      from loop_event_succeeds[OF assms(1,2,4-6,9) r' c0(5,4) x(1,2) this] obtain g where
        "gw_step S P ?H (cs_gw c') L_Event g" "\<forall>f. s_main g \<noteq> Main_Failed f" by blast
      with x gw_step_exec show False by (fastforce simp: gw_exec_def main_event_def)
    qed
    with x(1,2,4) show ?thesis unfolding rest_fails_def by (cases x) (auto simp: dispatch_def)
  qed
  with c'(2) ls' show ?thesis
    by (intro exI[of _ ls'] exI[of _ c']) (auto simp: completed_def Let_def carrier_count_def carried_events_def)
qed

lemma answered_run:
  "\<exists>c. loop_execs True answer_labels loop_start = Some c \<and> s_main (cs_gw c) = Main_Run \<and>
    fst (cs_server c) = Sv_Recv 0"
  by (simp add: ref_eval loop_eval answer_labels_def)

theorem cosimulation_completes_witness:
  "\<exists>c ls' c'. loop_execs True answer_labels loop_start = Some c \<and>
     rw_sent (s_world (cs_gw c)) = [CRLF] \<and> loop_execs True ls' c = Some c' \<and>
     fst (cs_server c') = Sv_Done \<and> s_main (cs_gw c') = Main_Destroy \<and>
     length (rw_sent (s_world (cs_gw c'))) = 2 \<and> length (s_forwarded (cs_gw c')) = 3"
proof -
  let ?w = "ref_init 0 :: ref_callback ref_world"
  obtain c where c: "loop_execs True answer_labels loop_start = Some c" "s_main (cs_gw c) = Main_Run"
    "fst (cs_server c) = Sv_Recv 0" using answered_run by blast
  have sent: "rw_sent (s_world (cs_gw c)) = [CRLF]" using answer_run[of True] c(1) by auto
  have cfg: "positionDeltaX loop_config \<noteq> 0" "timeDelta loop_config \<noteq> 0"
    "unat (timeStart loop_config) + unat (timeDelta loop_config) * unat (iterations loop_config) < 2 ^ 31"
    "iterations loop_config \<noteq> 0" "unat (numberOfNodes loop_config) \<le> 682" "v_neq int_vectors = (\<noteq>)"
    and n: "numberOfNodes loop_config = 0" and it: "unat (iterations loop_config) = 2"
    by (simp_all add: loop_config_def server_defaults_def int_vectors_def)
  have b: "builds_network ref_cal ref_valid (\<lambda>w :: ref_callback ref_world. w)"
    by (simp add: builds_network_def gw_effect_refl)
  have e: "ref_valid ?w" "\<forall>v \<in> set (cal_events (ref_cal ?w)). \<not> gateway_callback (ev_call v)"
    "\<forall>v \<in> set (cal_destroy (ref_cal ?w)). \<not> gateway_callback (snd v)"
    by (simp_all add: ref_cal_def ref_init_def ref_valid_def cal_ok_def cal_ids_def)
  have s0: "sim_now ref_sim (s_world ref_start) = 0" "\<not> cal_stopped (ref_cal (s_world ref_start))"
    "rw_sent (s_world ref_start) = []"
    by (simp_all add: ref_start_def ref_connected_def ref_init_def ref_sim_simps ref_cal_def)
  have v0: "snd ([] :: nat list, [] :: string list) = []" by simp
  have run: "loop_execs True answer_labels
      \<lparr>cs_gw = ref_start, cs_server = (Sv_Send 0, server_init (numberOfNodes loop_config), ([], [])), cs_read = 0\<rparr> = Some c"
    using c(1) by (simp add: loop_start_def n)
  have pc: "fst (cs_server c) \<noteq> Sv_Done" using c(3) by simp
  from cosimulation_completes[OF ref_conn.simple_connection_axioms ref_link.server_link_axioms
      ref_settling.settling_host_axioms cfg e(1) b b e(2,3) loop_main[folded n] s0 v0 run c(2) pc] it
  obtain ls' c' where c': "loop_execs True ls' c = Some c'" "rest_fails ref_sim ref_host (cs_gw c') \<or>
      fst (cs_server c') = Sv_Done \<and> s_main (cs_gw c') = Main_Destroy \<and>
      length (rw_sent (s_world (cs_gw c'))) = 2 \<and> length (s_forwarded (cs_gw c')) = 3"
    by (auto simp: server_bodies_def)
  have "gw_reachable ref_sim ref_cal ref_ok ref_os ref_host ref_start (cs_gw c')"
    using cosim_gateway_reachable[OF cosim_execs_reachable[OF cosim_execs_reachable[OF loop_start_reachable c(1)] c'(1)]]
    by (simp add: loop_start_def)
  moreover have "lone ref_cal (s_user ref_start) (s_world ref_start)"
    by (simp add: lone_def gateway_only_def ref_cal_def ref_start_def ref_connected_def ref_user0_def ref_init_def)
  ultimately have "\<not> rest_fails ref_sim ref_host (cs_gw c')"
    using ref_simple.lone_never_fails unfolding rest_fails_def by blast
  with c(1) sent c' show ?thesis by blast
qed

end
