(* ===== verification/Granted_Time.thy ===== *)
theory Granted_Time
  imports Settled_Platform
begin

text \<open>
  A granted time is reached: while the thread waits in \<open>recv\<close>, the event loop on its own comes to
  every pending update, if the time stamps of what has arrived increase and the events of the rest of
  the simulation settle.
\<close>

section \<open>\<open>Stop\<close> is only scheduled when the connection is lost\<close>

definition stop_justified :: "('w \<Rightarrow> 'x callback calendar) \<Rightarrow> ('u, 'w) gw_sys \<Rightarrow> bool" where
  "stop_justified cal s \<longleftrightarrow> (stop_pending (cal (s_world s)) \<longrightarrow> (\<exists>d. s_thread s = T_Done d))"

context gateway_host begin

lemma main_event_justified:
  assumes v: "valid (s_user s) w" and inv: "stop_pending (cal w) \<longrightarrow> (\<exists>d. s_thread s = T_Done d)"
  shows "stop_justified cal (main_event S P H c (s\<lparr>s_world := w\<rparr>))"
proof (cases "c = GatewayStop")
  case True
  have "s_thread (main_stop S P (s\<lparr>s_world := w\<rparr>)) = s_thread s"
    by (simp add: main_stop_def Let_def split: prod.split)
  with main_stop_calm[of "s\<lparr>s_world := w\<rparr>"] v inv True show ?thesis
    by (simp add: main_event_def calm_def stop_justified_def)
next
  case False
  show ?thesis
  proof (cases "dispatch S H c (s_user s, s_gw s, w)")
    case (Inl f)
    with False inv show ?thesis by (simp add: main_event_def stop_justified_def)
  next
    case (Inr q)
    obtain u g' w' where q: "q = (u, g', w')" by (cases q)
    from dispatch_calm[OF v False Inr[unfolded q]] False Inr q inv show ?thesis
      by (simp add: main_event_def calm_def stop_justified_def)
  qed
qed

lemma gw_step_justified:
  assumes step: "gw_step S P H s l s'" and ok: "sys_ok cal valid t0 s" and inv: "stop_justified cal s"
  shows "stop_justified cal s'"
proof -
  from ok gw_step_alive[OF step] have v: "valid (s_user s) (s_world s)"
    and g: "gw_ok t0 (forward_extra (s_thread s)) (s_gw s) (cal (s_world s))" by (simp_all add: sys_ok_def)
  have ctx: "stop_pending (cal (sim_schedule_with_context S n 0 c (s_world s))) \<longleftrightarrow>
      c = GatewayStop \<or> stop_pending (cal (s_world s))" for n c
    using sim_scheduled_context[OF v, of 0 n c] by auto
  show ?thesis
    using step
  proof (cases rule: gw_step.cases)
    case thread
    then show ?thesis using inv ctx
      by (auto simp: stop_justified_def thread_step_def Let_def
          split: thread_pc.splits option.splits if_splits)
  next
    case (recv d x)
    then show ?thesis using inv
      by (auto simp: stop_justified_def thread_step_def Let_def split: recv_result.splits)
  next
    case (run c w)
    from sim_next_event[OF v run(4)] have w: "valid (s_user s) w" "cal_next (cal (s_world s)) = Some (c, cal w)"
      by blast+
    from w(2) have "stop_pending (cal w) \<Longrightarrow> stop_pending (cal (s_world s))"
      by (rule cal_next_SomeD) (auto simp: stop_pending_def)
    with inv main_event_justified[OF w(1)] show ?thesis unfolding run(2) stop_justified_def[of cal s] by blast
  next
    case run_end
    with inv show ?thesis by (simp add: stop_justified_def)
  next
    case (destroy c w)
    from event_simulator.next_destroy_Some[OF simulator v destroy(4)]
    have w: "valid (s_user s) w" "cal_next_destroy (cal (s_world s)) = Some (c, cal w)" by blast+
    from w(2) have "stop_pending (cal w) \<Longrightarrow> stop_pending (cal (s_world s))"
      by (rule cal_next_destroy_SomeD) (auto simp: stop_pending_def)
    with inv main_event_justified[OF w(1)] show ?thesis unfolding destroy(2) stop_justified_def[of cal s] by blast
  next
    case (join b d)
    obtain g2 w2 where f: "Stop_finish S P True (s_gw s, s_world s) = (g2, w2)" by fastforce
    from host_calm_stop[OF v f] inv f join show ?thesis
      by (simp add: main_join_def calm_def stop_justified_def)
  qed
qed

lemma reachable_justified: "gw_reachable S cal valid P H s0 s \<Longrightarrow> stop_justified cal s"
proof (induction rule: gw_reachable.induct)
  case (start s)
  from gw_initial_steady[OF this] show ?case by (simp add: stop_justified_def stop_sign_def)
next
  case (step s0 s l s')
  from gw_step_justified[OF step.hyps(2) reachable_ok[OF step.hyps(1)] step.IH] show ?case .
qed

section \<open>A pending update stays until it is executed\<close>

lemma dispatch_keeps_carried:
  assumes v: "valid u w" and pop: "gw_popped t0 x c g (cal w)" and c: "c \<noteq> GatewayStop"
    and run: "dispatch S H c (u, g, w) = Inr (u', g', w')"
  shows "set (carried_events (cal w)) \<subseteq> set (carried_events (cal w'))"
proof (cases "c = GatewayForwardUp")
  case False
  with dispatch_carried[OF v pop c False run] show ?thesis by simp
next
  case True
  with run have f: "ForwardUp S (g, w) = Inr (g', w')" by (auto simp: dispatch_def)
  then obtain m q where q: "m_messageQueue g = m # q"
    by (cases "m_messageQueue g") (simp_all add: ForwardUp_def)
  let ?g = "g\<lparr>m_messageQueue := q\<rparr>"
  from f q obtain T fs where p: "process_message S T (drop 2 fs) (?g, w) = Inr (g', w')"
    by (auto simp: ForwardUp_def split: option.splits)
  have "wait_owned (m_eventWait ?g) (cal w)" using pop by (simp add: gw_popped_def)
  from host_carries[OF v this p] show ?thesis by (auto split: if_splits)
qed

end

text \<open>The update \<open>x\<close> is the next event, at its time.\<close>

definition update_next ::
    "('x callback, 'w) sim_ops \<Rightarrow> 'x callback event \<Rightarrow> ('u, 'w) gw_sys \<Rightarrow> bool" where
  "update_next S x s \<longleftrightarrow> (\<exists>w. sim_next S (s_world s) = Some (ev_call x, w) \<and> sim_now S w = ev_time x)"

context settling_host begin

lemma event_keeps_update:
  assumes r: "gw_reachable S cal valid P H s0 s" and l: "listening cal s"
    and ex: "gw_exec S P H L_Event s = Some s1" and nf: "\<not> event_fails S H s"
    and x: "x \<in> set (carried_events (cal (s_world s)))"
  shows "update_next S x s \<or> listening cal s1 \<and> x \<in> set (carried_events (cal (s_world s1)))"
proof -
  have m: "s_main s = Main_Run" using l by (simp add: listening_def)
  from reachable_facts(1,2)[OF r] m have v: "valid (s_user s) (s_world s)"
    and g: "gw_ok (sim_now S (s_world s0)) (forward_extra (s_thread s)) (s_gw s) (cal (s_world s))" by simp_all
  from ex m obtain c w where nx: "sim_next S (s_world s) = Some (c, w)"
    and s1: "s1 = main_event S P H c (s\<lparr>s_world := w\<rparr>)" by (auto simp: gw_exec_def)
  from sim_next_event[OF v nx] have nk: "cal_next (cal (s_world s)) = Some (c, cal w)" by blast
  then obtain e where ev: "cal_events (cal (s_world s)) = (e, cal_now (cal w), c) # cal_events (cal w)"
    by (rule cal_next_SomeD)
  from host_popped[OF v g nx] have v': "valid (s_user s) w" and
    pop: "gw_popped (sim_now S (s_world s0)) (forward_extra (s_thread s)) c (s_gw s) (cal w)" by blast+
  show ?thesis
  proof (cases "x = (e, cal_now (cal w), c)")
    case True
    with nx sim_time[OF v'] show ?thesis by (simp add: update_next_def)
  next
    case False
    with x ev have xw: "x \<in> set (carried_events (cal w))" by (auto simp: carried_events_def split: if_splits)
    have cs: "c \<noteq> GatewayStop" using l ev by (auto simp: listening_def stop_pending_def)
    obtain u g' w' where d: "dispatch S H c (s_user s, s_gw s, w) = Inr (u, g', w')"
    proof (cases "dispatch S H c (s_user s, s_gw s, w)")
      case (Inl f)
      with nf m nx cs show ?thesis by (auto simp: event_fails_def)
    next
      case (Inr q)
      with that show ?thesis by (cases q) auto
    qed
    from dispatch_keeps_carried[OF v' pop cs d] xw have "x \<in> set (carried_events (cal w'))" by blast
    moreover have "\<not> stop_pending (cal w)" using l ev by (auto simp: listening_def stop_pending_def)
    with dispatch_calm[OF v' cs d] have "\<not> stop_pending (cal w')" by (simp add: calm_def)
    moreover have "m_state g' = m_state (s_gw s)" using dispatch_ok[OF v' pop cs d] by (simp add: gw_frame_def)
    ultimately show ?thesis using l cs d by (simp add: s1 main_event_def listening_def)
  qed
qed

lemma events_keep_update:
  assumes "set ls \<subseteq> {L_Event}" and "gw_execs S P H ls s = Some s'"
    and "gw_reachable S cal valid P H s0 s" and "listening cal s"
    and "x \<in> set (carried_events (cal (s_world s)))"
  shows "(\<exists>t. by_events S P H s t \<and> (event_fails S H t \<or> update_next S x t)) \<or>
    x \<in> set (carried_events (cal (s_world s')))"
  using assms
proof (induction ls arbitrary: s)
  case (Cons l ls)
  from Cons.prems(1,2) obtain s1 where
    s1: "gw_exec S P H L_Event s = Some s1" "gw_execs S P H ls s1 = Some s'" by (auto split: option.splits)
  show ?case
  proof (cases "event_fails S H s \<or> update_next S x s")
    case True
    with by_events_refl show ?thesis by blast
  next
    case False
    with event_keeps_update[OF Cons.prems(3,4) s1(1) _ Cons.prems(5)]
    have "listening cal s1" "x \<in> set (carried_events (cal (s_world s1)))" by blast+
    from Cons.IH[OF _ s1(2) gw_reachable.step[OF Cons.prems(3) gw_exec_step[OF s1(1)]] this] Cons.prems(1)
    show ?thesis using by_events_trans[OF by_events_step[OF s1(1)]] by auto
  qed
qed simp

lemma pending_update_reached:
  assumes r: "gw_reachable S cal valid P H s0 s" and s0: "\<not> cal_stopped (cal (s_world s0))"
    and l: "listening cal s" and t: "s_thread s = T_Recv d"
    and ms: "ms = fst (frames (m_delimiterMessage (s_gw s)) (s_received s))"
    and inc: "sorted_wrt (<) (time_stamps (m_delimiterField (s_gw s)) ms)"
    and go: "\<not> terminated (m_delimiterField (s_gw s)) ms"
    and x: "x \<in> set (carried_events (cal (s_world s)))"
  shows "\<exists>s'. by_events S P H s s' \<and> (event_fails S H s' \<or> update_next S x s')"
proof -
  have fwd: "prefix (s_forwarded s') ms" "m_delimiterField (s_gw s') = m_delimiterField (s_gw s)"
    if r': "gw_reachable S cal valid P H s0 s'" and rec: "s_received s' = s_received s" for s'
  proof -
    have d: "m_delimiterMessage (s_gw s0) = m_delimiterMessage (s_gw s)" using reachable_delimiters[OF r] by simp
    from stream_ok_frames[OF reachable_stream[OF r']] show "prefix (s_forwarded s') ms"
      unfolding ms rec d by (metis append_assoc fst_conv prefixI)
    show "m_delimiterField (s_gw s') = m_delimiterField (s_gw s)"
      using reachable_delimiters[OF r] reachable_delimiters[OF r'] by simp
  qed
  have inc': "increasing_stamps s'"
    if "gw_reachable S cal valid P H s0 s'" "s_received s' = s_received s" for s'
    unfolding increasing_stamps_def fwd(2)[OF that]
    by (rule sorted_wrt_prefix[OF time_stamps_prefix[OF fwd(1)[OF that]] inc])
  have on: "\<not> cal_stopped (cal (s_world s'))"
    if "gw_reachable S cal valid P H s0 s'" "s_received s' = s_received s" for s'
  proof -
    have "set (s_forwarded s') \<subseteq> set ms" using fwd(1)[OF that] by (rule set_mono_prefix)
    then have "\<not> terminated (m_delimiterField (s_gw s)) (s_forwarded s')" using go by (auto simp: terminated_def)
    with reachable_stopped[OF that(1) s0] fwd(2)[OF that] show ?thesis by (simp add: stopped_by_message_def)
  qed
  from load_done[OF r s0 l t inc'] obtain s1 where s1: "by_events S P H s s1" "s_received s1 = s_received s"
    "event_fails S H s1 \<or> listening cal s1 \<and> (load cal s1 = 0 \<or> cal_stopped (cal (s_world s1)))" by blast
  show ?thesis
  proof (cases "event_fails S H s1")
    case True
    with s1(1) show ?thesis by blast
  next
    case False
    with s1 on[OF by_events_reachable[OF r s1(1)]] have "load cal s1 = 0" by blast
    then have "x \<notin> set (carried_events (cal (s_world s1)))" by (auto simp: load_def carrier_count_def)
    moreover obtain ls where "set ls \<subseteq> {L_Event}" "gw_execs S P H ls s = Some s1"
      using s1(1) unfolding by_events_def by blast
    ultimately show ?thesis using events_keep_update[OF _ _ r l x] by blast
  qed
qed

end

section \<open>The property\<close>

text \<open>C11: Liveness: when an update is pending for a time \<open>T\<close>, that is, the server has granted this
  time, and the thread waits in \<open>recv\<close>, the event loop on its own comes after finitely many events
  to the update at exactly the time \<open>T\<close>, unless an event before it fails. This is for every host
  whose own events settle (\<open>settling_host\<close>: no infinite chain of them up to any time; they may
  schedule whatever they want) and every reachable state in which the time stamps of the messages
  that have arrived strictly increase and none of them is the terminate message.\<close>

theorem granted_time_is_reached:
  assumes "settling_host S cal valid P H" and "gw_reachable S cal valid P H s0 s"
    and "\<not> cal_stopped (cal (s_world s0))"
    and "s_main s = Main_Run" and "m_state (s_gw s) = CONNECTED" and "s_thread s = T_Recv d"
    and "ms = fst (frames (m_delimiterMessage (s_gw s)) (s_received s))"
    and "sorted_wrt (<) (time_stamps (m_delimiterField (s_gw s)) ms)"
    and "\<not> terminated (m_delimiterField (s_gw s)) ms"
    and "(e, T, GatewayHandleUpdate data) \<in> set (cal_events (cal (s_world s)))"
  shows "\<exists>n s'. gw_execs S P H (replicate n L_Event) s = Some s' \<and>
    (event_fails S H s' \<or>
     (\<exists>w. sim_next S (s_world s') = Some (GatewayHandleUpdate data, w) \<and> sim_now S w = T))"
proof -
  have host: "gateway_host S cal valid P H" using assms(1) by (rule settling_host.axioms)
  have l: "listening cal s"
    using gateway_host.reachable_justified[OF host assms(2)] assms(4-6)
    by (auto simp: listening_def stop_justified_def)
  have "(e, T, GatewayHandleUpdate data) \<in> set (carried_events (cal (s_world s)))"
    using assms(10) by (simp add: carried_events_def)
  from settling_host.pending_update_reached[OF assms(1-3) l assms(6-9) this] obtain ls s' where
    ls: "set ls \<subseteq> {L_Event}" "gw_execs S P H ls s = Some s'"
    and s': "event_fails S H s' \<or> update_next S (e, T, GatewayHandleUpdate data) s'"
    unfolding by_events_def by blast
  from ls(1) have "replicate (length ls) L_Event = ls" by (intro replicate_length_same) auto
  with ls(2) s' show ?thesis
    by (intro exI[of _ "length ls"] exI[of _ s']) (simp add: update_next_def)
qed

text \<open>
  Two messages for one vehicle have been processed. The data of the first one asks the vehicle to
  send packets, so that the event loop also executes events of the application before the update.
\<close>

definition sending_labels :: "gw_label list" where
  "sending_labels = thread_starts @
     [L_Recv (Received (''0 0 0 0 0 0 0 0 1'' @ CRLF @ ''1 0 1 0 0 1 0 0 1'' @ CRLF))] @
     thread_message @ thread_message @ [L_Thread, L_Event, L_Event, L_Event]"

lemma sending_fields:
  "split_fields '' '' ''0 0 0 0 0 0 0 0 1'' = Some [''0'', ''0'', ''0'', ''0'', ''0'', ''0'', ''0'', ''0'', ''1'']"
  "message_time [''0'', ''0'', ''0'', ''0'', ''0'', ''0'', ''0'', ''0'', ''1''] = Inr (Seconds 0)"
  by (simp add: split_fields_def split_loop.simps) code_simp

lemma sending_run:
  "\<exists>s. gw_execs ref_sim ref_os ref_host sending_labels one_start = Some s \<and>
    s_received s = ''0 0 0 0 0 0 0 0 1'' @ CRLF @ ''1 0 1 0 0 1 0 0 1'' @ CRLF \<and>
    s_main s = Main_Run \<and> m_state (s_gw s) = CONNECTED \<and> s_thread s = T_Recv [] \<and>
    m_delimiterMessage (s_gw s) = CRLF \<and> m_delimiterField (s_gw s) = '' '' \<and> rw_now (s_world s) = 0 \<and>
    map snd (rw_events (s_world s)) =
      [(0, GatewayDoInitialize [''0'', ''0'', ''0'', ''0'', ''0'', ''0'', ''1'']),
       (Seconds 1, GatewayHandleUpdate [''1'', ''0'', ''0'', ''1'', ''0'', ''0'', ''1''])]"
  by (simp add: ref_eval sending_labels_def one_start_def one_gateway_def one_vehicle_def one_fields one_times
     sending_fields)

theorem granted_time_is_reached_witness:
  "\<exists>s n s'. gw_execs ref_sim ref_os ref_host sending_labels one_start = Some s \<and>
    sim_now ref_sim (s_world s) = 0 \<and> gw_execs ref_sim ref_os ref_host (replicate n L_Event) s = Some s' \<and>
    (event_fails ref_sim ref_host s' \<or>
     (\<exists>w. sim_next ref_sim (s_world s') =
        Some (GatewayHandleUpdate [''1'', ''0'', ''0'', ''1'', ''0'', ''0'', ''1''], w) \<and> sim_now ref_sim w = Seconds 1))"
proof -
  let ?ms = "[''0 0 0 0 0 0 0 0 1'', ''1 0 1 0 0 1 0 0 1'']"
  obtain s where s: "gw_execs ref_sim ref_os ref_host sending_labels one_start = Some s"
    "s_received s = ''0 0 0 0 0 0 0 0 1'' @ CRLF @ ''1 0 1 0 0 1 0 0 1'' @ CRLF"
    "s_main s = Main_Run" "m_state (s_gw s) = CONNECTED" "s_thread s = T_Recv []"
    "m_delimiterMessage (s_gw s) = CRLF" "m_delimiterField (s_gw s) = '' ''"
    "rw_now (s_world s) = 0"
    "map snd (rw_events (s_world s)) =
      [(0, GatewayDoInitialize [''0'', ''0'', ''0'', ''0'', ''0'', ''0'', ''1'']),
       (Seconds 1, GatewayHandleUpdate [''1'', ''0'', ''0'', ''1'', ''0'', ''0'', ''1''])]"
    using sending_run by (elim exE conjE) (rule that; assumption)
  have "\<forall>m \<in> set ?ms. find_sub CRLF (m @ CRLF) = Some (length m)" by code_simp
  from frames_messages[OF _ this, of "[]"]
  have ms: "?ms = fst (frames (m_delimiterMessage (s_gw s)) (s_received s))"
    unfolding s(2,6) by (simp add: CRLF_def frames_None)
  have ts: "message_stamp '' '' ''0 0 0 0 0 0 0 0 1'' = Some 0"
    "message_stamp '' '' ''1 0 1 0 0 1 0 0 1'' = Some (Seconds 1)"
    by (simp_all add: message_stamp_def sending_fields one_fields one_times Seconds_def)
  then have inc: "sorted_wrt (<) (time_stamps (m_delimiterField (s_gw s)) ?ms)"
    and go: "\<not> terminated (m_delimiterField (s_gw s)) ?ms"
    unfolding s(7) by (simp_all add: time_stamps_def map_filter_def terminated_def Seconds_def)
  have "(Seconds 1, GatewayHandleUpdate [''1'', ''0'', ''0'', ''1'', ''0'', ''0'', ''1'']) \<in>
      set (map snd (rw_events (s_world s)))" unfolding s(9) by simp
  then obtain e where e: "(e, Seconds 1, GatewayHandleUpdate [''1'', ''0'', ''0'', ''1'', ''0'', ''0'', ''1'']) \<in>
      set (cal_events (ref_cal (s_world s)))" by (auto simp: ref_cal_def)
  have s0: "\<not> cal_stopped (ref_cal (s_world one_start))"
    by (simp add: one_start_def ref_start_def ref_connected_def ref_init_def ref_cal_def)
  have r: "gw_reachable ref_sim ref_cal ref_ok ref_os ref_host one_start s"
    by (rule gw_execs_reachable[OF gw_reachable.start[OF one_start_initial] s(1)])
  from granted_time_is_reached[OF ref_settling.settling_host_axioms r s0 s(3-5) ms inc go e] s(1,8)
  show ?thesis by (auto simp: ref_sim_simps)
qed

end
