(* ===== verification/Triggered_Send_Refinement.thy ===== *)
theory Triggered_Send_Refinement
  imports Triggered_Send
begin

text \<open>
  The application as a state machine: idle, or with a number of packets left and the time at
  which \<open>SendPacket\<close> runs next. Every function of the class, in any order and between any other
  events of the simulation, does what the machine does; the assertion in \<open>SendPacket\<close> never
  fails and its socket is never null.
\<close>

section \<open>Specification\<close>

datatype sender = Idle | Sending nat time

text \<open>The calls of the functions of one application, and any other event of the simulation.\<close>

datatype app_label =
    Do_Send u32
  | Do_Start
  | Do_Stop
  | Do_Dispose
  | Do_Connected
  | Run_Request u32
  | Run_Packet
  | Run_Other

fun cancelling :: "app_label \<Rightarrow> bool" where
  "cancelling Do_Start = True"
| "cancelling Do_Stop = True"
| "cancelling Do_Dispose = True"
| "cancelling _ = False"

text \<open>
  The machine's state and the times of the packets since the last cancellation. \<open>ready\<close> says
  whether the application has a connected socket.
\<close>

fun spec_step :: "time \<Rightarrow> bool \<Rightarrow> time \<Rightarrow> app_label \<Rightarrow> sender \<times> time list \<Rightarrow> sender \<times> time list" where
  "spec_step interval ready now (Run_Request n) (Idle, ts) =
     (if ready then Sending (unat n) now else Idle, ts)"
| "spec_step interval ready now (Run_Request n) (Sending m t, ts) =
     (if ready then Sending (unat n) t else Sending m t, ts)"
| "spec_step interval ready now Run_Packet (Sending (Suc n) t, ts) = (Sending n (t + interval), ts @ [t])"
| "spec_step interval ready now Run_Packet (Sending 0 t, ts) = (Idle, ts)"
| "spec_step interval ready now Run_Packet (Idle, ts) = (Idle, ts)"
| "spec_step interval ready now Do_Start _ = (Idle, [])"
| "spec_step interval ready now Do_Stop _ = (Idle, [])"
| "spec_step interval ready now Do_Dispose _ = (Idle, [])"
| "spec_step interval ready now _ s = s"

section \<open>The running application\<close>

text \<open>
  A state is the object, the rest of the program, and the recorded times. \<open>Run_Other\<close> is an
  event that does not belong to this application: it cannot touch the application's private
  function. The calls of the public and virtual functions can come at any time.
\<close>

definition touches :: "nat \<Rightarrow> 'x callback \<Rightarrow> bool" where
  "touches i c \<longleftrightarrow> c = AppSendPacket i"

inductive app_step ::
    "('x callback, 'w) sim_ops \<Rightarrow> ('w \<Rightarrow> 'x callback calendar) \<Rightarrow> ('w \<Rightarrow> bool) \<Rightarrow>
     ('a, 't, 's, 'w) net_ops \<Rightarrow> nat \<Rightarrow>
     ('a, 't, 's) tsa \<times> 'w \<times> time list \<Rightarrow> app_label \<Rightarrow> ('a, 't, 's) tsa \<times> 'w \<times> time list \<Rightarrow> bool"
  for S cal valid N i where
  send: "app_step S cal valid N i (a, w, ts) (Do_Send n) (a, Send S i n w, ts)"
| start: "StartApplication S N i (a, w) = Inr (a', w') \<Longrightarrow>
    app_step S cal valid N i (a, w, ts) Do_Start (a', w', [])"
| stop: "StopApplication S N (a, w) = (a', w') \<Longrightarrow>
    app_step S cal valid N i (a, w, ts) Do_Stop (a', w', [])"
| dispose: "DoDispose S (a, w) = (a', w') \<Longrightarrow>
    app_step S cal valid N i (a, w, ts) Do_Dispose (a', w', [])"
| connected: "app_step S cal valid N i (a, w, ts) Do_Connected (ConnectionSucceeded a, w, ts)"
| request: "sim_next S w = Some (AppProcessSendRequest i n, w1) \<Longrightarrow>
    ProcessSendRequest S i n (a, w1) = (a', w') \<Longrightarrow>
    app_step S cal valid N i (a, w, ts) (Run_Request n) (a', w', ts)"
| packet: "sim_next S w = Some (AppSendPacket i, w1) \<Longrightarrow> SendPacket S N i (a, w1) = Inr (a', w') \<Longrightarrow>
    app_step S cal valid N i (a, w, ts) Run_Packet
      (a', w', if 0 < m_packetCount a then ts @ [sim_now S w1] else ts)"
| other: "sim_next S w = Some (c, w1) \<Longrightarrow> c \<noteq> AppSendPacket i \<Longrightarrow>
    \<forall>n. c \<noteq> AppProcessSendRequest i n \<Longrightarrow>
    valid w' \<Longrightarrow> keeps_events (touches i) (cal w1) (cal w') \<Longrightarrow>
    app_step S cal valid N i (a, w, ts) Run_Other (a, w', ts)"

inductive app_run ::
    "('x callback, 'w) sim_ops \<Rightarrow> ('w \<Rightarrow> 'x callback calendar) \<Rightarrow> ('w \<Rightarrow> bool) \<Rightarrow>
     ('a, 't, 's, 'w) net_ops \<Rightarrow> nat \<Rightarrow>
     ('a, 't, 's) tsa \<times> 'w \<times> time list \<Rightarrow> app_label list \<Rightarrow> ('a, 't, 's) tsa \<times> 'w \<times> time list \<Rightarrow> bool"
  for S cal valid N i where
  none: "app_run S cal valid N i s [] s"
| more: "app_run S cal valid N i s ls s' \<Longrightarrow> app_step S cal valid N i s' l s'' \<Longrightarrow>
    app_run S cal valid N i s (ls @ [l]) s''"

text \<open>The steps of the application itself, executed.\<close>

definition app_exec ::
    "('x callback, 'w) sim_ops \<Rightarrow> ('a, 't, 's, 'w) net_ops \<Rightarrow> nat \<Rightarrow> app_label \<Rightarrow>
     ('a, 't, 's) tsa \<times> 'w \<times> time list \<Rightarrow> (('a, 't, 's) tsa \<times> 'w \<times> time list) option" where
  "app_exec S N i l = (\<lambda>(a, w, ts).
     case l of
       Do_Send n \<Rightarrow> Some (a, Send S i n w, ts)
     | Do_Start \<Rightarrow>
         (case StartApplication S N i (a, w) of Inl _ \<Rightarrow> None | Inr (a', w') \<Rightarrow> Some (a', w', []))
     | Do_Stop \<Rightarrow> (let (a', w') = StopApplication S N (a, w) in Some (a', w', []))
     | Do_Dispose \<Rightarrow> (let (a', w') = DoDispose S (a, w) in Some (a', w', []))
     | Do_Connected \<Rightarrow> Some (ConnectionSucceeded a, w, ts)
     | Run_Request n \<Rightarrow>
         (case sim_next S w of
            None \<Rightarrow> None
          | Some (c, w1) \<Rightarrow>
              if c = AppProcessSendRequest i n
              then (let (a', w') = ProcessSendRequest S i n (a, w1) in Some (a', w', ts)) else None)
     | Run_Packet \<Rightarrow>
         (case sim_next S w of
            None \<Rightarrow> None
          | Some (c, w1) \<Rightarrow>
              if c = AppSendPacket i
              then (case SendPacket S N i (a, w1) of
                  Inl _ \<Rightarrow> None
                | Inr (a', w') \<Rightarrow>
                    Some (a', w', if 0 < m_packetCount a then ts @ [sim_now S w1] else ts)) else None)
     | Run_Other \<Rightarrow> None)"

lemma app_exec_step:
  assumes "app_exec S N i l s = Some s'"
  shows "app_step S cal valid N i s l s'"
proof -
  obtain a w ts where s: "s = (a, w, ts)" by (cases s)
  show ?thesis
  proof (cases "l = Run_Packet")
    case True
    with assms s obtain w1 a' w' where "sim_next S w = Some (AppSendPacket i, w1)"
      "SendPacket S N i (a, w1) = Inr (a', w')"
      "s' = (a', w', if 0 < m_packetCount a then ts @ [sim_now S w1] else ts)"
      by (auto simp: app_exec_def split: sum.splits option.splits if_splits)
    with app_step.packet[OF this(1,2)] True s show ?thesis by simp
  next
    case False
    with assms show ?thesis unfolding s
      by (auto simp: app_exec_def split: app_label.splits sum.splits option.splits prod.splits if_splits
          intro: app_step.intros)
  qed
qed

fun app_execs ::
    "('x callback, 'w) sim_ops \<Rightarrow> ('a, 't, 's, 'w) net_ops \<Rightarrow> nat \<Rightarrow> app_label list \<Rightarrow>
     ('a, 't, 's) tsa \<times> 'w \<times> time list \<Rightarrow> (('a, 't, 's) tsa \<times> 'w \<times> time list) option" where
  "app_execs S N i [] s = Some s"
| "app_execs S N i (l # ls) s =
     (case app_exec S N i l s of None \<Rightarrow> None | Some s' \<Rightarrow> app_execs S N i ls s')"

lemma app_run_trans:
  assumes "app_run S cal valid N i s1 ls' s2" and "app_run S cal valid N i s0 ls s1"
  shows "app_run S cal valid N i s0 (ls @ ls') s2"
  using assms
proof (induction rule: app_run.induct)
  case (more s1 ls' s2 l s3)
  from app_run.more[OF more.IH[OF more.prems] more.hyps(2)] show ?case by simp
qed simp

lemma app_execs_run: "app_execs S N i ls s = Some s' \<Longrightarrow> app_run S cal valid N i s ls s'"
proof (induction ls arbitrary: s)
  case Nil
  then show ?case by (simp add: app_run.none)
next
  case (Cons l ls)
  then obtain s1 where e: "app_exec S N i l s = Some s1" "app_execs S N i ls s1 = Some s'"
    by (auto split: option.splits)
  from app_run.more[OF app_run.none app_exec_step[OF e(1)]] have "app_run S cal valid N i s [l] s1" by simp
  from app_run_trans[OF Cons.IH[OF e(2)] this] show ?case by simp
qed

text \<open>A new application: nothing of it is scheduled.\<close>

definition app_initial ::
    "('w \<Rightarrow> 'x callback calendar) \<Rightarrow> ('w \<Rightarrow> bool) \<Rightarrow> ('a, 't, 's, 'w) net_ops \<Rightarrow> nat \<Rightarrow>
     ('a, 't, 's) tsa \<times> 'w \<times> time list \<Rightarrow> bool" where
  "app_initial cal valid N i s \<longleftrightarrow>
     (case s of (a, w, ts) \<Rightarrow>
        (\<exists>factory. helper_install N factory = Inr a) \<and> valid w \<and> ts = [] \<and>
        (\<forall>v \<in> set (cal_events (cal w)). ev_call v \<noteq> AppSendPacket i) \<and>
        (\<forall>v \<in> set (cal_destroy (cal w)). snd v \<noteq> AppSendPacket i))"

section \<open>The abstraction\<close>

definition send_due :: "nat \<Rightarrow> 'x callback calendar \<Rightarrow> time option" where
  "send_due i k =
     (case filter (\<lambda>v. touches i (ev_call v)) (cal_events k) of [] \<Rightarrow> None | v # _ \<Rightarrow> Some (ev_time v))"

definition sender_of :: "nat \<Rightarrow> ('a, 't, 's) tsa \<Rightarrow> 'x callback calendar \<Rightarrow> sender" where
  "sender_of i a k =
     (case send_due i k of None \<Rightarrow> Idle | Some t \<Rightarrow> Sending (unat (m_packetCount a)) t)"

definition ready :: "('a, 't, 's) tsa \<Rightarrow> bool" where
  "ready a \<longleftrightarrow> m_socket_tsa a \<noteq> None \<and> m_connected a"

section \<open>The invariant\<close>

definition app_ok :: "nat \<Rightarrow> ('a, 't, 's) tsa \<Rightarrow> 'x callback calendar \<Rightarrow> bool" where
  "app_ok i a k \<longleftrightarrow>
     (\<forall>v \<in> set (cal_events k). ev_call v = AppSendPacket i \<longrightarrow>
        m_sendPacketEvent a = Some (ev_id v) \<and> m_socket_tsa a \<noteq> None) \<and>
     (\<forall>x \<in> set (cal_destroy k). snd x \<noteq> AppSendPacket i) \<and>
     (\<forall>e. m_sendPacketEvent a = Some e \<longrightarrow>
        e \<in> cal_used k \<and> e \<notin> fst ` set (cal_destroy k) \<and>
        (\<forall>v \<in> set (cal_events k). ev_id v = e \<longrightarrow> ev_call v = AppSendPacket i))"

lemma touches_iff [simp]: "touches i c \<longleftrightarrow> c = AppSendPacket i"
  by (simp add: touches_def)

lemma send_due_None: "send_due i k = None \<longleftrightarrow> (\<forall>v \<in> set (cal_events k). ev_call v \<noteq> AppSendPacket i)"
proof -
  have "send_due i k = None \<longleftrightarrow> filter (\<lambda>v. touches i (ev_call v)) (cal_events k) = []"
    unfolding send_due_def by (cases "filter (\<lambda>v. touches i (ev_call v)) (cal_events k)") simp_all
  then show ?thesis by (simp add: filter_empty_conv)
qed

lemma send_due_SomeD:
  assumes "send_due i k = Some t"
  obtains v where "v \<in> set (cal_events k)" and "ev_call v = AppSendPacket i" and "ev_time v = t"
proof -
  from assms obtain v vs where
    f: "filter (\<lambda>v. touches i (ev_call v)) (cal_events k) = v # vs" and t: "ev_time v = t"
    unfolding send_due_def by (cases "filter (\<lambda>v. touches i (ev_call v)) (cal_events k)") simp_all
  have "v \<in> set (filter (\<lambda>v. touches i (ev_call v)) (cal_events k))" unfolding f by simp
  then have "v \<in> set (cal_events k)" "ev_call v = AppSendPacket i" by simp_all
  then show ?thesis using that t by blast
qed

lemma send_due_keeps: "keeps_events (touches i) k k' \<Longrightarrow> send_due i k' = send_due i k"
  unfolding send_due_def keeps_events_def by (elim conjE) (simp only:)

lemma send_due_schedule_other: "c \<noteq> AppSendPacket i \<Longrightarrow> send_due i (cal_schedule e d c k) = send_due i k"
  by (simp add: send_due_def cal_schedule_def filter_place_other)

lemma send_due_schedule:
  "send_due i k = None \<Longrightarrow> send_due i (cal_schedule e d (AppSendPacket i) k) = Some (cal_now k + d)"
  by (simp add: send_due_def cal_schedule_def filter_place_only split: list.splits)

lemma app_ok_keeps:
  assumes ok: "app_ok i a k" and kg: "keeps_events (touches i) k k'"
  shows "app_ok i a k'"
  unfolding app_ok_def
proof (intro conjI ballI allI impI)
  fix v
  assume v: "v \<in> set (cal_events k')" "ev_call v = AppSendPacket i"
  with keeps_events_event[OF kg, of v] have "v \<in> set (cal_events k)" by simp
  with ok v show "m_sendPacketEvent a = Some (ev_id v)" and "m_socket_tsa a \<noteq> None"
    by (simp_all add: app_ok_def)
next
  fix x
  assume x: "x \<in> set (cal_destroy k')"
  have "set (filter (\<lambda>v. touches i (snd v)) (cal_destroy k')) =
        set (filter (\<lambda>v. touches i (snd v)) (cal_destroy k))"
    using kg by (simp only: keeps_events_def)
  then have "x \<in> set (cal_destroy k)" if "touches i (snd x)" using x that by auto
  with ok show "snd x \<noteq> AppSendPacket i" unfolding app_ok_def touches_iff by blast
next
  fix e
  assume "m_sendPacketEvent a = Some e"
  with ok have e: "e \<in> cal_used k" "e \<notin> fst ` set (cal_destroy k)"
    and w: "\<And>v. v \<in> set (cal_events k) \<Longrightarrow> ev_id v = e \<Longrightarrow> ev_call v = AppSendPacket i"
    unfolding app_ok_def by blast+
  show "e \<in> cal_used k'" by (rule keeps_eventsD(3)[OF kg e(1)])
  show "e \<notin> fst ` set (cal_destroy k')" using e keeps_eventsD(2)[OF kg] by blast
  show "ev_call v = AppSendPacket i" if "v \<in> set (cal_events k')" "ev_id v = e" for v
    using that e(1) w keeps_eventsD(1)[OF kg] by blast
qed

text \<open>Scheduling the application's own event when none is pending.\<close>

lemma app_ok_schedule:
  assumes k: "cal_ok k" and ok: "app_ok i a k" and due: "send_due i k = None"
    and e: "e \<notin> cal_used k" and sock: "m_socket_tsa a \<noteq> None"
  shows "app_ok i (a\<lparr>m_packetCount := n, m_sendPacketEvent := Some e\<rparr>)
    (cal_schedule e d (AppSendPacket i) k)"
proof -
  have f: "e \<notin> ev_id ` set (cal_events k)" "e \<notin> fst ` set (cal_destroy k)"
    using k e unfolding cal_ok_iff by blast+
  have s: "set (cal_events (cal_schedule e d (AppSendPacket i) k)) =
      insert (e, cal_now k + d, AppSendPacket i) (set (cal_events k))"
    "cal_destroy (cal_schedule e d (AppSendPacket i) k) = cal_destroy k"
    "cal_used (cal_schedule e d (AppSendPacket i) k) = insert e (cal_used k)"
    by (simp_all add: cal_schedule_def)
  have none: "\<forall>v \<in> set (cal_events k). ev_call v \<noteq> AppSendPacket i"
    using due by (simp only: send_due_None)
  show ?thesis
    using ok f none sock unfolding app_ok_def s by (simp add: image_iff) blast
qed

lemma app_ok_subset:
  assumes "app_ok i a k" and "set (cal_events k') \<subseteq> set (cal_events k)"
    and "cal_destroy k' = cal_destroy k" and "cal_used k' = cal_used k"
  shows "app_ok i a k'"
  using assms(1,2) unfolding app_ok_def assms(3,4) by blast

lemma app_ok_cong:
  assumes "app_ok i a k" and "m_sendPacketEvent a' = m_sendPacketEvent a"
    and "m_socket_tsa a \<noteq> None \<Longrightarrow> m_socket_tsa a' \<noteq> None"
  shows "app_ok i a' k"
  using assms unfolding app_ok_def by metis

section \<open>The operations\<close>

definition app_effect ::
    "('w \<Rightarrow> 'x callback calendar) \<Rightarrow> ('w \<Rightarrow> bool) \<Rightarrow> nat \<Rightarrow> 'w \<Rightarrow> 'w \<Rightarrow> bool" where
  "app_effect cal valid i w w' \<longleftrightarrow> valid w' \<and> keeps_events (touches i) (cal w) (cal w')"

lemma net_app_effect: "net_effect cal valid w w' \<Longrightarrow> app_effect cal valid i w w'"
  unfolding app_effect_def net_effect_def
  by (elim conjE, intro conjI, assumption, erule keeps_events_mono)
    (simp add: net_callback_def app_event_def)

lemma app_effect_trans:
  "app_effect cal valid i w1 w2 \<Longrightarrow> app_effect cal valid i w2 w3 \<Longrightarrow> app_effect cal valid i w1 w3"
  unfolding app_effect_def using keeps_events_trans by blast

lemma app_effect_refl: "valid w \<Longrightarrow> app_effect cal valid i w w"
  by (simp add: app_effect_def)

lemma app_effect_valid: "app_effect cal valid i w w' \<Longrightarrow> valid w'"
  by (simp add: app_effect_def)

context network begin

lemma pending_iff_due:
  assumes "valid w" and "app_ok i a (cal w)"
  shows "is_pending S (m_sendPacketEvent a) w \<longleftrightarrow> send_due i (cal w) \<noteq> None"
proof -
  have "is_pending S (m_sendPacketEvent a) w \<longleftrightarrow>
      (\<exists>v \<in> set (cal_events (cal w)). ev_call v = AppSendPacket i)"
  proof (cases "m_sendPacketEvent a")
    case None
    then show ?thesis using assms(2) unfolding app_ok_def is_pending_def by auto
  next
    case (Some e)
    then have "is_pending S (m_sendPacketEvent a) w \<longleftrightarrow> e \<in> ev_id ` set (cal_events (cal w))"
      using assms(2) pending[OF assms(1)] unfolding app_ok_def is_pending_def cal_pending_def by auto
    moreover have "\<forall>v \<in> set (cal_events (cal w)). ev_id v = e \<longleftrightarrow> ev_call v = AppSendPacket i"
      using assms(2) Some unfolding app_ok_def by auto
    ultimately show ?thesis by (auto simp: image_iff)
  qed
  with send_due_None[of i "cal w"] show ?thesis by metis
qed

lemma CancelEvents_spec:
  assumes v: "valid w" and ok: "app_ok i a (cal w)" and run: "CancelEvents S (a, w) = (a', w')"
  shows "a' = a \<and> valid w' \<and> app_ok i a (cal w') \<and> send_due i (cal w') = None \<and>
    cal_now (cal w') = cal_now (cal w)"
proof -
  let ?e = "m_sendPacketEvent a"
  from run have w': "a' = a" "w' = (if is_pending S ?e w then cancel_event S ?e w else w)"
    by (auto simp: CancelEvents_def)
  note c = cancel_if_pending[OF v, of ?e, folded w'(2)]
  show ?thesis
  proof (cases ?e)
    case None
    with c w' ok show ?thesis by (auto simp: app_ok_def send_due_None)
  next
    case (Some e)
    then have k: "cal w' = cal_cancel e (cal w)" using c by simp
    have "app_ok i a (cal w')" unfolding k using ok by (auto simp: app_ok_def cal_cancel_def)
    moreover have "send_due i (cal w') = None"
      unfolding k send_due_None using ok Some by (auto simp: app_ok_def cal_cancel_def)
    ultimately show ?thesis using w' c k by (simp add: cal_cancel_def)
  qed
qed

lemma Send_effect: "valid w \<Longrightarrow> app_effect cal valid i w (Send S j n w)"
proof -
  assume v: "valid w"
  obtain e w' where s: "sim_schedule_now S (AppProcessSendRequest j n) w = (e, w')" by fastforce
  from schedule_now[OF v this] have "valid w'" "e \<notin> cal_used (cal w)"
    "cal w' = cal_schedule e 0 (AppProcessSendRequest j n) (cal w)" by blast+
  then have "app_effect cal valid i w w'" by (simp add: app_effect_def keeps_events_schedule)
  with s v show ?thesis by (simp add: Send_def app_effect_refl)
qed

text \<open>What every function does: the invariant is kept, and the machine makes its step.\<close>

lemma effect_ok:
  assumes "app_ok i a (cal w)" and "app_effect cal valid i w w'"
  shows "valid w' \<and> app_ok i a (cal w') \<and> send_due i (cal w') = send_due i (cal w) \<and>
    cal_now (cal w') = cal_now (cal w)"
  using assms app_ok_keeps send_due_keeps unfolding app_effect_def by fastforce

lemma StartApplication_ok:
  assumes v: "valid w" and ok: "app_ok i a (cal w)"
    and run: "StartApplication S N i (a, w) = Inr (a', w')"
  shows "valid w' \<and> app_ok i a' (cal w') \<and> send_due i (cal w') = None \<and>
    m_packetInterval a' = m_packetInterval a \<and> cal_now (cal w') = cal_now (cal w)"
proof (cases "m_socket_tsa a")
  case (Some sock)
  with run have "CancelEvents S (a, w) = (a', w')" by (simp add: StartApplication_def)
  from CancelEvents_spec[OF v ok this] show ?thesis by simp
next
  case None
  from StartApplication_InrD[OF v run None] obtain a2 w2 where
    e: "net_effect cal valid w w2" and
    a2: "m_sendPacketEvent a2 = m_sendPacketEvent a" "m_socket_tsa a2 \<noteq> None"
      "m_packetInterval a2 = m_packetInterval a" and
    x: "CancelEvents S (a2, w2) = (a', w')" by blast
  from effect_ok[OF ok net_app_effect[OF e]] have w2: "valid w2" "app_ok i a (cal w2)"
    "cal_now (cal w2) = cal_now (cal w)" by simp_all
  have "app_ok i a2 (cal w2)" by (rule app_ok_cong[OF w2(2)]) (use a2 in simp_all)
  from CancelEvents_spec[OF w2(1) this x] a2 w2(3) show ?thesis by simp
qed

lemma StopApplication_ok:
  assumes v: "valid w" and ok: "app_ok i a (cal w)" and run: "StopApplication S N (a, w) = (a', w')"
  shows "valid w' \<and> app_ok i a' (cal w') \<and> send_due i (cal w') = None \<and> a' = a \<and>
    cal_now (cal w') = cal_now (cal w)"
proof -
  obtain a1 w1 where c: "CancelEvents S (a, w) = (a1, w1)" by fastforce
  note s = CancelEvents_spec[OF v ok c]
  have "app_effect cal valid i w1 w'"
    using run c s net_app_effect[OF sock_close[of w1]] app_effect_refl[of valid w1]
    by (auto simp: StopApplication_def split: option.splits)
  with s run c effect_ok[of i a w1 w'] show ?thesis by (auto simp: StopApplication_def)
qed

lemma DoDispose_ok:
  assumes v: "valid w" and ok: "app_ok i a (cal w)" and run: "DoDispose S (a, w) = (a', w')"
  shows "valid w' \<and> app_ok i a' (cal w') \<and> send_due i (cal w') = None \<and>
    m_packetInterval a' = m_packetInterval a \<and> cal_now (cal w') = cal_now (cal w)"
proof -
  obtain a1 w1 where c: "CancelEvents S (a, w) = (a1, w1)" by fastforce
  note s = CancelEvents_spec[OF v ok c]
  from run c have a': "a' = a1\<lparr>m_socket_tsa := None\<rparr>" "w' = w1" by (simp_all add: DoDispose_def)
  have "\<forall>v \<in> set (cal_events (cal w1)). ev_call v \<noteq> AppSendPacket i"
    using s by (simp flip: send_due_None)
  with s a' show ?thesis by (simp add: app_ok_def)
qed

lemma ProcessSendRequest_ok:
  assumes v: "valid w" and ok: "app_ok i a (cal w)"
    and run: "ProcessSendRequest S i n (a, w) = (a', w')"
  shows "valid w' \<and> app_ok i a' (cal w') \<and> m_packetInterval a' = m_packetInterval a \<and>
    cal_now (cal w') = cal_now (cal w) \<and>
    sender_of i a' (cal w') =
      fst (spec_step interval (ready a) (cal_now (cal w)) (Run_Request n) (sender_of i a (cal w), ts))"
proof (cases "ready a")
  case False
  with run v ok show ?thesis
    by (cases "sender_of i a (cal w)") (auto simp: ProcessSendRequest_def ready_def)
next
  case True
  show ?thesis
  proof (cases "send_due i (cal w)")
    case (Some t)
    with pending_iff_due[OF v ok] True run
    have "a' = a\<lparr>m_packetCount := n\<rparr>" "w' = w" by (auto simp: ProcessSendRequest_def ready_def)
    moreover have "app_ok i (a\<lparr>m_packetCount := n\<rparr>) (cal w)"
      by (rule app_ok_cong[OF ok]) simp_all
    ultimately show ?thesis using v Some True by (simp add: sender_of_def)
  next
    case None
    obtain e w1 where s: "sim_schedule_now S (AppSendPacket i) w = (e, w1)" by fastforce
    with pending_iff_due[OF v ok] True run None
    have a': "a' = a\<lparr>m_packetCount := n, m_sendPacketEvent := Some e\<rparr>" "w' = w1"
      by (auto simp: ProcessSendRequest_def ready_def)
    from schedule_now[OF v s] have w1: "valid w1" "e \<notin> cal_used (cal w)"
      "cal w1 = cal_schedule e 0 (AppSendPacket i) (cal w)" by blast+
    from app_ok_schedule[OF cal_ok[OF v] ok None w1(2)] True
    have "app_ok i a' (cal w')" unfolding a' w1(3) by (simp add: ready_def)
    moreover have "send_due i (cal w') = Some (cal_now (cal w))"
      unfolding a' w1(3) using send_due_schedule[OF None, of e 0] by simp
    moreover have "cal_now (cal w') = cal_now (cal w)" unfolding a' w1(3) by simp
    ultimately show ?thesis using w1(1) a' None True by (simp add: sender_of_def)
  qed
qed

text \<open>When \<open>SendPacket\<close> is executed, its event is gone and no other one is pending.\<close>

lemma packet_popped:
  assumes v: "valid w" and ok: "app_ok i a (cal w)" and nx: "sim_next S w = Some (AppSendPacket i, w1)"
  shows "valid w1 \<and> app_ok i a (cal w1) \<and> send_due i (cal w1) = None \<and>
    send_due i (cal w) = Some (cal_now (cal w1)) \<and> m_socket_tsa a \<noteq> None"
proof -
  from next_Some[OF v nx] have v1: "valid w1" and n: "cal_next (cal w) = Some (AppSendPacket i, cal w1)"
    by blast+
  from n obtain e where ev: "cal_events (cal w) = (e, cal_now (cal w1), AppSendPacket i) # cal_events (cal w1)"
    and d: "cal_destroy (cal w1) = cal_destroy (cal w)" "cal_used (cal w1) = cal_used (cal w)"
    by (rule cal_next_SomeD)
  have e: "m_sendPacketEvent a = Some e" and sock: "m_socket_tsa a \<noteq> None"
    using ok ev by (auto simp: app_ok_def)
  have "e \<notin> ev_id ` set (cal_events (cal w1))"
    using cal_ok[OF v] ev by (auto simp: cal_ok_iff)
  moreover have "ev_id v = e" if "v \<in> set (cal_events (cal w1))" "ev_call v = AppSendPacket i" for v
  proof -
    have "v \<in> set (cal_events (cal w))" using that(1) ev by simp
    with ok that(2) have "m_sendPacketEvent a = Some (ev_id v)" unfolding app_ok_def by blast
    with e show ?thesis by simp
  qed
  ultimately have none: "\<forall>v \<in> set (cal_events (cal w1)). ev_call v \<noteq> AppSendPacket i" by blast
  have "app_ok i a (cal w1)"
    by (rule app_ok_subset[OF ok]) (use ev d in auto)
  moreover have "send_due i (cal w) = Some (cal_now (cal w1))"
    by (simp add: send_due_def ev)
  ultimately show ?thesis using v1 sock none by (simp add: send_due_None)
qed

lemma SendPacket_ok:
  assumes v: "valid w" and ok: "app_ok i a (cal w)" and due: "send_due i (cal w) = None"
    and sock: "m_socket_tsa a \<noteq> None" and int: "0 \<le> m_packetInterval a"
  shows "\<exists>a' w'. SendPacket S N i (a, w) = Inr (a', w') \<and> valid w' \<and> app_ok i a' (cal w') \<and>
    m_packetInterval a' = m_packetInterval a \<and> cal_now (cal w') = cal_now (cal w) \<and>
    sender_of i a' (cal w') = fst (spec_step (m_packetInterval a) r now Run_Packet
      (Sending (unat (m_packetCount a)) (cal_now (cal w)), ts))"
proof -
  have p: "\<not> is_pending S (m_sendPacketEvent a) w" using pending_iff_due[OF v ok] due by simp
  show ?thesis
  proof (cases "m_packetCount a = 0")
    case True
    with p v ok due show ?thesis by (simp add: SendPacket_def sender_of_def)
  next
    case False
    then have pos: "0 < m_packetCount a" by (simp add: word_gt_0)
    obtain s where s: "m_socket_tsa a = Some s" using sock by blast
    let ?w = "send_one N i a s w"
    from effect_ok[OF ok net_app_effect[OF send_one_net[OF v]]] due
    have w: "valid ?w" "app_ok i a (cal ?w)" "send_due i (cal ?w) = None"
      "cal_now (cal ?w) = cal_now (cal w)" by auto
    from schedule_ex[OF w(1) int] obtain e w2 where
      sc: "sim_schedule S (m_packetInterval a) (AppSendPacket i) ?w = (e, w2)" and v2: "valid w2"
      and e: "e \<notin> cal_used (cal ?w)"
      and k: "cal w2 = cal_schedule e (m_packetInterval a) (AppSendPacket i) (cal ?w)" by blast
    let ?a = "a\<lparr>m_packetCount := m_packetCount a - 1, m_sendPacketEvent := Some e\<rparr>"
    have "app_ok i ?a (cal w2)"
      unfolding k by (rule app_ok_schedule[OF cal_ok[OF w(1)] w(2,3) e sock])
    moreover have "send_due i (cal w2) = Some (cal_now (cal w) + m_packetInterval a)"
      unfolding k using send_due_schedule[OF w(3)] w(4) by simp
    moreover obtain n where n: "unat (m_packetCount a) = Suc n" using False
      by (metis not0_implies_Suc unat_eq_0)
    then have "unat (m_packetCount a - 1) = n" using False by (simp add: unat_minus_one)
    moreover have "cal_now (cal w2) = cal_now (cal w)" unfolding k using w(4) by simp
    ultimately show ?thesis using p pos s sc v2 n by (simp add: SendPacket_def sender_of_def)
  qed
qed

end

section \<open>The simulation\<close>

definition state_ok ::
    "('w \<Rightarrow> 'x callback calendar) \<Rightarrow> ('w \<Rightarrow> bool) \<Rightarrow> nat \<Rightarrow> ('a, 't, 's) tsa \<times> 'w \<times> time list \<Rightarrow> bool" where
  "state_ok cal valid i s \<longleftrightarrow>
     (case s of (a, w, ts) \<Rightarrow> valid w \<and> app_ok i a (cal w) \<and> 0 \<le> m_packetInterval a)"

definition abstract ::
    "('w \<Rightarrow> 'x callback calendar) \<Rightarrow> nat \<Rightarrow> ('a, 't, 's) tsa \<times> 'w \<times> time list \<Rightarrow> sender \<times> time list" where
  "abstract cal i s = (case s of (a, w, ts) \<Rightarrow> (sender_of i a (cal w), ts))"

text \<open>The time of the event that a step executes; a call does not move the clock.\<close>

definition step_time :: "('x callback, 'w) sim_ops \<Rightarrow> 'w \<Rightarrow> app_label \<Rightarrow> time" where
  "step_time S w l =
     (case l of
        Run_Request _ \<Rightarrow> (case sim_next S w of None \<Rightarrow> sim_now S w | Some (_, w') \<Rightarrow> sim_now S w')
      | _ \<Rightarrow> sim_now S w)"

context network begin

lemma popped_other_app:
  assumes v: "valid w" and ok: "app_ok i a (cal w)" and nx: "sim_next S w = Some (c, w1)"
    and c: "c \<noteq> AppSendPacket i"
  shows "valid w1 \<and> app_ok i a (cal w1) \<and> send_due i (cal w1) = send_due i (cal w)"
proof -
  from next_Some[OF v nx] have v1: "valid w1" and n: "cal_next (cal w) = Some (c, cal w1)" by blast+
  from n obtain e where ev: "cal_events (cal w) = (e, cal_now (cal w1), c) # cal_events (cal w1)"
    and d: "cal_destroy (cal w1) = cal_destroy (cal w)" "cal_used (cal w1) = cal_used (cal w)"
    by (rule cal_next_SomeD)
  have "app_ok i a (cal w1)" by (rule app_ok_subset[OF ok]) (use ev d in auto)
  moreover have "send_due i (cal w1) = send_due i (cal w)" using c by (simp add: send_due_def ev)
  ultimately show ?thesis using v1 by simp
qed

lemma app_step_refines:
  assumes ok: "state_ok cal valid i (a, w, ts)"
    and step: "app_step S cal valid N i (a, w, ts) l (a', w', ts')"
  shows "state_ok cal valid i (a', w', ts') \<and> m_packetInterval a' = m_packetInterval a \<and>
    abstract cal i (a', w', ts') =
      spec_step (m_packetInterval a) (ready a) (step_time S w l) l (abstract cal i (a, w, ts))"
proof -
  have v: "valid w" and inv: "app_ok i a (cal w)" and int: "0 \<le> m_packetInterval a"
    using ok by (simp_all add: state_ok_def)
  show ?thesis
    using step
  proof (cases rule: app_step.cases)
    case (send n)
    with effect_ok[OF inv Send_effect[OF v]] int show ?thesis
      by (simp add: state_ok_def abstract_def sender_of_def)
  next
    case start
    with StartApplication_ok[OF v inv] int show ?thesis
      by (simp add: state_ok_def abstract_def sender_of_def)
  next
    case stop
    from StopApplication_ok[OF v inv stop(3)] have "a' = a" by simp
    with stop StopApplication_ok[OF v inv stop(3)] int show ?thesis
      by (simp add: state_ok_def abstract_def sender_of_def)
  next
    case dispose
    with DoDispose_ok[OF v inv] int show ?thesis
      by (simp add: state_ok_def abstract_def sender_of_def)
  next
    case connected
    have "app_ok i (ConnectionSucceeded a) (cal w)"
      by (rule app_ok_cong[OF inv]) (simp_all add: ConnectionSucceeded_def)
    with connected v int show ?thesis
      by (simp add: state_ok_def abstract_def sender_of_def ConnectionSucceeded_def split: option.split)
  next
    case (request n w1)
    have c: "AppProcessSendRequest i n \<noteq> AppSendPacket i" by simp
    from popped_other_app[OF v inv request(3) c]
    have w1: "valid w1" "app_ok i a (cal w1)" "send_due i (cal w1) = send_due i (cal w)" by simp_all
    have same: "sender_of i a (cal w1) = sender_of i a (cal w)" using w1(3) by (simp add: sender_of_def)
    have t: "step_time S w l = cal_now (cal w1)"
      using request now[OF w1(1)] by (simp add: step_time_def)
    have snd: "snd (spec_step x r t (Run_Request n) (z, us)) = us" for x r t z us
      by (cases z) simp_all
    from ProcessSendRequest_ok[OF w1(1,2) request(4), of "m_packetInterval a" ts] request(1,2) int t
    show ?thesis
      by (simp add: state_ok_def abstract_def same prod_eq_iff snd)
  next
    case (packet w1)
    from packet_popped[OF v inv packet(3)] have w1: "valid w1" "app_ok i a (cal w1)"
      "send_due i (cal w1) = None" "send_due i (cal w) = Some (cal_now (cal w1))"
      "m_socket_tsa a \<noteq> None" by simp_all
    have s: "sender_of i a (cal w) = Sending (unat (m_packetCount a)) (cal_now (cal w1))"
      using w1(4) by (simp add: sender_of_def)
    have pos: "0 < m_packetCount a \<longleftrightarrow> unat (m_packetCount a) \<noteq> 0"
      by (simp add: word_gt_0 unat_eq_0)
    have snd: "snd (spec_step x r t Run_Packet (Sending n u, us)) = (if n \<noteq> 0 then us @ [u] else us)"
      for x r t n u us by (cases n) simp_all
    from SendPacket_ok[OF w1(1,2,3,5) int, of "ready a" "step_time S w l" ts] packet
    show ?thesis
      using int by (auto simp: state_ok_def abstract_def s prod_eq_iff snd pos now[OF w1(1)])
  next
    case (other c w1)
    from popped_other_app[OF v inv other(4,5)] have w1: "valid w1" "app_ok i a (cal w1)"
      "send_due i (cal w1) = send_due i (cal w)" by simp_all
    have "app_effect cal valid i w1 w'" using other by (simp add: app_effect_def)
    from effect_ok[OF w1(2) this] w1 other int show ?thesis
      by (simp add: state_ok_def abstract_def sender_of_def)
  qed
qed

text \<open>The clock: it does not run backwards, and the machine's events run when they are due.\<close>

lemma app_step_time:
  assumes ok: "state_ok cal valid i (a, w, ts)"
    and step: "app_step S cal valid N i (a, w, ts) l (a', w', ts')"
  shows "cal_now (cal w) \<le> cal_now (cal w') \<and>
    (\<forall>n. l = Run_Request n \<longrightarrow> step_time S w l = cal_now (cal w')) \<and>
    (l = Run_Packet \<longrightarrow> (\<exists>n. sender_of i a (cal w) = Sending n (cal_now (cal w'))))"
proof -
  have v: "valid w" and inv: "app_ok i a (cal w)" and int: "0 \<le> m_packetInterval a"
    using ok by (simp_all add: state_ok_def)
  have mono: "cal_now (cal w) \<le> cal_now (cal w1)" if "sim_next S w = Some (c, w1)" for c w1
    using next_Some[OF v that] cal_next_now[OF cal_ok[OF v]] by blast
  show ?thesis
    using step
  proof (cases rule: app_step.cases)
    case (send n)
    with effect_ok[OF inv Send_effect[OF v]] show ?thesis by simp
  next
    case start
    with StartApplication_ok[OF v inv start(3)] show ?thesis by simp
  next
    case stop
    with StopApplication_ok[OF v inv stop(3)] show ?thesis by simp
  next
    case dispose
    with DoDispose_ok[OF v inv dispose(3)] show ?thesis by simp
  next
    case connected
    then show ?thesis by simp
  next
    case (request n w1)
    have c: "AppProcessSendRequest i n \<noteq> AppSendPacket i" by simp
    from popped_other_app[OF v inv request(3) c]
    have w1: "valid w1" "app_ok i a (cal w1)" by simp_all
    from ProcessSendRequest_ok[OF w1 request(4)] mono[OF request(3)] request(1,3) now[OF w1(1)]
    show ?thesis by (simp add: step_time_def)
  next
    case (packet w1)
    from packet_popped[OF v inv packet(3)] have w1: "valid w1" "app_ok i a (cal w1)"
      "send_due i (cal w1) = None" "send_due i (cal w) = Some (cal_now (cal w1))"
      "m_socket_tsa a \<noteq> None" by simp_all
    from SendPacket_ok[OF w1(1,2,3,5) int] packet mono[OF packet(3)] w1(4) show ?thesis
      by (auto simp: sender_of_def)
  next
    case (other c w1)
    from popped_other_app[OF v inv other(4,5)] have w1: "valid w1" "app_ok i a (cal w1)" by simp_all
    have "app_effect cal valid i w1 w'" using other by (simp add: app_effect_def)
    from effect_ok[OF w1(2) this] mono[OF other(4)] other(1) show ?thesis by simp
  qed
qed

text \<open>A pending event is not in the past.\<close>

lemma sender_not_late:
  assumes "valid w" and "sender_of i a (cal w) = Sending n t"
  shows "cal_now (cal w) \<le> t"
proof -
  from assms(2) have "send_due i (cal w) = Some t" by (auto simp: sender_of_def split: option.splits)
  then obtain v where "v \<in> set (cal_events (cal w))" "ev_time v = t" by (rule send_due_SomeD)
  with cal_ok[OF assms(1)] show ?thesis by (auto simp: cal_ok_def)
qed

end

section \<open>Runs\<close>

text \<open>The next packet is not sent before \<open>t0\<close>, also when a request comes now.\<close>

fun held_until :: "time \<Rightarrow> time \<Rightarrow> sender \<Rightarrow> bool" where
  "held_until t0 now Idle \<longleftrightarrow> t0 \<le> now"
| "held_until t0 now (Sending n t) \<longleftrightarrow> t0 \<le> t"

lemma spec_step_held:
  assumes "held_until t0 now (fst z)" and "now \<le> now'" and "0 \<le> interval" and "\<not> cancelling l"
    and "\<And>n. l = Run_Request n \<Longrightarrow> u = now'"
    and "l = Run_Packet \<Longrightarrow> \<exists>n. fst z = Sending n now'"
  shows "held_until t0 now' (fst (spec_step interval r u l z))"
proof -
  obtain sd ts where z: "z = (sd, ts)" by fastforce
  show ?thesis
  proof (cases l)
    case (Run_Request n)
    with assms z show ?thesis by (cases sd) auto
  next
    case Run_Packet
    with assms(6) z obtain n where "sd = Sending n now'" by auto
    with Run_Packet assms(1,3) z show ?thesis by (cases n) auto
  qed (use assms z in \<open>cases sd; simp\<close>)+
qed

text \<open>A request for \<open>n\<close> packets that nothing interrupts, \<open>k\<close> packets later.\<close>

definition burst :: "time \<Rightarrow> time \<Rightarrow> nat \<Rightarrow> time list" where
  "burst interval t k = map (\<lambda>j. t + int j * interval) [0..<k]"

lemma burst_Suc: "burst interval t (Suc k) = burst interval t k @ [t + int k * interval]"
  by (simp add: burst_def)

definition burst_state :: "time \<Rightarrow> time \<Rightarrow> nat \<Rightarrow> time list \<Rightarrow> time \<Rightarrow> sender \<times> time list \<Rightarrow> bool" where
  "burst_state interval t n ts now z \<longleftrightarrow>
     (\<exists>k \<le> n. z = (Sending (n - k) (t + int k * interval), ts @ burst interval t k)) \<or>
     z = (Idle, ts @ burst interval t n) \<and> t + int n * interval \<le> now"

lemma spec_step_burst:
  assumes "burst_state interval t n ts now z" and "now \<le> now'"
    and l: "\<forall>m. l \<noteq> Run_Request m" "\<not> cancelling l"
    and "l = Run_Packet \<Longrightarrow> \<exists>n. fst z = Sending n now'"
  shows "burst_state interval t n ts now' (spec_step interval r u l z)"
proof (cases "l = Run_Packet")
  case False
  then have "spec_step interval r u l z = z" using l by (cases l) simp_all
  with assms(1,2) show ?thesis by (auto simp: burst_state_def)
next
  case True
  with assms(1,5) obtain k where k: "k \<le> n"
    and z: "z = (Sending (n - k) (t + int k * interval), ts @ burst interval t k)"
    and now: "t + int k * interval = now'"
    by (auto simp: burst_state_def)
  show ?thesis
  proof (cases "k = n")
    case k': True
    with True z now show ?thesis by (simp add: burst_state_def)
  next
    case False
    with k have "n - k = Suc (n - Suc k)" "Suc k \<le> n" by simp_all
    with True z have "spec_step interval r u l z =
        (Sending (n - Suc k) (t + int (Suc k) * interval), ts @ burst interval t (Suc k))"
      by (simp add: burst_Suc algebra_simps)
    with \<open>Suc k \<le> n\<close> show ?thesis unfolding burst_state_def by blast
  qed
qed

context network begin

lemma app_initial_ok:
  assumes "app_initial cal valid N i s"
  shows "state_ok cal valid i s" and "abstract cal i s = (Idle, [])"
proof -
  obtain a w ts where s: "s = (a, w, ts)" by (cases s)
  from assms(1) s obtain factory where f: "helper_install N factory = Inr a"
    and w: "valid w" "ts = []" "\<forall>v \<in> set (cal_events (cal w)). ev_call v \<noteq> AppSendPacket i"
    "\<forall>v \<in> set (cal_destroy (cal w)). snd v \<noteq> AppSendPacket i"
    unfolding app_initial_def s by auto
  from helper_install_fresh[OF f] have "m_sendPacketEvent a = None" "0 \<le> m_packetInterval a"
    by (simp_all add: fresh_app_def)
  with w(3,4) have "app_ok i a (cal w)" unfolding app_ok_def by simp
  with w s \<open>0 \<le> m_packetInterval a\<close> show "state_ok cal valid i s" by (simp add: state_ok_def)
  from w(2,3) s show "abstract cal i s = (Idle, [])"
    by (simp add: abstract_def sender_of_def send_due_None[THEN iffD2])
qed

lemma app_run_ok:
  assumes "app_run S cal valid N i s0 ls s" and "state_ok cal valid i s0"
  shows "state_ok cal valid i s \<and> m_packetInterval (fst s) = m_packetInterval (fst s0)"
  using assms
proof (induction rule: app_run.induct)
  case (more s0 ls s l s')
  obtain a w ts where s: "s = (a, w, ts)" by (cases s)
  obtain a' w' ts' where s': "s' = (a', w', ts')" by (cases s')
  from app_step_refines[of i a w ts l a' w' ts'] more s s' show ?case by simp
qed simp

lemma app_run_held:
  assumes "app_run S cal valid N i s0 ls s" and "state_ok cal valid i s0"
    and "held_until t0 (cal_now (cal (fst (snd s0)))) (fst (abstract cal i s0))"
    and "\<forall>l \<in> set ls. \<not> cancelling l"
  shows "held_until t0 (cal_now (cal (fst (snd s)))) (fst (abstract cal i s))"
  using assms
proof (induction rule: app_run.induct)
  case (more s0 ls s l s')
  obtain a w ts where s: "s = (a, w, ts)" by (cases s)
  obtain a' w' ts' where s': "s' = (a', w', ts')" by (cases s')
  from app_run_ok[OF more.hyps(1) more.prems(1)] s
  have ok: "state_ok cal valid i (a, w, ts)" by simp
  note step = more.hyps(2)[unfolded s s']
  from app_step_refines[OF ok step] have
    r: "abstract cal i s' = spec_step (m_packetInterval a) (ready a) (step_time S w l) l (abstract cal i s)"
    by (simp add: s s')
  have "0 \<le> m_packetInterval a" using ok by (simp add: state_ok_def)
  with app_step_time[OF ok step] more.IH[OF more.prems(1,2)] more.prems(3) show ?case
    unfolding r
    by (intro spec_step_held[where now = "cal_now (cal w)"]) (simp_all add: s s' abstract_def)
qed simp

text \<open>Once a packet has been sent the next one is held for the interval.\<close>

lemma packet_holds:
  assumes ok: "state_ok cal valid i (a, w, ts)" and nx: "sim_next S w = Some (AppSendPacket i, w1)"
    and run: "SendPacket S N i (a, w1) = Inr (a', w')" and n: "0 < m_packetCount a"
  shows "state_ok cal valid i (a', w', ts') \<and>
    held_until (sim_now S w1 + m_packetInterval a) (cal_now (cal w')) (fst (abstract cal i (a', w', ts')))"
proof -
  have inv: "valid w" "app_ok i a (cal w)" "0 \<le> m_packetInterval a" using ok by (simp_all add: state_ok_def)
  from packet_popped[OF inv(1,2) nx] have w1: "valid w1" "app_ok i a (cal w1)"
    "send_due i (cal w1) = None" "m_socket_tsa a \<noteq> None" by simp_all
  from n obtain m where m: "unat (m_packetCount a) = Suc m"
    by (metis not0_implies_Suc unat_gt_0 word_gt_0 neq0_conv)
  from SendPacket_ok[OF w1 inv(3), of "ready a" 0 ts] run m now[OF w1(1)] inv(3) show ?thesis
    by (auto simp: state_ok_def abstract_def)
qed

lemma app_run_burst:
  assumes "app_run S cal valid N i s0 ls s" and "state_ok cal valid i s0"
    and "abstract cal i s0 = (Sending n t, ts0)"
    and "\<forall>l \<in> set ls. (\<forall>m. l \<noteq> Run_Request m) \<and> \<not> cancelling l"
  shows "burst_state (m_packetInterval (fst s0)) t n ts0 (cal_now (cal (fst (snd s)))) (abstract cal i s)"
  using assms
proof (induction rule: app_run.induct)
  case (none s)
  then show ?case by (auto simp: burst_state_def burst_def)
next
  case (more s0 ls s l s')
  obtain a w ts where s: "s = (a, w, ts)" by (cases s)
  obtain a' w' ts' where s': "s' = (a', w', ts')" by (cases s')
  from app_run_ok[OF more.hyps(1) more.prems(1)] s
  have ok: "state_ok cal valid i (a, w, ts)" "m_packetInterval a = m_packetInterval (fst s0)" by simp_all
  note step = more.hyps(2)[unfolded s s']
  from app_step_refines[OF ok(1) step] have
    r: "abstract cal i s' = spec_step (m_packetInterval a) (ready a) (step_time S w l) l (abstract cal i s)"
    by (simp add: s s')
  from app_step_time[OF ok(1) step] more.IH[OF more.prems(1,2)] more.prems(3) show ?case
    unfolding r ok(2)[symmetric]
    by (intro spec_step_burst[where now = "cal_now (cal w)"])
      (simp_all add: s s' ok(2) abstract_def)
qed

text \<open>\<open>SendPacket\<close> has no fault in any run.\<close>

lemma SendPacket_no_fault:
  assumes "app_run S cal valid N i s0 ls (a, w, ts)" and "state_ok cal valid i s0"
    and "sim_next S w = Some (AppSendPacket i, w1)"
  shows "\<exists>s'. SendPacket S N i (a, w1) = Inr s'"
proof -
  from app_run_ok[OF assms(1,2)] have ok: "valid w" "app_ok i a (cal w)" "0 \<le> m_packetInterval a"
    by (simp_all add: state_ok_def)
  from packet_popped[OF ok(1,2) assms(3)] SendPacket_ok[OF _ _ _ _ ok(3), of w1] show ?thesis by blast
qed

text \<open>An idle application sends nothing until the next request.\<close>

lemma idle_no_packet:
  assumes "app_step S cal valid N i (a, w, ts) l (a', w', ts')" and "state_ok cal valid i (a, w, ts)"
    and "sender_of i a (cal w) = Idle" and "\<forall>n. l \<noteq> Run_Request n"
  shows "l \<noteq> Run_Packet \<and> sender_of i a' (cal w') = Idle"
proof -
  have l: "l \<noteq> Run_Packet" using app_step_time[OF assms(2,1)] assms(3) by auto
  have "fst (spec_step x r t l (Idle, us)) = Idle" for x r t us
    using assms(4) by (cases l) auto
  with app_step_refines[OF assms(2,1)] assms(3) l show ?thesis
    by (simp add: abstract_def) (metis fst_conv)
qed

lemma idle_run:
  assumes "app_run S cal valid N i s0 ls s" and "state_ok cal valid i s0"
    and "fst (abstract cal i s0) = Idle" and "\<forall>l \<in> set ls. \<forall>n. l \<noteq> Run_Request n"
  shows "Run_Packet \<notin> set ls \<and> fst (abstract cal i s) = Idle"
  using assms
proof (induction rule: app_run.induct)
  case (more s0 ls s l s')
  obtain a w ts where s: "s = (a, w, ts)" by (cases s)
  obtain a' w' ts' where s': "s' = (a', w', ts')" by (cases s')
  from app_run_ok[OF more.hyps(1) more.prems(1)] s have ok: "state_ok cal valid i (a, w, ts)" by simp
  from more.IH more.prems s have "Run_Packet \<notin> set ls" "sender_of i a (cal w) = Idle"
    by (simp_all add: abstract_def)
  with idle_no_packet[OF more.hyps(2)[unfolded s s'] ok] more.prems s' show ?case
    by (auto simp: abstract_def)
qed simp

end

section \<open>Addresses\<close>

text \<open>
  The pairs of a remote and a local address with which a socket can be bound: the remote one is
  valid, a given local one has no other IP version, and without a local one the remote one has a
  kind for which a local address can be generated.
\<close>

definition well_addressed :: "('a, 't, 's, 'w) net_ops \<Rightarrow> 'a \<Rightarrow> 'a \<Rightarrow> bool" where
  "well_addressed N peer local \<longleftrightarrow> \<not> is_invalid N peer \<and>
     (if is_invalid N local then is_inet6 N peer \<or> is_inet N peer \<or> is_packet_socket N peer
      else \<not> (is_inet N peer \<and> is_inet6 N local) \<and> \<not> (is_inet6 N peer \<and> is_inet N local))"

lemma bind_socket_addressed:
  assumes "bind_socket N a sock w = Inr (r, w')" and "r \<noteq> -1" and "\<not> is_invalid N (m_peer a)"
  shows "well_addressed N (m_peer a) (m_local a)"
  using assms by (auto simp: bind_socket_def well_addressed_def split: if_splits)

lemma CancelEvents_same: "CancelEvents S (a, w) = (a', w') \<Longrightarrow> a' = a"
  by (simp add: CancelEvents_def)

lemma StartApplication_addressed:
  assumes run: "StartApplication S N i (a, w) = Inr (a', w')"
  shows "m_peer a' = m_peer a \<and> m_local a' = m_local a \<and>
    (m_socket_tsa a = None \<longrightarrow> well_addressed N (m_peer a) (m_local a))"
proof (cases "m_socket_tsa a")
  case (Some sock)
  with run CancelEvents_same[of S a w a' w'] show ?thesis by (simp add: StartApplication_def)
next
  case None
  obtain sock w1 where c: "create_socket N (m_socketTypeId a) w = (sock, w1)" by fastforce
  let ?a = "a\<lparr>m_socket_tsa := Some sock\<rparr>"
  from run None c have v: "\<not> is_invalid N (m_peer ?a)"
    by (auto simp: StartApplication_def Let_def split: if_splits)
  from run None c obtain r w2 where b: "bind_socket N ?a sock w1 = Inr (r, w2)"
    by (auto simp: StartApplication_def Let_def split: if_splits)
  with run None c v have r: "r \<noteq> -1"
    by (auto simp: StartApplication_def Let_def split: if_splits)
  obtain cn w5 where k: "sock_connect N sock (m_peer a)
      (if is_inet N (m_peer a) then set_ip_tos N sock (m_tos a) (set_connect_callback N sock i w2)
       else set_connect_callback N sock i w2) = (cn, w5)" by fastforce
  from run None c v b r k have "cn \<noteq> Some False"
    by (auto simp: StartApplication_def Let_def ConnectionFailed_def)
  with run None c v b r k have "a' = ?a \<or> a' = ConnectionSucceeded ?a"
    by (cases "cn = None") (auto simp: StartApplication_def Let_def CancelEvents_def)
  with bind_socket_addressed[OF b r v] show ?thesis by (auto simp: ConnectionSucceeded_def)
qed

lemma app_step_addressed:
  assumes "app_step S cal valid N i (a, w, ts) l (a', w', ts')"
    and "m_socket_tsa a \<noteq> None \<Longrightarrow> well_addressed N (m_peer a) (m_local a)"
  shows "m_peer a' = m_peer a \<and> m_local a' = m_local a \<and>
    (m_socket_tsa a' \<noteq> None \<longrightarrow> well_addressed N (m_peer a) (m_local a))"
  using assms(1)
proof (cases rule: app_step.cases)
  case start
  with StartApplication_addressed[OF start(3)] assms(2) show ?thesis by auto
next
  case stop
  with assms(2) show ?thesis by (auto simp: StopApplication_def CancelEvents_def)
next
  case dispose
  then show ?thesis by (auto simp: DoDispose_def CancelEvents_def)
next
  case connected
  with assms(2) show ?thesis by (auto simp: ConnectionSucceeded_def)
next
  case request
  with assms(2) show ?thesis by (auto simp: ProcessSendRequest_def split: if_splits prod.splits)
next
  case packet
  with assms(2) show ?thesis
    by (auto simp: SendPacket_def Let_def split: if_splits prod.splits option.splits)
qed (use assms(2) in auto)

lemma app_run_addressed:
  assumes "app_run S cal valid N i s0 ls s" and "m_socket_tsa (fst s0) = None"
  shows "m_peer (fst s) = m_peer (fst s0) \<and> m_local (fst s) = m_local (fst s0) \<and>
    (m_socket_tsa (fst s) \<noteq> None \<longrightarrow> well_addressed N (m_peer (fst s0)) (m_local (fst s0)))"
  using assms
proof (induction rule: app_run.induct)
  case (more s0 ls s l s')
  obtain a w ts where s: "s = (a, w, ts)" by (cases s)
  obtain a' w' ts' where s': "s' = (a', w', ts')" by (cases s')
  from app_step_addressed[OF more.hyps(2)[unfolded s s']] more.IH[OF more.prems] s s' show ?case by auto
qed simp

end
