(* ===== verification/Triggered_Send_Example.thy ===== *)
theory Triggered_Send_Example
  imports Triggered_Send_Refinement
begin

text \<open>
  The event loop over one application and the rest of a simulation, and the program
  \<open>examples/triggered-send-example.cc\<close>, whose comments give the times at which packets are sent.
\<close>

text \<open>\<open>user\<close> executes the events of the program that uses the application.\<close>

definition app_dispatch ::
    "('x callback, 'w) sim_ops \<Rightarrow> ('a, 't, 's, 'w) net_ops \<Rightarrow> nat \<Rightarrow>
     ('x \<Rightarrow> ('a, 't, 's) tsa \<times> 'w \<Rightarrow> (('a, 't, 's) tsa \<times> 'w) res) \<Rightarrow> 'x callback \<Rightarrow>
     ('a, 't, 's) tsa \<times> 'w \<Rightarrow> (('a, 't, 's) tsa \<times> 'w) res" where
  "app_dispatch S N i user c s =
     (case c of
        AppProcessSendRequest j n \<Rightarrow> Inr (if j = i then ProcessSendRequest S i n s else s)
      | AppSendPacket j \<Rightarrow> (if j = i then SendPacket S N i s else Inr s)
      | UserEvent x \<Rightarrow> user x s
      | _ \<Rightarrow> Inr s)"

text \<open>\<open>Simulator::Run\<close>, for at most the given number of events.\<close>

fun app_loop ::
    "('x callback, 'w) sim_ops \<Rightarrow> ('a, 't, 's, 'w) net_ops \<Rightarrow> nat \<Rightarrow>
     ('x \<Rightarrow> ('a, 't, 's) tsa \<times> 'w \<Rightarrow> (('a, 't, 's) tsa \<times> 'w) res) \<Rightarrow> nat \<Rightarrow>
     ('a, 't, 's) tsa \<times> 'w \<Rightarrow> (('a, 't, 's) tsa \<times> 'w) res" where
  "app_loop S N i user 0 s = Inr s"
| "app_loop S N i user (Suc fuel) (a, w) =
     (case sim_next S w of
        None \<Rightarrow> Inr (a, w)
      | Some (c, w') \<Rightarrow> bind_res (app_dispatch S N i user c (a, w')) (app_loop S N i user fuel))"

text \<open>The events of the example: the start and stop of the application, and \<open>Transmit\<close>.\<close>

datatype example_event = Start_client | Stop_client | Transmit

definition example_user ::
    "(example_event callback, 'w) sim_ops \<Rightarrow> ('a, 't, 's, 'w) net_ops \<Rightarrow> example_event \<Rightarrow>
     ('a, 't, 's) tsa \<times> 'w \<Rightarrow> (('a, 't, 's) tsa \<times> 'w) res" where
  "example_user S N x = (\<lambda>(a, w).
     case x of
       Start_client \<Rightarrow> StartApplication S N 0 (a, w)
     | Stop_client \<Rightarrow> Inr (StopApplication S N (a, w))
     | Transmit \<Rightarrow> Inr (a, Send S 0 5 w))"

definition schedule_all :: "('c, 'w) sim_ops \<Rightarrow> (time \<times> 'c) list \<Rightarrow> 'w \<Rightarrow> 'w" where
  "schedule_all S = fold (\<lambda>(t, c) w. snd (sim_schedule S t c w))"

text \<open>The client of \<open>main\<close>, and the events that it schedules.\<close>

definition example_client ::
    "('a, 't, 's, 'w) net_ops \<Rightarrow> 't \<Rightarrow> 'a \<Rightarrow> ('a, 't, 's) tsa res" where
  "example_client N protocol server =
     helper_install N (TriggeredSendHelper_new protocol server @
       [PacketSize 1024, PacketInterval (MilliSeconds 200)])"

definition example_schedule :: "(time \<times> example_event callback) list" where
  "example_schedule =
     [(Seconds 2, UserEvent Start_client), (Seconds 12, UserEvent Stop_client),
      (Seconds 3, UserEvent Transmit),
      (Seconds 4, UserEvent Transmit), (MilliSeconds 4500, UserEvent Transmit),
      (Seconds 6, UserEvent Transmit), (MilliSeconds 6900, UserEvent Transmit),
      (Seconds 8, UserEvent Transmit), (MilliSeconds 8400, UserEvent Transmit)]"

definition example_run ::
    "(example_event callback, 'w) sim_ops \<Rightarrow> ('a, 't, 's, 'w) net_ops \<Rightarrow> 't \<Rightarrow> 'a \<Rightarrow> nat \<Rightarrow> 'w \<Rightarrow>
     (('a, 't, 's) tsa \<times> 'w) res" where
  "example_run S N protocol server fuel w =
     bind_res (example_client N protocol server) (\<lambda>a.
       app_loop S N 0 (example_user S N) fuel (a, schedule_all S example_schedule w))"

text \<open>The times in the comments of the program, in milliseconds.\<close>

definition example_times :: "int list" where
  "example_times =
     [3000, 3200, 3400, 3600, 3800,
      4000, 4200, 4400, 4600, 4800, 5000, 5200, 5400,
      6000, 6200, 6400, 6600, 6800, 7000, 7200, 7400, 7600, 7800,
      8000, 8200, 8400, 8600, 8800, 9000, 9200, 9400]"

definition example_packets :: "(('a, 't, 's) tsa \<times> example_event callback ref_world) res \<Rightarrow> (time \<times> u32) list" where
  "example_packets r = (case r of Inl _ \<Rightarrow> [] | Inr (a, w) \<Rightarrow> rw_packets w)"

text \<open>Running the example by simplification.\<close>

lemma app_loop_numeral [ref_eval]:
  "app_loop S N i user (numeral n) (a, w) =
     (case sim_next S w of
        None \<Rightarrow> Inr (a, w)
      | Some (c, w') \<Rightarrow>
          bind_res (app_dispatch S N i user c (a, w')) (app_loop S N i user (pred_numeral n)))"
  by (simp add: numeral_eq_Suc)

declare app_dispatch_def [ref_eval] example_user_def [ref_eval] schedule_all_def [ref_eval]
  example_client_def [ref_eval] example_schedule_def [ref_eval] example_run_def [ref_eval]
  example_times_def [ref_eval] example_packets_def [ref_eval]

text \<open>The packets of the run on the reference platform.\<close>

lemma example_run_packets:
  "example_packets (example_run ref_sim ref_net ''ns3::UdpSocketFactory'' (1, 2) 100 (ref_init 0)) =
     map (\<lambda>t. (MilliSeconds t, 1024)) example_times"
  by (simp add: ref_eval)

end
