(* ===== verification/Network_Setup.thy ===== *)
theory Network_Setup
  imports Simple_Program Triggered_Send_Example
begin

text \<open>
  The rest of the two \<open>main\<close> functions that build a simulated network: the nodes, channels,
  addresses, packet sinks and start times of \<open>examples/simple-gateway.cc\<close> and of
  \<open>examples/triggered-send-example.cc\<close>. The helper classes of ns-3 are behind a record of
  functions; which of them the programs call, with which arguments and in which order, is defined here.
\<close>

section \<open>The helpers of ns-3\<close>

text \<open>
  \<open>'n\<close> is a node, \<open>'d\<close> a container of devices, \<open>'i\<close> an IPv4 address, \<open>'k\<close> a packet sink; \<open>'a\<close> and \<open>'t\<close>
  are \<open>Address\<close> and \<open>TypeId\<close> as in \<open>net_ops\<close>. Attributes of channels and devices are pairs of a name and
  the text of the value. \<open>app_start\<close> and \<open>app_stop\<close> are for the triggered send application with a
  number, installed on a node; the second argument of \<open>sink_trace\<close> is the context of the callback
  that is connected to the trace source \<open>Rx\<close>, if there is one.
\<close>

record ('n, 'd, 'i, 'k, 'a, 't, 'w) topology_ops =
  create_nodes :: "nat \<Rightarrow> 'w \<Rightarrow> 'n list \<times> 'w"
  csma_install :: "(string \<times> string) list \<Rightarrow> 'n list \<Rightarrow> 'w \<Rightarrow> 'd \<times> 'w"
  point_to_point_install ::
    "(string \<times> string) list \<Rightarrow> (string \<times> string) list \<Rightarrow> 'n list \<Rightarrow> 'w \<Rightarrow> 'd \<times> 'w"
  stack_install :: "'n list \<Rightarrow> 'w \<Rightarrow> 'w"
  assign_addresses :: "string \<Rightarrow> string \<Rightarrow> 'd \<Rightarrow> 'w \<Rightarrow> 'i list \<times> 'w"
  ipv4_address :: "string \<Rightarrow> 'i"
  any_address :: 'i
  inet_socket_address :: "'i \<Rightarrow> u16 \<Rightarrow> 'a"
  type_by_name :: "string \<Rightarrow> 't"
  sink_install :: "'t \<Rightarrow> 'a \<Rightarrow> 'n \<Rightarrow> 'w \<Rightarrow> 'k \<times> 'w"
  sink_trace :: "'k \<Rightarrow> string option \<Rightarrow> 'w \<Rightarrow> 'w"
  sink_start :: "'k \<Rightarrow> time \<Rightarrow> 'w \<Rightarrow> 'w"
  sink_stop :: "'k \<Rightarrow> time \<Rightarrow> 'w \<Rightarrow> 'w"
  app_start :: "'n \<Rightarrow> nat \<Rightarrow> time \<Rightarrow> 'w \<Rightarrow> 'w"

section \<open>The vehicles on their bus\<close>

definition bus_network ::
    "('n, 'd, 'i, 'k, 'a, 't, 'w) topology_ops \<Rightarrow> u16 \<Rightarrow> 'w \<Rightarrow> 'n list \<times> 'w" where
  "bus_network T n w =
     (let (vehicles, w1) = create_nodes T (unat n) w;
          (devices, w2) = csma_install T [(''DataRate'', ''100Mbps'')] vehicles w1;
          w3 = stack_install T vehicles w2;
          (interfaces, w4) = assign_addresses T ''192.168.1.0'' ''255.255.255.0'' devices w3
      in (vehicles, w4))"

definition applicationPort :: u16 where
  "applicationPort = 8000"

definition broadcast_peer :: "('n, 'd, 'i, 'k, 'a, 't, 'w) topology_ops \<Rightarrow> 'a" where
  "broadcast_peer T = inet_socket_address T (ipv4_address T ''192.168.1.255'') applicationPort"

text \<open>
  One turn of the loop that installs the applications, for the vehicle \<open>i\<close>, except for the application
  object itself (\<open>install_apps\<close>) and the connection of \<open>ReportMobility\<close>, which the mobility model has.
\<close>

definition start_vehicle ::
    "('n, 'd, 'i, 'k, 'a, 't, 'w) topology_ops \<Rightarrow> nat \<times> 'n \<Rightarrow> 'w \<Rightarrow> 'w" where
  "start_vehicle T = (\<lambda>(i, vehicle) w.
     let w1 = app_start T vehicle i 0 w;
         (sink, w2) = sink_install T (type_by_name T ''ns3::UdpSocketFactory'')
           (inet_socket_address T (any_address T) applicationPort) vehicle w1;
         w3 = sink_trace T sink (Some (to_string i)) w2
     in sink_start T sink 0 w3)"

definition start_vehicles ::
    "('n, 'd, 'i, 'k, 'a, 't, 'w) topology_ops \<Rightarrow> 'n list \<Rightarrow> 'w \<Rightarrow> 'w" where
  "start_vehicles T vehicles w = fold (start_vehicle T) (List.enumerate 0 vehicles) w"

text \<open>The whole program after its command line.\<close>

definition simple_program ::
    "('y simple_event callback, 'w) sim_ops \<Rightarrow> 'w os_ops \<Rightarrow> 'v vector_ops \<Rightarrow> ('a, 't, 's, 'w) net_ops \<Rightarrow>
     ('n, 'd, 'i, 'k, 'a, 't, 'w) topology_ops \<Rightarrow> u16 \<Rightarrow> string \<Rightarrow> u16 \<Rightarrow> 'w \<Rightarrow>
     (('v, 'a, 't, 's) simple, 'w) gw_sys res" where
  "simple_program S P V N T n serverAddress serverPort w =
     simple_main S P V N (\<lambda>w. snd (bus_network T n w))
       (start_vehicles T (fst (bus_network T n w)))
       (type_by_name T ''ns3::UdpSocketFactory'') (broadcast_peer T)
       n serverAddress serverPort w"

section \<open>The two nodes of the triggered send example\<close>

definition example_network ::
    "('n, 'd, 'i, 'k, 'a, 't, 'w) topology_ops \<Rightarrow> 'w \<Rightarrow> 'n list \<times> 'i list \<times> 'w" where
  "example_network T w =
     (let (nodes, w1) = create_nodes T 2 w;
          (devices, w2) = point_to_point_install T [(''DataRate'', ''5Mbps'')] [(''Delay'', ''2ms'')] nodes w1;
          w3 = stack_install T nodes w2;
          (interfaces, w4) = assign_addresses T ''192.168.0.0'' ''255.255.255.0'' devices w3
      in (nodes, interfaces, w4))"

text \<open>The packet sink of the second node.\<close>

definition example_sink ::
    "('n, 'd, 'i, 'k, 'a, 't, 'w) topology_ops \<Rightarrow> 'n \<Rightarrow> 'a \<Rightarrow> 'w \<Rightarrow> 'w" where
  "example_sink T node address w =
     (let (sink, w1) = sink_install T (type_by_name T ''ns3::UdpSocketFactory'') address node w;
          w2 = sink_trace T sink None w1;
          w3 = sink_start T sink (Seconds 1) w2
      in sink_stop T sink (Seconds 10) w3)"

text \<open>
  The whole program. The example has two nodes and two addresses: \<open>nodes.Get(1)\<close> and
  \<open>interfaces.GetAddress(1)\<close> fail an assertion otherwise.
\<close>

definition example_program ::
    "(example_event callback, 'w) sim_ops \<Rightarrow> ('a, 't, 's, 'w) net_ops \<Rightarrow>
     ('n, 'd, 'i, 'k, 'a, 't, 'w) topology_ops \<Rightarrow> nat \<Rightarrow> 'w \<Rightarrow> (('a, 't, 's) tsa \<times> 'w) res" where
  "example_program S N T fuel w =
     (case example_network T w of (nodes, interfaces, w1) \<Rightarrow>
        if length interfaces < 2 \<or> length nodes < 2 then Inl Assert_failed
        else
          (let server = inet_socket_address T (interfaces ! 1) 8000
           in example_run S N (type_by_name T ''ns3::UdpSocketFactory'') server fuel
                (example_sink T (nodes ! 1) server w1)))"

section \<open>The contract of the helpers\<close>

text \<open>
  The helpers create and configure objects of ns-3 and may schedule the functions of these; the
  gateway's private functions are out of their reach. A container has the nodes that were asked for.
\<close>

locale topology = event_simulator S cal valid
  for S :: "('x callback, 'w) sim_ops" and cal :: "'w \<Rightarrow> 'x callback calendar" and valid :: "'w \<Rightarrow> bool" +
  fixes T :: "('n, 'd, 'i, 'k, 'a, 't, 'w) topology_ops"
  assumes create_nodes: "valid w \<Longrightarrow> create_nodes T k w = (ns, w') \<Longrightarrow> length ns = k \<and> gw_effect cal valid w w'"
    and csma_install: "valid w \<Longrightarrow> csma_install T as ns w = (d, w') \<Longrightarrow> gw_effect cal valid w w'"
    and point_to_point_install:
      "valid w \<Longrightarrow> point_to_point_install T ds cs ns w = (d, w') \<Longrightarrow> gw_effect cal valid w w'"
    and stack_install: "valid w \<Longrightarrow> gw_effect cal valid w (stack_install T ns w)"
    and assign_addresses: "valid w \<Longrightarrow> assign_addresses T base m d w = (ifs, w') \<Longrightarrow> gw_effect cal valid w w'"
    and sink_install: "valid w \<Longrightarrow> sink_install T t a n w = (sink, w') \<Longrightarrow> gw_effect cal valid w w'"
    and sink_trace: "valid w \<Longrightarrow> gw_effect cal valid w (sink_trace T sink x w)"
    and sink_start: "valid w \<Longrightarrow> gw_effect cal valid w (sink_start T sink time w)"
    and sink_stop: "valid w \<Longrightarrow> gw_effect cal valid w (sink_stop T sink time w)"
    and app_start: "valid w \<Longrightarrow> gw_effect cal valid w (app_start T n i time w)"
begin

lemma bus_network_effect:
  assumes "valid w" and "bus_network T k w = (vs, w')"
  shows "length vs = unat k \<and> gw_effect cal valid w w'"
proof -
  obtain w1 where 1: "create_nodes T (unat k) w = (vs, w1)"
    using assms(2) by (auto simp: bus_network_def Let_def split: prod.splits)
  obtain ds w2 where 2: "csma_install T [(''DataRate'', ''100Mbps'')] vs w1 = (ds, w2)" by fastforce
  obtain ifs w4 where 4: "assign_addresses T ''192.168.1.0'' ''255.255.255.0'' ds (stack_install T vs w2) = (ifs, w4)"
    by fastforce
  have w': "w' = w4" using assms(2) 1 2 4 by (simp add: bus_network_def Let_def)
  from create_nodes[OF assms(1) 1] have e1: "gw_effect cal valid w w1" and len: "length vs = unat k" by blast+
  note e2 = gw_effect_trans[OF e1 csma_install[OF gw_effect_valid[OF e1] 2]]
  note e3 = gw_effect_trans[OF e2 stack_install[OF gw_effect_valid[OF e2], of vs]]
  from gw_effect_trans[OF e3 assign_addresses[OF gw_effect_valid[OF e3] 4]] len show ?thesis by (simp add: w')
qed

lemma start_vehicle_effect:
  assumes "valid w"
  shows "gw_effect cal valid w (start_vehicle T x w)"
proof -
  obtain i v where x: "x = (i, v)" by (cases x)
  note e1 = app_start[OF assms, of v i 0]
  obtain sink w2 where 2: "sink_install T (type_by_name T ''ns3::UdpSocketFactory'')
      (inet_socket_address T (any_address T) applicationPort) v (app_start T v i 0 w) = (sink, w2)" by fastforce
  note e2 = gw_effect_trans[OF e1 sink_install[OF gw_effect_valid[OF e1] 2]]
  note e3 = gw_effect_trans[OF e2 sink_trace[OF gw_effect_valid[OF e2], of sink "Some (to_string i)"]]
  from gw_effect_trans[OF e3 sink_start[OF gw_effect_valid[OF e3], of sink 0]] show ?thesis
    by (simp add: start_vehicle_def x 2)
qed


lemma fold_effect:
  assumes "\<And>x w. valid w \<Longrightarrow> gw_effect cal valid w (f x w)"
  shows "valid w \<Longrightarrow> gw_effect cal valid w (fold f xs w)"
proof (induction xs arbitrary: w)
  case Nil
  then show ?case by (simp add: gw_effect_refl)
next
  case (Cons x xs)
  from gw_effect_trans[OF assms[OF Cons.prems] Cons.IH[OF gw_effect_valid[OF assms[OF Cons.prems]]]]
  show ?case by simp
qed

lemma simple_program_builds:
  "builds_network cal valid (\<lambda>w. snd (bus_network T k w))"
  "builds_network cal valid (start_vehicles T vs)"
proof -
  show "builds_network cal valid (\<lambda>w. snd (bus_network T k w))"
    unfolding builds_network_def
  proof (intro allI impI)
    fix w
    assume "valid w"
    then show "gw_effect cal valid w (snd (bus_network T k w))"
      using bus_network_effect by (cases "bus_network T k w") simp
  qed
  show "builds_network cal valid (start_vehicles T vs)"
    unfolding builds_network_def start_vehicles_def using fold_effect[of "start_vehicle T"] start_vehicle_effect by blast
qed

end

section \<open>Helpers for the reference platform\<close>

text \<open>Nodes and addresses are numbered, the address 255 is the broadcast; nothing is scheduled.\<close>

definition ref_topology :: "(nat, nat, nat, nat, nat \<times> nat, string, 'c ref_world) topology_ops" where
  "ref_topology = \<lparr>
     create_nodes = (\<lambda>k w. ([0..<k], w)),
     csma_install = (\<lambda>as ns w. (length ns, w)),
     point_to_point_install = (\<lambda>ds cs ns w. (length ns, w)),
     stack_install = (\<lambda>ns w. w),
     assign_addresses = (\<lambda>base m d w. (map Suc [0..<d], w)),
     ipv4_address = (\<lambda>s. 255),
     any_address = 0,
     inet_socket_address = (\<lambda>i p. (1, i)),
     type_by_name = (\<lambda>s. s),
     sink_install = (\<lambda>t a n w. (n, w)),
     sink_trace = (\<lambda>k x w. w),
     sink_start = (\<lambda>k t w. w),
     sink_stop = (\<lambda>k t w. w),
     app_start = (\<lambda>n i t w. w) \<rparr>"

interpretation ref_topology: topology ref_sim ref_cal ref_valid ref_topology
  by unfold_locales (auto simp: ref_topology_def gw_effect_def)

section \<open>Properties\<close>

lemma ref_start_vehicle: "start_vehicle ref_topology x w = w"
  by (simp add: start_vehicle_def ref_topology_def split: prod.split)

lemma ref_start_vehicles: "start_vehicles ref_topology vs w = w"
proof -
  have "fold (start_vehicle ref_topology) xs w = w" for xs by (induction xs) (simp_all add: ref_start_vehicle)
  then show ?thesis by (simp add: start_vehicles_def)
qed

lemma ref_bus_network: "snd (bus_network ref_topology n w) = w"
  by (simp add: bus_network_def ref_topology_def)

lemma ref_simple_program:
  "simple_program S P V N ref_topology n serverAddress serverPort w =
    simple_main S P V N (\<lambda>w. w) (\<lambda>w. w) ''ns3::UdpSocketFactory'' (1, 255) n serverAddress serverPort w"
  by (simp add: simple_program_def simple_main_def broadcast_peer_def ref_start_vehicles ref_bus_network)
    (simp add: ref_topology_def)

lemma ref_example_program:
  "example_program ref_sim ref_net ref_topology fuel w =
    example_run ref_sim ref_net ''ns3::UdpSocketFactory'' (1, 2) fuel w"
  by (simp add: example_program_def example_network_def example_sink_def ref_topology_def numeral_2_eq_2)

text \<open>The example program of the repository, from the creation of its nodes on, sends its packets at the
  times that its comments give, in all four cases: without interruption, interrupted between two
  packets, interrupted after the last packet, and interrupted at the very time of a packet; all
  packets have 1024 bytes.\<close>

theorem example_sends_as_documented:
  "example_packets (example_program ref_sim ref_net ref_topology 100 (ref_init 0)) =
     map (\<lambda>t. (MilliSeconds t, 1024)) example_times"
  by (simp only: ref_example_program example_run_packets)

end
