(* ===== verification/Command_Lines.thy ===== *)
theory Command_Lines
  imports Network_Setup Server_Run
begin

text \<open>
  The two programs of the co-simulation example from their command lines on: the variables, the
  options that set them, and the whole of both \<open>main\<close> functions. The class \<open>ns3::CommandLine\<close> is not in
  the repository: how it reads a value of a type and how it goes through the arguments are parameters.
\<close>

section \<open>Options\<close>

text \<open>How the library reads the value of an option; a \<open>bool\<close> can depend on its old value.\<close>

record value_ops =
  cl_bool :: "string \<Rightarrow> bool \<Rightarrow> bool option"
  cl_u16 :: "string \<Rightarrow> u16 option"
  cl_u32 :: "string \<Rightarrow> u32 option"
  cl_string :: "string \<Rightarrow> string option"

text \<open>\<open>AddValue\<close>: a name and what its value does to the variables, if the library accepts it.\<close>

type_synonym 'c cl_option = "string \<times> (string \<Rightarrow> 'c \<Rightarrow> 'c option)"

text \<open>
  \<open>CommandLine::Parse\<close>; \<open>None\<close> is that the library ends the program, after a request for help or an
  argument that it does not accept.
\<close>

type_synonym 'c cl_parse = "'c cl_option list \<Rightarrow> string list \<Rightarrow> 'c \<Rightarrow> 'c option"

section \<open>The server\<close>

record server_vars =
  sv_verboseLogs :: bool
  sv_config :: server_config
  sv_serverPort :: u16

definition server_variables :: server_vars where
  "server_variables = \<lparr>sv_verboseLogs = False, sv_config = server_defaults, sv_serverPort = 8000\<rparr>"

definition server_options :: "value_ops \<Rightarrow> server_vars cl_option list" where
  "server_options C =
     [(''verbose'', \<lambda>x v. map_option (\<lambda>b. v\<lparr>sv_verboseLogs := b\<rparr>) (cl_bool C x (sv_verboseLogs v))),
      (''timeStart'', \<lambda>x v. map_option (\<lambda>n. v\<lparr>sv_config := (sv_config v)\<lparr>timeStart := n\<rparr>\<rparr>) (cl_u32 C x)),
      (''timeDelta'', \<lambda>x v. map_option (\<lambda>n. v\<lparr>sv_config := (sv_config v)\<lparr>timeDelta := n\<rparr>\<rparr>) (cl_u32 C x)),
      (''iterations'', \<lambda>x v. map_option (\<lambda>n. v\<lparr>sv_config := (sv_config v)\<lparr>iterations := n\<rparr>\<rparr>) (cl_u32 C x)),
      (''numberOfNodes'', \<lambda>x v. map_option (\<lambda>n. v\<lparr>sv_config := (sv_config v)\<lparr>numberOfNodes := n\<rparr>\<rparr>) (cl_u16 C x)),
      (''positionDeltaX'', \<lambda>x v. map_option (\<lambda>n. v\<lparr>sv_config := (sv_config v)\<lparr>positionDeltaX := n\<rparr>\<rparr>) (cl_u16 C x)),
      (''serverPort'', \<lambda>x v. map_option (\<lambda>n. v\<lparr>sv_serverPort := n\<rparr>) (cl_u16 C x))]"

text \<open>The whole program; the result is \<open>None\<close> if the library has ended it.\<close>

definition server_entry ::
    "value_ops \<Rightarrow> server_vars cl_parse \<Rightarrow> 'w listen_ops \<Rightarrow> string list \<Rightarrow> 'w \<Rightarrow>
     (server_state \<times> 'w) option res" where
  "server_entry C parse L args w =
     (case parse (server_options C) args server_variables of
        None \<Rightarrow> Inr None
      | Some v \<Rightarrow> bind_res (server_program L (sv_config v) (sv_serverPort v) w) (\<lambda>s. Inr (Some s)))"

section \<open>The gateway\<close>

record gateway_vars =
  gv_verboseLogs :: bool
  gv_numberOfNodes :: u16
  gv_serverPort :: u16
  gv_serverAddress :: string

definition gateway_variables :: gateway_vars where
  "gateway_variables =
     \<lparr>gv_verboseLogs = False, gv_numberOfNodes = 3, gv_serverPort = 8000, gv_serverAddress = ''127.0.0.1''\<rparr>"

definition gateway_options :: "value_ops \<Rightarrow> gateway_vars cl_option list" where
  "gateway_options C =
     [(''verbose'', \<lambda>x v. map_option (\<lambda>b. v\<lparr>gv_verboseLogs := b\<rparr>) (cl_bool C x (gv_verboseLogs v))),
      (''numberOfNodes'', \<lambda>x v. map_option (\<lambda>n. v\<lparr>gv_numberOfNodes := n\<rparr>) (cl_u16 C x)),
      (''serverPort'', \<lambda>x v. map_option (\<lambda>n. v\<lparr>gv_serverPort := n\<rparr>) (cl_u16 C x)),
      (''serverAddress'', \<lambda>x v. map_option (\<lambda>a. v\<lparr>gv_serverAddress := a\<rparr>) (cl_string C x))]"

definition gateway_entry ::
    "('y simple_event callback, 'w) sim_ops \<Rightarrow> 'w os_ops \<Rightarrow> 'v vector_ops \<Rightarrow> ('a, 't, 's, 'w) net_ops \<Rightarrow>
     ('n, 'd, 'i, 'k, 'a, 't, 'w) topology_ops \<Rightarrow> value_ops \<Rightarrow> gateway_vars cl_parse \<Rightarrow> string list \<Rightarrow>
     'w \<Rightarrow> (('v, 'a, 't, 's) simple, 'w) gw_sys option res" where
  "gateway_entry S P V N T C parse args w =
     (case parse (gateway_options C) args gateway_variables of
        None \<Rightarrow> Inr None
      | Some v \<Rightarrow>
          bind_res (simple_program S P V N T (gv_numberOfNodes v) (gv_serverAddress v) (gv_serverPort v) w)
            (\<lambda>s. Inr (Some s)))"

section \<open>Arguments of the documented form\<close>

text \<open>
  What the documentation says of \<open>--name=value\<close>: the arguments are taken one after the other, and
  an unknown name or a bad value ends the program. A program without arguments keeps its defaults.
\<close>

definition option_arg :: "string \<Rightarrow> string \<Rightarrow> string" where
  "option_arg name x = ''--'' @ name @ ''='' @ x"

locale command_line =
  fixes parse :: "'c cl_parse"
  assumes no_arguments: "parse opts [] v = Some v"
    and an_argument: "CHR ''='' \<notin> set name \<Longrightarrow> parse opts ((option_arg name x) # args) v =
      (case map_of opts name of
         None \<Rightarrow> None
       | Some set_it \<Rightarrow> (case set_it x v of None \<Rightarrow> None | Some v' \<Rightarrow> parse opts args v'))"
begin

lemma unknown_option: "CHR ''='' \<notin> set name \<Longrightarrow> name \<notin> fst ` set opts \<Longrightarrow>
    parse opts ((option_arg name x) # args) v = None"
  by (simp add: an_argument flip: map_of_eq_None_iff)

text \<open>Two options whose setters commute can be given in both orders.\<close>

lemma swap_options:
  assumes "CHR ''='' \<notin> set a" "CHR ''='' \<notin> set b"
    and "map_of opts a = Some f" "map_of opts b = Some h"
    and "Option.bind (f x v) (h y) = Option.bind (h y v) (f x)"
  shows "parse opts ((option_arg a x) # (option_arg b y) # args) v =
    parse opts ((option_arg b y) # (option_arg a x) # args) v"
  using assms by (auto simp: an_argument split: option.splits)

end

text \<open>A parser of this form only: arguments that are not of the form \<open>--name=value\<close> end the program.\<close>

fun simple_parse :: "'c cl_parse" where
  "simple_parse opts [] v = Some v"
| "simple_parse opts (arg # args) v =
     (let name = takeWhile (\<lambda>c. c \<noteq> CHR ''='') (drop 2 arg); rest = dropWhile (\<lambda>c. c \<noteq> CHR ''='') (drop 2 arg) in
      if take 2 arg \<noteq> ''--'' \<or> rest = [] then None
      else case map_of opts name of
        None \<Rightarrow> None
      | Some set_it \<Rightarrow> (case set_it (tl rest) v of None \<Rightarrow> None | Some v' \<Rightarrow> simple_parse opts args v'))"

interpretation simple_parse: command_line simple_parse
proof
  show "simple_parse opts [] v = Some v" for opts :: "'a cl_option list" and v by simp
  show "simple_parse opts ((option_arg name x) # args) v =
      (case map_of opts name of
         None \<Rightarrow> None
       | Some set_it \<Rightarrow> (case set_it x v of None \<Rightarrow> None | Some v' \<Rightarrow> simple_parse opts args v'))"
    if "CHR ''='' \<notin> set name" for opts :: "'a cl_option list" and name x args v
  proof -
    have "takeWhile (\<lambda>c. c \<noteq> CHR ''='') (name @ CHR ''='' # x) = name"
      and "dropWhile (\<lambda>c. c \<noteq> CHR ''='') (name @ CHR ''='' # x) = CHR ''='' # x"
      using that by (auto simp: takeWhile_append dropWhile_append)
    then show ?thesis by (cases "map_of opts name") (simp_all add: option_arg_def)
  qed
qed

section \<open>The options of the server\<close>

lemma server_option_names:
  "a \<in> fst ` set (server_options C) \<Longrightarrow> CHR ''='' \<notin> set a"
  by (auto simp: server_options_def)

lemma server_options_commute:
  assumes "map_of (server_options C) a = Some f" and "map_of (server_options C) b = Some h" and "a \<noteq> b"
  shows "Option.bind (f x v) (h y) = Option.bind (h y v) (f x)"
proof -
  from map_of_SomeD[OF assms(1)] map_of_SomeD[OF assms(2)] have
    "(a, f) \<in> set (server_options C)" "(b, h) \<in> set (server_options C)" .
  then show ?thesis
    using assms(3) unfolding server_options_def set_simps insert_iff empty_iff prod.inject
    by (elim disjE conjE) (simp_all add: map_option_case split: option.splits)
qed

text \<open>
  The options of the server are independent: two arguments for different options can be given in both
  orders, so no option touches the variable of another one.
\<close>

lemma server_options_independent:
  assumes "command_line parse" and "a \<noteq> b"
    and "a \<in> fst ` set (server_options C)" and "b \<in> fst ` set (server_options C)"
  shows "parse (server_options C) (option_arg a x # option_arg b y # args) v =
    parse (server_options C) (option_arg b y # option_arg a x # args) v"
proof -
  from assms(3,4) obtain f h where f: "map_of (server_options C) a = Some f"
    and h: "map_of (server_options C) b = Some h" by (metis map_of_eq_None_iff not_Some_eq)
  show ?thesis
    by (rule command_line.swap_options[OF assms(1) server_option_names[OF assms(3)] server_option_names[OF assms(4)] f h
        server_options_commute[OF f h assms(2)]])
qed

text \<open>Reading of decimal numbers in range.\<close>

definition ref_values :: value_ops where
  "ref_values = \<lparr>cl_bool = (\<lambda>x b. Some (\<not> b)),
     cl_u16 = (\<lambda>x. case stoi x of Inr n \<Rightarrow> if 0 \<le> n \<and> n < 2 ^ 16 then Some (word_of_int n) else None | Inl _ \<Rightarrow> None),
     cl_u32 = (\<lambda>x. case stoi x of Inr n \<Rightarrow> if 0 \<le> n then Some (word_of_int n) else None | Inl _ \<Rightarrow> None),
     cl_string = Some\<rparr>"

section \<open>A zero positionDeltaX\<close>

lemma word_0_1_more: "n = 0 \<or> n = 1 \<or> 1 < n" for n :: u32
proof -
  have "unat n = 0 \<or> unat n = 1 \<or> 1 < unat n" by linarith
  then show ?thesis by (auto simp: word_less_nat_alt word_unat_eq_iff)
qed

context server_client begin

lemma server_turn_still:
  assumes "numberOfNodes cfg = 0 \<or> i = iterations cfg - 1"
  shows "\<exists>st' w'. server_turn R cfg i (st, w) = Inr (True, st', w')"
proof -
  obtain k1 w1 where s: "srv_send R (server_message (numberOfNodes cfg) (server_time cfg i) st) w = (k1, w1)"
    by fastforce
  obtain x w2 where "srv_recv R w1 = (x, w2)" by fastforce
  with recv[OF this] obtain bytes where r: "srv_recv R w1 = (Received bytes, w2)" by blast
  obtain k2 w3 where t: "srv_send R terminate_message w2 = (k2, w3)" by fastforce
  show ?thesis using assms send[OF s] send[OF t] by (auto simp: server_turn_def server_after_def s r t)
qed

lemma server_loop_still:
  "numberOfNodes cfg = 0 \<Longrightarrow> \<exists>st' w'. server_loop R cfg i (st, w) = Inr (st', w')"
proof (induction "unat (iterations cfg) - unat i" arbitrary: i st w rule: less_induct)
  case less
  show ?case
  proof (cases "iterations cfg \<le> i")
    case True
    then show ?thesis by (simp add: server_loop.simps)
  next
    case False
    from server_turn_still[of cfg i st w] less.prems obtain st1 w1 where
      "server_turn R cfg i (st, w) = Inr (True, st1, w1)" by blast
    with False less.hyps[OF counter_step[OF False] less.prems, of st1 w1] show ?thesis
      by (simp add: server_loop.simps[of R cfg i])
  qed
qed

lemma server_main_result:
  "if positionDeltaX cfg = 0 \<and> numberOfNodes cfg \<noteq> 0 \<and> 1 < iterations cfg then server_main R cfg w = Inl Undefined
   else \<exists>st w'. server_main R cfg w = Inr (st, w')"
proof -
  let ?st = "server_init (numberOfNodes cfg)"
  consider (moving) "positionDeltaX cfg \<noteq> 0" | (empty) "numberOfNodes cfg = 0"
    | (none) "iterations cfg = 0" | (one) "iterations cfg = 1"
    | (bad) "positionDeltaX cfg = 0" "numberOfNodes cfg \<noteq> 0" "1 < iterations cfg"
    using word_0_1_more[of "iterations cfg"] by blast
  then show ?thesis
  proof cases
    case moving
    with server_main_Inr[OF moving, of w] show ?thesis by auto
  next
    case empty
    with server_loop_still[OF empty, of 0 ?st w] show ?thesis by (simp add: server_main_def)
  next
    case none
    then show ?thesis by (simp add: server_main_def server_loop.simps)
  next
    case one
    from server_turn_still[of cfg 0 ?st w] one obtain st1 w1 where
      "server_turn R cfg 0 (?st, w) = Inr (True, st1, w1)" by auto
    with one show ?thesis by (simp add: server_main_def server_loop.simps[of R cfg 0] server_loop.simps[of R cfg 1])
  next
    case bad
    obtain k1 w1 where s: "srv_send R (server_message (numberOfNodes cfg) (server_time cfg 0) ?st) w = (k1, w1)"
      by fastforce
    obtain x w2 where "srv_recv R w1 = (x, w2)" by fastforce
    with recv[OF this] obtain bytes where r: "srv_recv R w1 = (Received bytes, w2)" by blast
    obtain m w3 where m: "srv_rand R w2 = (m, w3)" by fastforce
    have "0 < unat (numberOfNodes cfg)" using bad(2) by (simp add: unat_gt_0)
    then have "[0..<unat (numberOfNodes cfg)] = 0 # [1..<unat (numberOfNodes cfg)]" by (simp add: upt_conv_Cons)
    then have v: "move_vehicles R (positionDeltaX cfg) 0 [0..<unat (numberOfNodes cfg)] (?st, w2) = Inl Undefined"
      using bad(1) by (simp add: move_vehicle_def m)
    have "0 \<noteq> iterations cfg - 1" "\<not> iterations cfg \<le> 0" using bad(3) by auto
    then have "server_turn R cfg 0 (?st, w) = Inl Undefined"
      using send[OF s] v by (simp add: server_turn_def server_after_def s r)
    with bad \<open>\<not> iterations cfg \<le> 0\<close> show ?thesis by (simp add: server_main_def server_loop.simps[of R cfg 0])
  qed
qed

end

text \<open>C33: The server does not check \<open>positionDeltaX\<close>: with any arguments that the library accepts and a client
  that connects and answers, the program divides by zero in its first turn exactly if this
  number is 0 and there are vehicles and more than one iteration; otherwise it returns.\<close>

theorem zero_position_delta:
  assumes "parse (server_options C) args server_variables = Some v"
    and "open_server L (sv_serverPort v) w = Inr (sock, client, w1)"
    and "server_client (l_client L client) sent"
  shows "if positionDeltaX (sv_config v) = 0 \<and> numberOfNodes (sv_config v) \<noteq> 0 \<and> 1 < iterations (sv_config v)
    then server_entry C parse L args w = Inl Undefined
    else \<exists>s. server_entry C parse L args w = Inr (Some s)"
  using server_client.server_main_result[OF assms(3), of "sv_config v" w1] assms(1,2)
  by (auto simp: server_entry_def server_program_def)

definition ref_listen :: "(nat list \<times> string list) listen_ops" where
  "ref_listen = \<lparr>l_socket = (\<lambda>w. (3, w)), l_reuse = (\<lambda>s w. (0, w)), l_bind = (\<lambda>s p w. (0, w)),
     l_listen = (\<lambda>s w. (0, w)), l_accept = (\<lambda>s w. (4, w)), l_close = (\<lambda>s w. w), l_client = (\<lambda>s. ref_server)\<rparr>"

theorem zero_position_delta_witness:
  "server_entry ref_values simple_parse ref_listen [option_arg ''positionDeltaX'' ''0''] ([], []) = Inl Undefined"
proof -
  let ?v = "server_variables\<lparr>sv_config := server_defaults\<lparr>positionDeltaX := 0\<rparr>\<rparr>"
  have stoi: "stoi ''0'' = Inr 0" by code_simp
  have p: "simple_parse (server_options ref_values) [option_arg ''positionDeltaX'' ''0''] server_variables = Some ?v"
    by (simp add: option_arg_def server_options_def ref_values_def server_variables_def stoi)
  have o: "open_server ref_listen (sv_serverPort ?v) ([], []) = Inr (3, 4, ([], []))"
    by (simp add: open_server_def ref_listen_def)
  have c: "server_client (l_client ref_listen 4) snd" by (simp add: ref_listen_def ref_server.server_client_axioms)
  from zero_position_delta[where parse = simple_parse, OF p o c] show ?thesis by (simp add: server_defaults_def)
qed

section \<open>The gateway program keeps to the server's time\<close>

lemma gateway_entry_initial:
  assumes "topology S cal valid T" and "valid w"
    and none: "\<forall>v \<in> set (cal_events (cal w)). \<not> gateway_callback (ev_call v)"
      "\<forall>v \<in> set (cal_destroy (cal w)). \<not> gateway_callback (snd v)"
    and run: "gateway_entry S P V N T C parse args w = Inr (Some s)"
  shows "gw_initial S cal (simple_valid cal valid) P s"
proof -
  from run obtain v :: gateway_vars where "simple_program S P V N T (gv_numberOfNodes v) (gv_serverAddress v) (gv_serverPort v) w = Inr s"
    by (auto simp: gateway_entry_def split: option.splits)
  from simple_main_initial[OF assms(2) topology.simple_program_builds[OF assms(1)] none
      this[unfolded simple_program_def]] show ?thesis .
qed

text \<open>C22: The properties of the gateway hold for the example program, whatever its arguments are: in every
  state that \<open>main\<close> of the gateway program can reach with a connected gateway, whatever the network
  does, the clock is at most at the last granted time or still where it was at \<open>Connect\<close>, there is
  one call of \<open>ForwardUp\<close> for each queued message, and the event loop has a next event unless the
  simulator was stopped.\<close>

theorem simple_program_follows_server:
  assumes "simple_platform S cal valid N P net_event" and "topology S cal valid T" and "valid w"
    and "\<forall>v \<in> set (cal_events (cal w)). \<not> gateway_callback (ev_call v)"
    and "\<forall>v \<in> set (cal_destroy (cal w)). \<not> gateway_callback (snd v)"
    and "gateway_entry S P V N T C parse args w = Inr (Some s0)"
    and "gw_reachable S cal (simple_valid cal valid) P (simple_host S P V N net_event) s0 s"
    and "s_main s = Main_Run" and "m_state (s_gw s) = CONNECTED"
  shows "gw_initial S cal (simple_valid cal valid) P s0 \<and>
    (sim_now S (s_world s) \<le> m_timePause (s_gw s) \<or> sim_now S (s_world s) = sim_now S (s_world s0)) \<and>
    length (m_messageQueue (s_gw s)) =
      length (filter (\<lambda>v. ev_call v = GatewayForwardUp) (cal_events (cal (s_world s)))) +
      (if s_thread s = T_Forward then 1 else 0) \<and>
    (cal_stopped (cal (s_world s)) \<or> (\<exists>c w'. sim_next S (s_world s) = Some (c, w')))"
proof -
  note host = simple_platform.simple_gateway_host[OF assms(1), of V]
  have ok: "\<forall>f. s_main s \<noteq> Main_Failed f" using assms(8) by simp
  note gateway_entry_initial[OF assms(2-6)]
  moreover note gateway_host.clock_bound[OF host assms(7) ok assms(9)]
  moreover note gateway_host.forward_matches_queue[OF host assms(7) ok]
  moreover note gateway_host.loop_alive[OF host assms(7-9)]
  ultimately show ?thesis by blast
qed

text \<open>Two vehicles on the reference platform.\<close>

lemma ref_gateway_entry:
  "\<exists>s. gateway_entry ref_sim ref_os int_vectors ref_net ref_topology ref_values simple_parse
     [option_arg ''numberOfNodes'' ''2''] (ref_init 0 :: ref_callback ref_world) = Inr (Some s) \<and>
     s_main s = Main_Run \<and> m_state (s_gw s) = CONNECTED \<and> \<not> cal_stopped (ref_cal (s_world s))"
proof -
  have stoi: "stoi ''2'' = Inr 2" by code_simp
  have p: "simple_parse (gateway_options ref_values) [option_arg ''numberOfNodes'' ''2''] gateway_variables =
      Some (gateway_variables\<lparr>gv_numberOfNodes := 2\<rparr>)"
    by (simp add: option_arg_def gateway_options_def ref_values_def stoi)
  have two: "install_apps N t d 2 = install_apps N t d (Suc (Suc 0))" for N t d by (simp add: numeral_2_eq_2)
  show ?thesis
    unfolding gateway_entry_def p option.case
    by (simp add: gateway_variables_def ref_simple_program simple_main_def SimpleGateway_new_def
        Gateway_new_def vehicle_app_def vehicle_models_def Connect_def ref_cal_def two ref_eval)
qed

theorem simple_program_follows_server_witness:
  "\<exists>s c w'. gateway_entry ref_sim ref_os int_vectors ref_net ref_topology ref_values simple_parse
     [option_arg ''numberOfNodes'' ''2''] (ref_init 0 :: ref_callback ref_world) = Inr (Some s) \<and>
     sim_next ref_sim (s_world s) = Some (c, w')"
proof -
  let ?w = "ref_init 0 :: ref_callback ref_world"
  obtain s where s: "gateway_entry ref_sim ref_os int_vectors ref_net ref_topology ref_values simple_parse
      [option_arg ''numberOfNodes'' ''2''] ?w = Inr (Some s)"
    "s_main s = Main_Run" "m_state (s_gw s) = CONNECTED" "\<not> cal_stopped (ref_cal (s_world s))"
    using ref_gateway_entry by blast
  have v: "ref_valid ?w" by (simp add: ref_valid_def ref_cal_def ref_init_def cal_ok_def cal_ids_def)
  have e: "\<forall>v \<in> set (cal_events (ref_cal ?w)). \<not> gateway_callback (ev_call v)"
    "\<forall>v \<in> set (cal_destroy (ref_cal ?w)). \<not> gateway_callback (snd v)"
    by (simp_all add: ref_cal_def ref_init_def)
  have r: "gw_reachable ref_sim ref_cal ref_ok ref_os ref_host s s"
    by (rule gw_reachable.start[OF gateway_entry_initial[OF ref_topology.topology_axioms v e s(1)]])
  from simple_program_follows_server[OF ref_simple.simple_platform_axioms ref_topology.topology_axioms v e s(1) r s(2,3)]
    s(1,4)
  show ?thesis by blast
qed

end
