(* ===== verification/Lock_Step.thy ===== *)
theory Lock_Step
  imports Gateway_Answers Gateway_Shutdown
begin

text \<open>
  The contract of the gateway as an abstract machine: a clock, the times that the server has
  granted, and the number of grants that the derived class has seen. Every step of the gateway, of
  either thread and in any interleaving, is a stutter or steps of this machine, as long as the time
  stamps of the messages strictly increase.
\<close>

section \<open>The abstract machine\<close>

record lock_step =
  ls_now :: time
  ls_stamps :: "time list"
  ls_done :: nat
  ls_open :: bool

text \<open>
  The server grants a time, which is later than every earlier one and not in the past. While the
  connection is open the clock moves only if a grant has not been executed; it never passes the
  first such grant, and it waits for the first of all, the reference time. Grants are executed in
  the order of their arrival, each one at its own time relative to the reference time (the reference
  time itself at once). The connection can close at any time.
\<close>

inductive ls_step :: "lock_step \<Rightarrow> lock_step \<Rightarrow> bool" where
  receive: "0 \<le> T \<Longrightarrow> \<forall>T' \<in> set (ls_stamps a). T' < T \<Longrightarrow>
    ls_stamps a \<noteq> [] \<longrightarrow> ls_now a \<le> T - hd (ls_stamps a) \<Longrightarrow>
    ls_step a (a\<lparr>ls_stamps := ls_stamps a @ [T]\<rparr>)"
| advance: "ls_now a < t \<Longrightarrow> ls_open a \<longrightarrow> ls_done a < length (ls_stamps a) \<Longrightarrow>
    ls_done a < length (ls_stamps a) \<longrightarrow>
      0 < ls_done a \<and> t \<le> ls_stamps a ! ls_done a - hd (ls_stamps a) \<Longrightarrow>
    ls_step a (a\<lparr>ls_now := t\<rparr>)"
| execute: "ls_done a < length (ls_stamps a) \<Longrightarrow>
    0 < ls_done a \<longrightarrow> ls_now a = ls_stamps a ! ls_done a - hd (ls_stamps a) \<Longrightarrow>
    ls_step a (a\<lparr>ls_done := Suc (ls_done a)\<rparr>)"
| close: "ls_open a \<Longrightarrow> ls_step a (a\<lparr>ls_open := False\<rparr>)"

abbreviation ls_steps :: "lock_step \<Rightarrow> lock_step \<Rightarrow> bool" where
  "ls_steps \<equiv> ls_step\<^sup>*\<^sup>*"

text \<open>
  What the machine guarantees: a grant that has been executed is not later than the clock, and the
  clock is not later than a grant that has not; the reference time itself is executed when it comes.
\<close>

definition ls_inv :: "lock_step \<Rightarrow> bool" where
  "ls_inv a \<longleftrightarrow>
     sorted_wrt (<) (ls_stamps a) \<and> ls_done a \<le> length (ls_stamps a) \<and>
     (\<forall>i. 0 < i \<and> i < ls_done a \<longrightarrow> ls_stamps a ! i - hd (ls_stamps a) \<le> ls_now a) \<and>
     (\<forall>i. 0 < i \<and> ls_done a \<le> i \<and> i < length (ls_stamps a) \<longrightarrow>
        ls_now a \<le> ls_stamps a ! i - hd (ls_stamps a))"

lemma ls_inv_step:
  assumes "ls_step a b" and inv: "ls_inv a"
  shows "ls_inv b"
  using assms(1)
proof (cases rule: ls_step.cases)
  case (receive T)
  have "hd (ls_stamps a @ [T]) = hd (ls_stamps a)" if "ls_stamps a \<noteq> []" using that by simp
  moreover have "ls_stamps a \<noteq> []" if "0 < i" "i < Suc (length (ls_stamps a))" "ls_done a \<le> i" for i
    using that by auto
  ultimately show ?thesis
    using inv receive unfolding ls_inv_def
    by (cases "ls_stamps a") (auto simp: sorted_wrt_append nth_append nth_Cons' less_Suc_eq)
next
  case (advance t)
  have later: "ls_stamps a ! ls_done a \<le> ls_stamps a ! i" if "ls_done a \<le> i" "i < length (ls_stamps a)" for i
    using inv that sorted_wrt_nth_less[of "(<)" "ls_stamps a" "ls_done a" i]
    by (cases "ls_done a = i") (auto simp: ls_inv_def)
  show ?thesis
    unfolding ls_inv_def advance(1)
  proof (intro conjI allI impI)
    fix i
    assume i: "0 < i \<and> i < ls_done (a\<lparr>ls_now := t\<rparr>)"
    then have "ls_stamps a ! i - hd (ls_stamps a) \<le> ls_now a" using inv by (simp add: ls_inv_def)
    with advance(2) show "ls_stamps (a\<lparr>ls_now := t\<rparr>) ! i - hd (ls_stamps (a\<lparr>ls_now := t\<rparr>)) \<le> ls_now (a\<lparr>ls_now := t\<rparr>)"
      by simp
  next
    fix i
    assume "0 < i \<and> ls_done (a\<lparr>ls_now := t\<rparr>) \<le> i \<and> i < length (ls_stamps (a\<lparr>ls_now := t\<rparr>))"
    with later[of i] advance(4) show "ls_now (a\<lparr>ls_now := t\<rparr>) \<le>
        ls_stamps (a\<lparr>ls_now := t\<rparr>) ! i - hd (ls_stamps (a\<lparr>ls_now := t\<rparr>))" by auto
  qed (use inv in \<open>simp_all add: ls_inv_def\<close>)
next
  case execute
  with inv show ?thesis by (auto simp: ls_inv_def less_Suc_eq)
next
  case close
  with inv show ?thesis by (simp add: ls_inv_def)
qed

lemma ls_inv_steps: "ls_steps a b \<Longrightarrow> ls_inv a \<Longrightarrow> ls_inv b"
  by (induction rule: rtranclp_induct) (auto dest: ls_inv_step)

text \<open>With \<open>m\<close> grants still to be executed.\<close>

definition ls_pending :: "time \<Rightarrow> time list \<Rightarrow> nat \<Rightarrow> bool \<Rightarrow> lock_step" where
  "ls_pending now ts m b = \<lparr>ls_now = now, ls_stamps = ts, ls_done = length ts - m, ls_open = b\<rparr>"

section \<open>Pending events in the order of the grants\<close>

definition in_order :: "time \<Rightarrow> time list \<Rightarrow> 'c event list \<Rightarrow> bool" where
  "in_order now ts es \<longleftrightarrow> length es \<le> length ts \<and>
     map ev_time es =
       (if es \<noteq> [] \<and> length es = length ts then now # map (\<lambda>T. T - hd ts) (tl ts)
        else map (\<lambda>T. T - hd ts) (drop (length ts - length es) ts))"

lemma in_order_Nil [simp]: "in_order now ts []"
  by (simp add: in_order_def)

lemma in_order_Cons:
  assumes "in_order now ts (v # es)"
  shows "in_order now ts es"
    and "length es < length ts"
    and "ev_time v = (if Suc (length es) = length ts then now else ts ! (length ts - Suc (length es)) - hd ts)"
proof -
  from assms have le: "Suc (length es) \<le> length ts" by (simp add: in_order_def)
  then show "length es < length ts" by simp
  have "in_order now ts es \<and> ev_time v =
      (if Suc (length es) = length ts then now else ts ! (length ts - Suc (length es)) - hd ts)"
  proof (cases "Suc (length es) = length ts")
    case True
    then have "length ts - length es = Suc 0" by simp
    with True assms show ?thesis by (cases es) (auto simp: in_order_def drop_Suc)
  next
    case False
    define d where "d = length ts - Suc (length es)"
    have "drop d ts = ts ! d # drop (Suc d) ts"
      using le by (intro Cons_nth_drop_Suc[symmetric]) (simp add: d_def)
    moreover have "Suc d = length ts - length es" using le by (simp add: d_def)
    ultimately show ?thesis
      using False assms le by (auto simp: in_order_def d_def[symmetric])
  qed
  then show "in_order now ts es"
    and "ev_time v = (if Suc (length es) = length ts then now else ts ! (length ts - Suc (length es)) - hd ts)"
    by blast+
qed

text \<open>Time passes, but not beyond a pending event.\<close>

lemma ls_advance:
  assumes es: "in_order now ts es" and t: "now \<le> t" "\<forall>v \<in> set es. t \<le> ev_time v"
    and b: "b \<Longrightarrow> now < t \<Longrightarrow> es \<noteq> []"
  shows "ls_steps (ls_pending now ts (length es) b) (ls_pending t ts (length es) b) \<and> in_order t ts es"
proof (cases "now = t")
  case True
  with es show ?thesis by simp
next
  case False
  have "ls_step (ls_pending now ts (length es) b) (ls_pending now ts (length es) b\<lparr>ls_now := t\<rparr>) \<and>
    in_order t ts es"
  proof (cases es)
    case Nil
    with False t b have "ls_step (ls_pending now ts (length es) b) (ls_pending now ts (length es) b\<lparr>ls_now := t\<rparr>)"
      by (intro ls_step.advance) (auto simp: ls_pending_def)
    with Nil show ?thesis by simp
  next
    case (Cons v es')
    note o = in_order_Cons[OF es[unfolded Cons]]
    have v: "t \<le> ev_time v" using t Cons by simp
    with o(3) False t(1) have n: "Suc (length es') \<noteq> length ts" by auto
    with o(2) have "0 < length ts - Suc (length es')" by simp
    with v o(3) n False t(1) have "ls_step (ls_pending now ts (length es) b) (ls_pending now ts (length es) b\<lparr>ls_now := t\<rparr>)"
      by (intro ls_step.advance) (auto simp: ls_pending_def Cons)
    with es n Cons show ?thesis by (auto simp: in_order_def)
  qed
  then show ?thesis by (auto simp: ls_pending_def)
qed

lemma ls_execute:
  assumes "in_order t ts (v # es)" and "ev_time v = t"
  shows "ls_steps (ls_pending t ts (Suc (length es)) b) (ls_pending t ts (length es) b) \<and> in_order t ts es"
proof -
  note o = in_order_Cons[OF assms(1)]
  let ?a = "ls_pending t ts (Suc (length es)) b"
  have "Suc (length ts - Suc (length es)) = length ts - length es" using o(2) by simp
  then have "ls_pending t ts (length es) b = ?a\<lparr>ls_done := Suc (ls_done ?a)\<rparr>" by (simp add: ls_pending_def)
  moreover have "ls_step ?a (?a\<lparr>ls_done := Suc (ls_done ?a)\<rparr>)"
    using o(2,3) assms(2) by (intro ls_step.execute) (auto simp: ls_pending_def split: if_splits)
  ultimately show ?thesis using o(1) r_into_rtranclp[of ls_step] by simp
qed

lemma ls_receive_first:
  assumes "in_order t [] es" and "0 \<le> T"
  shows "ls_steps (ls_pending t [] (length es) b) (ls_pending t [T] (Suc (length es)) b) \<and>
    in_order t [T] (place (e, t, c) es)"
proof -
  have "es = []" using assms(1) by (simp add: in_order_def)
  moreover have "ls_step (ls_pending t [] 0 b) (ls_pending t [] 0 b\<lparr>ls_stamps := ls_stamps (ls_pending t [] 0 b) @ [T]\<rparr>)"
    using assms(2) by (intro ls_step.receive) (simp_all add: ls_pending_def)
  ultimately show ?thesis using r_into_rtranclp[of ls_step] by (simp add: ls_pending_def in_order_def)
qed

lemma in_order_bound:
  assumes "in_order t ts es" and "v \<in> set es" and "\<forall>T' \<in> set ts. T' < T" and "t \<le> T - hd ts"
  shows "ev_time v \<le> T - hd ts"
proof -
  have "set (map ev_time es) \<subseteq> insert t ((\<lambda>T. T - hd ts) ` set ts)"
  proof (cases "es \<noteq> [] \<and> length es = length ts")
    case True
    with assms(1) have m: "map ev_time es = t # map (\<lambda>T. T - hd ts) (tl ts)" by (simp add: in_order_def)
    have "set (tl ts) \<subseteq> set ts" by (cases ts) auto
    then show ?thesis unfolding m by auto
  next
    case False
    with assms(1) have m: "map ev_time es = map (\<lambda>T. T - hd ts) (drop (length ts - length es) ts)"
      by (simp only: in_order_def if_False)
    show ?thesis unfolding m using set_drop_subset[of _ ts] by fastforce
  qed
  then have "ev_time v = t \<or> ev_time v \<in> (\<lambda>T. T - hd ts) ` set ts" using assms(2) by auto
  with assms(3,4) show ?thesis by auto
qed

lemma ls_receive:
  assumes es: "in_order t ts es" and ts: "ts \<noteq> []" "\<forall>T' \<in> set ts. T' < T" and T: "0 \<le> T" "t \<le> T - hd ts"
  shows "ls_steps (ls_pending t ts (length es) b) (ls_pending t (ts @ [T]) (Suc (length es)) b) \<and>
    in_order t (ts @ [T]) (place (e, T - hd ts, c) es)"
proof
  let ?a = "ls_pending t ts (length es) b"
  have le: "length es \<le> length ts" using es by (simp add: in_order_def)
  have "ls_step ?a (?a\<lparr>ls_stamps := ls_stamps ?a @ [T]\<rparr>)"
    using ts T by (intro ls_step.receive) (simp_all add: ls_pending_def)
  then show "ls_steps ?a (ls_pending t (ts @ [T]) (Suc (length es)) b)"
    using r_into_rtranclp[of ls_step] by (simp add: ls_pending_def)
  have "place (e, T - hd ts, c) es = es @ [(e, T - hd ts, c)]"
    by (rule place_last) (simp add: in_order_bound[OF es _ ts(2) T(2)])
  with es le ts(1) show "in_order t (ts @ [T]) (place (e, T - hd ts, c) es)"
    by (auto simp: in_order_def)
qed

lemma ls_close: "ls_steps (ls_pending t ts m b) (ls_pending t ts m False)"
proof (cases b)
  case True
  have "ls_step (ls_pending t ts m True) (ls_pending t ts m True\<lparr>ls_open := False\<rparr>)"
    by (rule ls_step.close) (simp add: ls_pending_def)
  with True show ?thesis by (simp add: ls_pending_def)
qed simp

section \<open>The gateway as the machine\<close>

definition stamps_of :: "('u, 'w) gw_sys \<Rightarrow> time list" where
  "stamps_of s = time_stamps (m_delimiterField (s_gw s)) (s_forwarded s)"

definition lock_abs :: "('w \<Rightarrow> 'x callback calendar) \<Rightarrow> ('u, 'w) gw_sys \<Rightarrow> lock_step" where
  "lock_abs cal s =
     ls_pending (cal_now (cal (s_world s))) (stamps_of s) (carrier_count (cal (s_world s)))
       (m_state (s_gw s) = CONNECTED)"

definition grants_ok :: "('w \<Rightarrow> 'x callback calendar) \<Rightarrow> ('u, 'w) gw_sys \<Rightarrow> bool" where
  "grants_ok cal s \<longleftrightarrow> in_order (cal_now (cal (s_world s))) (stamps_of s) (carried_events (cal (s_world s)))"

text \<open>What the abstraction reads.\<close>

lemma lock_abs_cong:
  assumes "cal_now (cal (s_world s')) = cal_now (cal (s_world s))"
    and "carried_events (cal (s_world s')) = carried_events (cal (s_world s))"
    and "stamps_of s' = stamps_of s"
    and "(m_state (s_gw s') = CONNECTED) = (m_state (s_gw s) = CONNECTED)"
  shows "lock_abs cal s' = lock_abs cal s" and "grants_ok cal s' = grants_ok cal s"
  using assms by (simp_all add: lock_abs_def grants_ok_def carrier_count_def)

context gateway_host begin

lemma Stop_finish_lock:
  assumes v: "valid u w" and own: "wait_owned (m_eventWait g) (cal w)" "destroy_owned (m_eventDestroy g) (cal w)"
    and run: "Stop_finish S P b (g, w) = (g', w')"
  shows "cal_now (cal w') = cal_now (cal w)" and "carried_events (cal w') = carried_events (cal w)"
    and "g' = (if b then g\<lparr>m_thread := False\<rparr> else g)"
  using host_calm_stop[OF v run] host_carried_finish[OF v own run] Stop_finish_gateway[of S P b g w] run
  by (simp_all add: calm_def)

lemma main_stop_frame_lock:
  assumes v: "valid (s_user s) (s_world s)"
    and own: "wait_owned (m_eventWait (s_gw s)) (cal (s_world s))" "destroy_owned (m_eventDestroy (s_gw s)) (cal (s_world s))"
  shows "cal_now (cal (s_world (main_stop S P s))) = cal_now (cal (s_world s)) \<and>
    carried_events (cal (s_world (main_stop S P s))) = carried_events (cal (s_world s)) \<and>
    stamps_of (main_stop S P s) = stamps_of s \<and> m_state (s_gw (main_stop S P s)) = STOPPING"
proof (cases "m_state (s_gw s) = CONNECTED \<and> m_thread (s_gw s)")
  case True
  then show ?thesis by (simp add: main_stop_def Stop_signal_def stamps_of_def)
next
  case False
  let ?g = "s_gw s\<lparr>m_state := STOPPING\<rparr>"
  obtain g2 w2 where f: "Stop_finish S P (m_state (s_gw s) = CONNECTED) (?g, s_world s) = (g2, w2)" by fastforce
  have "wait_owned (m_eventWait ?g) (cal (s_world s))" "destroy_owned (m_eventDestroy ?g) (cal (s_world s))"
    using own by simp_all
  from Stop_finish_lock[OF v this f] False f show ?thesis
    by (auto simp: main_stop_def Stop_signal_def stamps_of_def)
qed

lemma main_stop_lock:
  assumes "valid (s_user s) (s_world s)"
    and "wait_owned (m_eventWait (s_gw s)) (cal (s_world s))" "destroy_owned (m_eventDestroy (s_gw s)) (cal (s_world s))"
  shows "ls_steps (lock_abs cal s) (lock_abs cal (main_stop S P s))"
    and "grants_ok cal (main_stop S P s) = grants_ok cal s"
  using main_stop_frame_lock[OF assms] ls_close
  by (simp_all add: lock_abs_def grants_ok_def carrier_count_def)

lemma main_join_lock:
  assumes v: "valid (s_user s) (s_world s)"
    and own: "wait_owned (m_eventWait (s_gw s)) (cal (s_world s))" "destroy_owned (m_eventDestroy (s_gw s)) (cal (s_world s))"
  shows "lock_abs cal (main_join S P b s) = lock_abs cal s" and "grants_ok cal (main_join S P b s) = grants_ok cal s"
proof -
  obtain g2 w2 where f: "Stop_finish S P True (s_gw s, s_world s) = (g2, w2)" by fastforce
  from Stop_finish_lock[OF v own f] f
  have "cal_now (cal (s_world (main_join S P b s))) = cal_now (cal (s_world s)) \<and>
      carried_events (cal (s_world (main_join S P b s))) = carried_events (cal (s_world s)) \<and>
      stamps_of (main_join S P b s) = stamps_of s \<and> m_state (s_gw (main_join S P b s)) = m_state (s_gw s)"
    by (simp add: main_join_def stamps_of_def)
  then show "lock_abs cal (main_join S P b s) = lock_abs cal s" and "grants_ok cal (main_join S P b s) = grants_ok cal s"
    using lock_abs_cong[where s' = "main_join S P b s" and s = s and cal = cal] by simp_all
qed

text \<open>A message is a grant, or the end.\<close>

lemma ForwardUp_lock:
  assumes v: "valid u w" and own: "wait_owned (m_eventWait g) (cal w)"
    and kept: "times_kept g ts" and es: "in_order (cal_now (cal w)) ts (carried_events (cal w))"
    and run: "ForwardUp S (g, w) = Inr (g', w')"
    and ts': "ts' = ts @ time_stamps (m_delimiterField g) (take 1 (m_messageQueue g))"
    and inc: "sorted_wrt (<) ts'"
  shows "ls_steps (ls_pending (cal_now (cal w)) ts (length (carried_events (cal w))) b)
      (ls_pending (cal_now (cal w)) ts' (length (carried_events (cal w'))) b) \<and>
    in_order (cal_now (cal w)) ts' (carried_events (cal w'))"
proof -
  obtain m q where q: "m_messageQueue g = m # q"
    using run by (cases "m_messageQueue g") (simp_all add: ForwardUp_def)
  let ?g = "g\<lparr>m_messageQueue := q\<rparr>"
  from run q obtain T fs where p: "process_message S T (drop 2 fs) (?g, w) = Inr (g', w')"
    and st: "message_stamp (m_delimiterField g) m = Some T"
    by (auto simp: ForwardUp_def message_stamp_def split: option.splits)
  have "wait_owned (m_eventWait ?g) (cal w)" using own by simp
  note c = host_carries[OF v this p]
  have stamps: "ts' = ts @ (if 0 \<le> T then [T] else [])" using ts' q time_stamps_one[OF st] by simp
  consider (terminate) "T < 0" | (first) "0 \<le> T" "ts = []" | (normal) "0 \<le> T" "ts \<noteq> []" by linarith
  then show ?thesis
  proof cases
    case terminate
    with c stamps es show ?thesis by simp
  next
    case first
    with kept have "m_timeStart ?g < 0" by (simp add: times_kept_def)
    with c first obtain e where
      "carried_events (cal w') = place (e, cal_now (cal w), GatewayDoInitialize (drop 2 fs)) (carried_events (cal w))"
      by auto
    with ls_receive_first[of "cal_now (cal w)" "carried_events (cal w)" T b] es first stamps show ?thesis by simp
  next
    case normal
    with kept have start: "m_timeStart ?g = hd ts" "0 \<le> hd ts" by (simp_all add: times_kept_def)
    with c normal obtain e where le: "cal_now (cal w) \<le> T - hd ts" and
      k: "carried_events (cal w') = place (e, T - hd ts, GatewayHandleUpdate (drop 2 fs)) (carried_events (cal w))"
      by auto
    have "\<forall>T' \<in> set ts. T' < T" using inc stamps normal by (simp add: sorted_wrt_append)
    from ls_receive[OF es normal(2) this normal(1) le, of b] k stamps normal(1) show ?thesis by simp
  qed
qed

text \<open>The main thread calls the event \<open>c\<close>, which it has taken out of the calendar.\<close>

lemma dispatch_lock:
  assumes v: "valid u w" and pop: "gw_popped t0 x c g (cal w)"
    and es: "es = (if carries c then [(e, cal_now (cal w), c)] else []) @ carried_events (cal w)"
    and ord: "in_order (cal_now (cal w)) ts es" and kept: "times_kept g ts" and ns: "c \<noteq> GatewayStop"
    and run: "dispatch S H c (u, g, w) = Inr (u', g', w')"
    and ts': "ts' = ts @ time_stamps (m_delimiterField g)
      (if c = GatewayForwardUp then take 1 (m_messageQueue g) else [])"
    and inc: "sorted_wrt (<) ts'"
  shows "ls_steps (ls_pending (cal_now (cal w)) ts (length es) b)
      (ls_pending (cal_now (cal w)) ts' (length (carried_events (cal w'))) b) \<and>
    in_order (cal_now (cal w)) ts' (carried_events (cal w'))"
proof (cases "c = GatewayForwardUp")
  case True
  with run have f: "ForwardUp S (g, w) = Inr (g', w')" by (auto simp: dispatch_def)
  have o: "in_order (cal_now (cal w)) ts (carried_events (cal w))"
    and len: "length es = length (carried_events (cal w))" using ord es True by simp_all
  have own: "wait_owned (m_eventWait g) (cal w)" using pop by (simp add: gw_popped_def)
  have t: "ts' = ts @ time_stamps (m_delimiterField g) (take 1 (m_messageQueue g))"
    using True ts' by simp
  from ForwardUp_lock[OF v own kept o f t inc] show ?thesis unfolding len .
next
  case False
  then have t: "ts' = ts" by (simp add: ts')
  note k = dispatch_carried[OF v pop ns False run]
  show ?thesis
  proof (cases "carries c")
    case True
    then have "es = (e, cal_now (cal w), c) # carried_events (cal w)" using es by simp
    with ls_execute[of "cal_now (cal w)" ts "(e, cal_now (cal w), c)" "carried_events (cal w)" b] ord
    show ?thesis by (auto simp: t k)
  next
    case False
    with es ord show ?thesis by (simp add: t k)
  qed
qed

lemma main_event_lock:
  assumes v: "valid (s_user s) w" and pop: "gw_popped t0 x c (s_gw s) (cal w)"
    and es: "es = (if carries c then [(e, cal_now (cal w), c)] else []) @ carried_events (cal w)"
    and ord: "in_order (cal_now (cal w)) (stamps_of s) es" and kept: "times_kept (s_gw s) (stamps_of s)"
    and s': "s' = main_event S P H c (s\<lparr>s_world := w\<rparr>)"
    and alive: "\<forall>f. s_main s' \<noteq> Main_Failed f" and inc: "increasing_stamps s'"
  shows "ls_steps (ls_pending (cal_now (cal w)) (stamps_of s) (length es) (m_state (s_gw s) = CONNECTED))
      (lock_abs cal s') \<and> grants_ok cal s'"
proof (cases "c = GatewayStop")
  case True
  let ?s = "s\<lparr>s_world := w\<rparr>"
  have "valid (s_user ?s) (s_world ?s)" "wait_owned (m_eventWait (s_gw ?s)) (cal (s_world ?s))"
    "destroy_owned (m_eventDestroy (s_gw ?s)) (cal (s_world ?s))"
    using v pop by (simp_all add: gw_popped_def)
  note m = main_stop_lock[OF this]
  have "s' = main_stop S P ?s" using True by (simp add: s' main_event_def)
  moreover have "lock_abs cal ?s =
      ls_pending (cal_now (cal w)) (stamps_of s) (length es) (m_state (s_gw s) = CONNECTED)" "grants_ok cal ?s"
    using True es ord by (simp_all add: lock_abs_def grants_ok_def carrier_count_def stamps_of_def)
  ultimately show ?thesis using m by simp
next
  case ns: False
  obtain u g' w' where run: "dispatch S H c (s_user s, s_gw s, w) = Inr (u, g', w')"
  proof (cases "dispatch S H c (s_user s, s_gw s, w)")
    case (Inl f)
    with alive ns show ?thesis by (simp add: s' main_event_def)
  next
    case (Inr y)
    with that show ?thesis by (cases y) blast
  qed
  have fr: "m_delimiterField g' = m_delimiterField (s_gw s)" "m_state g' = m_state (s_gw s)"
    using dispatch_ok[OF v pop ns run] by (simp_all add: gw_frame_def)
  have now: "cal_now (cal w') = cal_now (cal w)" using dispatch_calm[OF v ns run] by (simp add: calm_def)
  define ts' where "ts' = stamps_of s @
    time_stamps (m_delimiterField (s_gw s)) (if c = GatewayForwardUp then take 1 (m_messageQueue (s_gw s)) else [])"
  have s'': "stamps_of s' = ts'" "s_world s' = w'" "m_state (s_gw s') = m_state (s_gw s)"
    using ns run by (simp_all add: s' main_event_def stamps_of_def ts'_def fr)
  have "sorted_wrt (<) ts'" using inc s''(1) by (simp add: increasing_stamps_def stamps_of_def)
  from dispatch_lock[OF v pop es ord kept ns run ts'_def this] show ?thesis
    by (simp add: lock_abs_def grants_ok_def carrier_count_def s'' now)
qed

text \<open>The receiving thread does nothing that the machine sees.\<close>

lemma thread_step_lock:
  assumes v: "valid (s_user s) (s_world s)" and run: "thread_step S r s = Some s'"
  shows "lock_abs cal s' = lock_abs cal s" and "grants_ok cal s' = grants_ok cal s"
proof -
  have ctx: "carried_events (cal (sim_schedule_with_context S n 0 c (s_world s))) = carried_events (cal (s_world s)) \<and>
      cal_now (cal (sim_schedule_with_context S n 0 c (s_world s))) = cal_now (cal (s_world s))"
    if "\<not> carries c" for n c
  proof -
    from sim_scheduled_context[OF v, of 0 n c] obtain e where
      "cal (sim_schedule_with_context S n 0 c (s_world s)) = cal_schedule e 0 c (cal (s_world s))" by auto
    with that show ?thesis by (simp add: carried_schedule_other)
  qed
  have "cal_now (cal (s_world s')) = cal_now (cal (s_world s)) \<and>
      carried_events (cal (s_world s')) = carried_events (cal (s_world s)) \<and>
      stamps_of s' = stamps_of s \<and> m_state (s_gw s') = m_state (s_gw s)"
    using run by (auto simp: thread_step_def Let_def ctx stamps_of_def
        split: thread_pc.splits option.splits recv_result.splits if_splits)
  then show "lock_abs cal s' = lock_abs cal s" and "grants_ok cal s' = grants_ok cal s"
    using lock_abs_cong[where s' = s' and s = s and cal = cal] by simp_all
qed

text \<open>The event loop takes out the next event: the clock moves only under a grant.\<close>

lemma next_event_lock:
  assumes r: "gw_reachable S cal valid P H s0 s" and m: "s_main s = Main_Run" and ord: "grants_ok cal s"
    and nx: "sim_next S (s_world s) = Some (c, w)"
  obtains e where "carried_events (cal (s_world s)) =
      (if carries c then [(e, cal_now (cal w), c)] else []) @ carried_events (cal w)"
    and "ls_steps (lock_abs cal s) (ls_pending (cal_now (cal w)) (stamps_of s)
      (length (carried_events (cal (s_world s)))) (m_state (s_gw s) = CONNECTED))"
    and "in_order (cal_now (cal w)) (stamps_of s) (carried_events (cal (s_world s)))"
proof -
  let ?k = "cal (s_world s)" and ?b = "m_state (s_gw s) = CONNECTED"
  have v: "valid (s_user s) (s_world s)" using reachable_facts(1)[OF r] m by simp
  from sim_next_event[OF v nx] have v': "valid (s_user s) w" and nk: "cal_next ?k = Some (c, cal w)" by blast+
  obtain e where es: "carried_events ?k = (if carries c then [(e, cal_now (cal w), c)] else []) @ carried_events (cal w)"
    using nk by (rule carried_pop)
  have late: "\<forall>v \<in> set (carried_events ?k). cal_now (cal w) \<le> ev_time v"
    using cal_next_not_past[OF sim_ok[OF v] nk] by (simp add: carried_events_def)
  have grant: "carried_events ?k \<noteq> []" if b: "?b" and t: "cal_now ?k < cal_now (cal w)"
  proof -
    from clock_step[OF r m b nx] t obtain e d where
      "(e, m_timePause (s_gw s), GatewayHandleUpdate d) \<in> set (cal_events ?k)"
      by (auto simp: sim_time[OF v] sim_time[OF v'])
    then have "(e, m_timePause (s_gw s), GatewayHandleUpdate d) \<in> set (carried_events ?k)"
      by (simp add: carried_events_def)
    then show ?thesis by auto
  qed
  from ls_advance[OF ord[unfolded grants_ok_def] cal_next_now[OF sim_ok[OF v] nk] late grant] es that show ?thesis
    by (simp add: lock_abs_def carrier_count_def)
qed

text \<open>Every step of the system is a stutter or steps of the machine.\<close>

lemma gw_step_lock:
  assumes r: "gw_reachable S cal valid P H s0 s" and step: "gw_step S P H s l s'" and ord: "grants_ok cal s"
    and alive: "\<forall>f. s_main s' \<noteq> Main_Failed f" and inc: "increasing_stamps s'"
  shows "ls_steps (lock_abs cal s) (lock_abs cal s') \<and> grants_ok cal s'"
proof -
  let ?k = "cal (s_world s)" and ?b = "m_state (s_gw s) = CONNECTED"
  note alive0 = gw_step_alive[OF step]
  note v = reachable_facts(1)[OF r alive0] and g = reachable_facts(2)[OF r alive0]
  have own: "wait_owned (m_eventWait (s_gw s)) ?k" "destroy_owned (m_eventDestroy (s_gw s)) ?k"
    using g by (simp_all add: gw_ok_def)
  have "sys_paced cal s" by (rule reachable_paced[OF r alive0 increasing_step[OF step reachable_ok[OF r] inc]])
  then have kept: "times_kept (s_gw s) (stamps_of s)" by (simp add: sys_paced_def stamps_of_def)
  note ord' = ord[unfolded grants_ok_def]
  show ?thesis
    using step
  proof (cases rule: gw_step.cases)
    case thread
    from thread_step_lock[OF v thread(3)] ord show ?thesis by simp
  next
    case (recv d x)
    from thread_step_lock[OF v recv(4)] ord show ?thesis by simp
  next
    case (run c w)
    from host_popped[OF v g run(4)] have v': "valid (s_user s) w" and
      pop: "gw_popped (sim_now S (s_world s0)) (forward_extra (s_thread s)) c (s_gw s) (cal w)" by blast+
    obtain e where es: "carried_events ?k = (if carries c then [(e, cal_now (cal w), c)] else []) @ carried_events (cal w)"
      and adv: "ls_steps (lock_abs cal s) (ls_pending (cal_now (cal w)) (stamps_of s) (length (carried_events ?k)) ?b)"
      and o: "in_order (cal_now (cal w)) (stamps_of s) (carried_events ?k)"
      by (rule next_event_lock[OF r run(3) ord run(4)])
    from main_event_lock[OF v' pop es o kept run(2) alive inc] adv show ?thesis by auto
  next
    case run_end
    with ord show ?thesis by (simp add: lock_abs_def grants_ok_def stamps_of_def)
  next
    case (destroy c w)
    from event_simulator.next_destroy_Some[OF simulator v destroy(4)]
    have nk: "cal_next_destroy ?k = Some (c, cal w)" by blast
    from host_popped_destroy[OF v g destroy(4)] have v': "valid (s_user s) w" and
      pop: "gw_popped (sim_now S (s_world s0)) (forward_extra (s_thread s)) c (s_gw s) (cal w)" and
      c: "gateway_callback c \<longrightarrow> c = GatewayStop" by blast+
    have nc: "\<not> carries c" using c carries_gateway by (cases c) auto
    have es: "carried_events ?k = (if carries c then [(0, cal_now (cal w), c)] else []) @ carried_events (cal w)"
      using nc carried_pop_destroy[OF nk] by simp
    have now: "cal_now (cal w) = cal_now ?k" using nk by (rule cal_next_destroy_SomeD)
    from main_event_lock[OF v' pop es _ kept destroy(2) alive inc] ord' show ?thesis
      by (simp add: lock_abs_def carrier_count_def now)
  next
    case (join b d)
    from main_join_lock[OF v own] ord show ?thesis by (simp add: join(2))
  qed
qed

lemma gw_initial_lock:
  assumes "gw_initial S cal valid P s"
  shows "grants_ok cal s" and "carrier_count (cal (s_world s)) = 0" and "stamps_of s = []"
proof -
  obtain k ed ew where
    c: "cal (s_world s) = cal_schedule ew 0 GatewayWaitForNextUpdate (cal_schedule_destroy ed GatewayStop k)"
    and ev: "\<forall>v \<in> set (cal_events k). \<not> gateway_callback (ev_call v)"
    and f: "s_forwarded s = []" by (rule gw_initial_calendar[OF assms])
  have "carried_events (cal_schedule_destroy ed GatewayStop k) = []"
    using ev carries_gateway by (auto simp: carried_events_def cal_schedule_destroy_def filter_empty_conv)
  then have "carried_events (cal (s_world s)) = []" by (simp add: c carried_schedule_other)
  with f show "grants_ok cal s" and "carrier_count (cal (s_world s)) = 0" and "stamps_of s = []"
    by (simp_all add: grants_ok_def stamps_of_def carrier_count_def)
qed

theorem reachable_grants:
  "gw_reachable S cal valid P H s0 s \<Longrightarrow> \<forall>f. s_main s \<noteq> Main_Failed f \<Longrightarrow> increasing_stamps s \<Longrightarrow>
   grants_ok cal s \<and> ls_steps (lock_abs cal s0) (lock_abs cal s)"
proof (induction rule: gw_reachable.induct)
  case (start s)
  from gw_initial_lock(1)[OF start.hyps] show ?case by simp
next
  case (step s0 s l s')
  have "grants_ok cal s \<and> ls_steps (lock_abs cal s0) (lock_abs cal s)"
    by (rule step.IH[OF gw_step_alive[OF step.hyps(2)]
          increasing_step[OF step.hyps(2) reachable_ok[OF step.hyps(1)] step.prems(2)]])
  with gw_step_lock[OF step.hyps(1,2) _ step.prems] show ?case by auto
qed

text \<open>The machine starts with an open connection and without grants.\<close>

lemma lock_abs_initial:
  assumes "gw_initial S cal valid P s"
  shows "lock_abs cal s = \<lparr>ls_now = sim_now S (s_world s), ls_stamps = [], ls_done = 0, ls_open = True\<rparr>"
proof -
  from assms obtain g w addr port where
    "Connect S P addr port (g, w) = Inr (s_gw s, s_world s)" unfolding gw_initial_def by blast
  from Connect_InrD[OF this] have "m_state (s_gw s) = CONNECTED" by auto
  moreover have "\<forall>f. s_main s \<noteq> Main_Failed f" using assms by (simp add: gw_initial_def)
  from sim_time[OF reachable_facts(1)[OF gw_reachable.start[OF assms] this]]
  have "cal_now (cal (s_world s)) = sim_now S (s_world s)" by simp
  ultimately show ?thesis using gw_initial_lock[OF assms] by (simp add: lock_abs_def ls_pending_def)
qed

lemma reachable_initial: "gw_reachable S cal valid P H s0 s \<Longrightarrow> gw_initial S cal valid P s0"
  by (induction rule: gw_reachable.induct)

text \<open>The machine executes a grant when the event loop executes an event that carries data.\<close>

lemma lock_abs_executes:
  assumes r: "gw_reachable S cal valid P H s0 s" and step: "gw_step S P H s L_Event s'"
    and m: "s_main s = Main_Run" and nx: "sim_next S (s_world s) = Some (c, w)"
    and alive: "\<forall>f. s_main s' \<noteq> Main_Failed f" and inc: "increasing_stamps s'"
  shows "ls_done (lock_abs cal s') = ls_done (lock_abs cal s) + (if carries c then 1 else 0)"
proof -
  have s': "s' = main_event S P H c (s\<lparr>s_world := w\<rparr>)"
    using step m nx by (cases rule: gw_step.cases) auto
  have v: "valid (s_user s) (s_world s)" and ok: "gw_ok (sim_now S (s_world s0)) (forward_extra (s_thread s))
      (s_gw s) (cal (s_world s))" using reachable_facts(1,2)[OF r] m by simp_all
  from sim_next_event[OF v nx] have nk: "cal_next (cal (s_world s)) = Some (c, cal w)" by blast
  from host_popped[OF v ok nx] have v': "valid (s_user s) w" and
    pop: "gw_popped (sim_now S (s_world s0)) (forward_extra (s_thread s)) c (s_gw s) (cal w)" by blast+
  have "increasing_stamps s" by (rule increasing_step[OF step reachable_ok[OF r] inc])
  then have "grants_ok cal s" using reachable_grants[OF r] m by simp
  then have le: "carrier_count (cal (s_world s)) \<le> length (stamps_of s)"
    by (simp add: grants_ok_def in_order_def carrier_count_def)
  note n = carrier_count_pop[OF nk]
  show ?thesis
  proof (cases "c = GatewayStop")
    case True
    have "valid (s_user (s\<lparr>s_world := w\<rparr>)) (s_world (s\<lparr>s_world := w\<rparr>))"
      "wait_owned (m_eventWait (s_gw (s\<lparr>s_world := w\<rparr>))) (cal (s_world (s\<lparr>s_world := w\<rparr>)))"
      "destroy_owned (m_eventDestroy (s_gw (s\<lparr>s_world := w\<rparr>))) (cal (s_world (s\<lparr>s_world := w\<rparr>)))"
      using v' pop by (simp_all add: gw_popped_def)
    from main_stop_frame_lock[OF this] True n show ?thesis
      by (simp add: s' main_event_def lock_abs_def ls_pending_def stamps_of_def carrier_count_def)
  next
    case ns: False
    obtain u g' w' where run: "dispatch S H c (s_user s, s_gw s, w) = Inr (u, g', w')"
    proof (cases "dispatch S H c (s_user s, s_gw s, w)")
      case (Inl f)
      with alive ns show ?thesis by (simp add: s' main_event_def)
    next
      case (Inr y)
      with that show ?thesis by (cases y) blast
    qed
    have "m_delimiterField g' = m_delimiterField (s_gw s)"
      using dispatch_ok[OF v' pop ns run] by (simp add: gw_frame_def)
    with dispatch_count[OF v' pop ns run] ns run n le show ?thesis
      by (auto simp: s' main_event_def lock_abs_def ls_pending_def stamps_of_def)
  qed
qed

end

end
