(* ===== verification/Lock_Step_Properties.thy ===== *)
theory Lock_Step_Properties
  imports Lock_Step Progress_Properties Cosim_Run
begin

text \<open>
  The properties of the gateway as the lock-step machine of \<open>Lock_Step\<close>: the refinement, and what
  the invariant of the machine says of the gateway.
\<close>

text \<open>
  A run for the witnesses: both messages of the server are processed, and then the event loop
  executes \<open>DoInitialize\<close>, so that the update for 1 s is pending.
\<close>

definition two_grants :: "gw_label list" where
  "two_grants = thread_starts @
     [L_Recv (Received (''0 0 0 0 0 0 0 0 0'' @ CRLF @ ''1 0 1 0 0 1 0 0 1'' @ CRLF))] @
     thread_message @ thread_message @ [L_Thread, L_Event, L_Event, L_Event]"

lemma two_grants_run:
  "\<exists>s s' w data. gw_execs ref_sim ref_os ref_host two_grants one_start = Some s \<and>
     gw_exec ref_sim ref_os ref_host L_Event s = Some s' \<and> s_main s = Main_Run \<and> s_main s' = Main_Run \<and>
     sim_next ref_sim (s_world s) = Some (GatewayDoInitialize data, w) \<and>
     s_forwarded s = [''0 0 0 0 0 0 0 0 0'', ''1 0 1 0 0 1 0 0 1''] \<and> s_forwarded s' = s_forwarded s \<and>
     m_delimiterField (s_gw s) = '' '' \<and> m_delimiterField (s_gw s') = '' '' \<and>
     length (filter (\<lambda>v. carries (ev_call v)) (rw_events (s_world s))) = 2 \<and>
     length (filter (\<lambda>v. carries (ev_call v)) (rw_events (s_world s'))) = 1 \<and>
     rw_now (s_world s) = 0 \<and> m_state (s_gw s) = CONNECTED"
  by (simp add: ref_eval two_grants_def one_start_def one_gateway_def one_vehicle_def one_fields one_times
     update_vehicle_def vector_at_def stoi_at_def ELEMENTS_PER_VEHICLE_def int_vectors_def)

lemma two_stamps: "time_stamps '' '' [''0 0 0 0 0 0 0 0 0'', ''1 0 1 0 0 1 0 0 1''] = [0, Seconds 1]"
  by (simp add: time_stamps_def map_filter_def message_stamp_def one_fields one_times Seconds_def)

lemma two_grants_ready:
  obtains s s' w data where "gw_execs ref_sim ref_os ref_host two_grants one_start = Some s"
    and "gw_exec ref_sim ref_os ref_host L_Event s = Some s'" and "s_main s = Main_Run" and "s_main s' = Main_Run"
    and "sim_next ref_sim (s_world s) = Some (GatewayDoInitialize data, w)"
    and "lock_abs ref_cal s = \<lparr>ls_now = 0, ls_stamps = [0, Seconds 1], ls_done = 0, ls_open = True\<rparr>"
    and "stamps_of s' = [0, Seconds 1]" and "carrier_count (ref_cal (s_world s')) = 1"
proof -
  obtain s s' w data where s: "gw_execs ref_sim ref_os ref_host two_grants one_start = Some s"
    "gw_exec ref_sim ref_os ref_host L_Event s = Some s'" "s_main s = Main_Run" "s_main s' = Main_Run"
    "sim_next ref_sim (s_world s) = Some (GatewayDoInitialize data, w)"
    and f: "s_forwarded s = [''0 0 0 0 0 0 0 0 0'', ''1 0 1 0 0 1 0 0 1'']" "s_forwarded s' = s_forwarded s"
    "m_delimiterField (s_gw s) = '' ''" "m_delimiterField (s_gw s') = '' ''"
    and n: "length (filter (\<lambda>v. carries (ev_call v)) (rw_events (s_world s))) = 2"
     "length (filter (\<lambda>v. carries (ev_call v)) (rw_events (s_world s'))) = 1"
     "rw_now (s_world s) = 0" "m_state (s_gw s) = CONNECTED"
    using two_grants_run by blast
  have "stamps_of s = [0, Seconds 1]" "stamps_of s' = [0, Seconds 1]"
    unfolding stamps_of_def f(2-4) f(1) by (rule two_stamps)+
  with s n that[of s s' data w] show ?thesis
    by (simp add: lock_abs_def ls_pending_def carrier_count_def carried_events_def ref_cal_def)
qed

text \<open>C2: Every step of the gateway, of either thread and in any interleaving, is a stutter or steps of
  the lock-step machine, as long as the time stamps processed strictly increase and no fault has
  ended the program; the machine starts with an open connection and no grants, every reachable
  state is one of its reachable states, and it counts a grant as executed exactly when the event
  loop executes the event with the data of the message.\<close>

theorem gateway_refines_lock_step:
  assumes "gateway_host S cal valid P H" and "gw_reachable S cal valid P H s0 s"
    and "gw_step S P H s l s'" and "\<forall>f. s_main s' \<noteq> Main_Failed f" and "increasing_stamps s'"
  shows "lock_abs cal s0 = \<lparr>ls_now = sim_now S (s_world s0), ls_stamps = [], ls_done = 0, ls_open = True\<rparr> \<and>
    ls_step\<^sup>*\<^sup>* (lock_abs cal s0) (lock_abs cal s) \<and> ls_step\<^sup>*\<^sup>* (lock_abs cal s) (lock_abs cal s') \<and>
    (l = L_Event \<and> s_main s = Main_Run \<longrightarrow>
       (\<forall>c w. sim_next S (s_world s) = Some (c, w) \<longrightarrow>
          ls_done (lock_abs cal s') = ls_done (lock_abs cal s) + (if carries c then 1 else 0)))"
proof -
  note host = assms(1) and r = assms(2) and step = assms(3)
  note alive = gateway_host.gw_step_alive[OF host step]
  note inc = gateway_host.increasing_step[OF host step gateway_host.reachable_ok[OF host r] assms(5)]
  from gateway_host.reachable_grants[OF host r alive inc] have g: "grants_ok cal s"
    and run: "ls_step\<^sup>*\<^sup>* (lock_abs cal s0) (lock_abs cal s)" by blast+
  from gateway_host.gw_step_lock[OF host r step g assms(4,5)]
  have step': "ls_step\<^sup>*\<^sup>* (lock_abs cal s) (lock_abs cal s')" by blast
  have start: "lock_abs cal s0 = \<lparr>ls_now = sim_now S (s_world s0), ls_stamps = [], ls_done = 0, ls_open = True\<rparr>"
    by (rule gateway_host.lock_abs_initial[OF host gateway_host.reachable_initial[OF host r]])
  show ?thesis
    using start run step' gateway_host.lock_abs_executes[OF host r _ _ _ assms(4,5)] step by blast
qed

theorem gateway_refines_lock_step_witness:
  "\<exists>s s'. gw_execs ref_sim ref_os ref_host two_grants one_start = Some s \<and>
     gw_exec ref_sim ref_os ref_host L_Event s = Some s' \<and>
     lock_abs ref_cal s = \<lparr>ls_now = 0, ls_stamps = [0, Seconds 1], ls_done = 0, ls_open = True\<rparr> \<and>
     ls_step\<^sup>*\<^sup>* (lock_abs ref_cal s) (lock_abs ref_cal s') \<and> ls_done (lock_abs ref_cal s') = 1"
proof -
  obtain s s' w data where s: "gw_execs ref_sim ref_os ref_host two_grants one_start = Some s"
    "gw_exec ref_sim ref_os ref_host L_Event s = Some s'" "s_main s = Main_Run" "s_main s' = Main_Run"
    "sim_next ref_sim (s_world s) = Some (GatewayDoInitialize data, w)"
    "lock_abs ref_cal s = \<lparr>ls_now = 0, ls_stamps = [0, Seconds 1], ls_done = 0, ls_open = True\<rparr>"
    "stamps_of s' = [0, Seconds 1]" by (rule two_grants_ready)
  note r = gw_execs_reachable[OF gw_reachable.start[OF one_start_initial] s(1)]
  have alive: "\<forall>f. s_main s' \<noteq> Main_Failed f" using s(4) by simp
  have inc: "increasing_stamps s'" using s(7) by (simp add: increasing_stamps_def stamps_of_def Seconds_def)
  from gateway_refines_lock_step[OF ref_host_ok r gw_exec_step[OF s(2)] alive inc] s(3,5)
  have "ls_step\<^sup>*\<^sup>* (lock_abs ref_cal s) (lock_abs ref_cal s')"
    "ls_done (lock_abs ref_cal s') = ls_done (lock_abs ref_cal s) + 1" by simp_all
  with s(1,2,6) show ?thesis by auto
qed

text \<open>C3: No grant is skipped and none is executed early: if the time stamps strictly increase, the
  messages whose data have been passed on are the first ones, the time of each of them (relative to
  the first) is not after the clock, and the clock has not passed the time of any other message.\<close>

theorem grants_executed_in_time:
  assumes "gateway_host S cal valid P H" and "gw_reachable S cal valid P H s0 s"
    and "\<forall>f. s_main s \<noteq> Main_Failed f" and "increasing_stamps s"
    and "ts = time_stamps (m_delimiterField (s_gw s)) (s_forwarded s)"
    and "m = carrier_count (cal (s_world s))"
  shows "m \<le> length ts \<and>
    (\<forall>i. 0 < i \<and> i < length ts - m \<longrightarrow> ts ! i - hd ts \<le> sim_now S (s_world s)) \<and>
    (\<forall>i. 0 < i \<and> length ts - m \<le> i \<and> i < length ts \<longrightarrow> sim_now S (s_world s) \<le> ts ! i - hd ts)"
proof -
  note host = assms(1) and r = assms(2)
  from gateway_host.reachable_grants[OF host r assms(3,4)] have g: "grants_ok cal s"
    and run: "ls_step\<^sup>*\<^sup>* (lock_abs cal s0) (lock_abs cal s)" by blast+
  have "ls_inv (lock_abs cal s0)"
    by (simp add: gateway_host.lock_abs_initial[OF host gateway_host.reachable_initial[OF host r]] ls_inv_def)
  from ls_inv_steps[OF run this] have inv: "ls_inv (lock_abs cal s)" .
  have "stamps_of s = ts" by (simp add: stamps_of_def assms(5))
  with inv g assms(6) gateway_host.sim_time[OF host gateway_host.reachable_facts(1)[OF host r assms(3)]]
  show ?thesis
    by (simp add: ls_inv_def lock_abs_def ls_pending_def grants_ok_def in_order_def carrier_count_def)
qed

theorem grants_executed_in_time_witness:
  "\<exists>s. gw_execs ref_sim ref_os ref_host (two_grants @ [L_Event]) one_start = Some s \<and>
     stamps_of s = [0, Seconds 1] \<and> sim_now ref_sim (s_world s) \<le> Seconds 1"
proof -
  obtain s s' w data where s: "gw_execs ref_sim ref_os ref_host two_grants one_start = Some s"
    "gw_exec ref_sim ref_os ref_host L_Event s = Some s'" "s_main s' = Main_Run"
    "stamps_of s' = [0, Seconds 1]" "carrier_count (ref_cal (s_world s')) = 1" by (rule two_grants_ready)
  note r = gw_reachable.step[OF gw_execs_reachable[OF gw_reachable.start[OF one_start_initial] s(1)] gw_exec_step[OF s(2)]]
  have run: "gw_execs ref_sim ref_os ref_host (two_grants @ [L_Event]) one_start = Some s'"
    using s(1,2) by (simp add: gw_execs_append)
  have alive: "\<forall>f. s_main s' \<noteq> Main_Failed f" using s(3) by simp
  have inc: "increasing_stamps s'" using s(4) by (simp add: increasing_stamps_def stamps_of_def Seconds_def)
  have "[0, Seconds 1] = time_stamps (m_delimiterField (s_gw s')) (s_forwarded s')" "1 = carrier_count (ref_cal (s_world s'))"
    using s(4,5) by (simp_all add: stamps_of_def)
  from grants_executed_in_time[OF ref_host_ok r alive inc this] have "sim_now ref_sim (s_world s') \<le> Seconds 1"
    by (auto dest: spec[of _ 1])
  with run s(4) show ?thesis by blast
qed

end
