(* ===== verification/Mobility_Properties.thy ===== *)
theory Mobility_Properties
  imports External_Mobility_Example
begin

text \<open>
  The properties of the external mobility model: what the listeners of the course change trace see,
  what is read back, and what the example program does with it.
\<close>

section \<open>The class\<close>

text \<open>C34: The listeners are notified of velocities only: after any sequence of calls they have been
  called exactly for the calls of \<open>SetVelocity\<close> whose argument differs from the velocity before the
  call, in order, each time with the new velocity; a call of \<open>SetPosition\<close> is never notified.\<close>

theorem notified_of_velocity_changes:
  "map snd (snd (mobility_calls V cs (m, []))) = velocity_changes V (m_velocity m) cs"
  by (simp add: mobility_calls_observed)

text \<open>What was set is read back: after any sequence of calls on a new model, position and velocity
  are the last ones set (zero when none was), up to vectors that the operator \<open>!=\<close> does not
  distinguish.\<close>

theorem last_values_read_back:
  assumes "vectors V" and "s = mobility_calls V cs (ExternalMobilityModel_new V, [])"
  shows "same_vector V (DoGetPosition (fst s)) (last_position (v_zero V) cs) \<and>
    same_vector V (DoGetVelocity (fst s)) (last_velocity (v_zero V) cs)"
  using vectors.mobility_calls_same[OF assms(1), of "ExternalMobilityModel_new V" "v_zero V" "v_zero V" cs "[]"]
  by (simp add: assms(2) DoGetPosition_def DoGetVelocity_def ExternalMobilityModel_new_def)

theorem last_values_read_back_witness:
  "DoGetPosition (fst (mobility_calls int_vectors
      [Call_SetPosition (1, 2, 3), Call_SetVelocity (4, 5, 6), Call_SetPosition (7, 8, 9)]
      (ExternalMobilityModel_new int_vectors, []))) = (7, 8, 9)"
proof -
  have e: "same_vector int_vectors a b \<longleftrightarrow> a = b" for a b
    by (simp add: same_vector_def v_eq_def int_vectors_def)
  show ?thesis
    using last_values_read_back[OF int_vectors.vectors_axioms refl,
        of "[Call_SetPosition (1, 2, 3), Call_SetVelocity (4, 5, 6), Call_SetPosition (7, 8, 9)]"]
    unfolding e last_position.simps by blast
qed

text \<open>The order of the two calls matters to a listener: the documented order, position before
  velocity, notifies at most once and shows the new position together with the new velocity; in
  the other order the same notification shows the position of before, and nothing is notified
  when it changes. The final state is the same.\<close>

theorem position_before_velocity:
  assumes "v_neq V = (\<noteq>)"
  shows "mobility_calls V [Call_SetPosition p, Call_SetVelocity v] (m, []) =
      (\<lparr>m_position = p, m_velocity = v\<rparr>, if v = m_velocity m then [] else [(p, v)]) \<and>
    mobility_calls V [Call_SetVelocity v, Call_SetPosition p] (m, []) =
      (\<lparr>m_position = p, m_velocity = v\<rparr>, if v = m_velocity m then [] else [(m_position m, v)])"
  by (cases m) (simp add: SetVelocity_exact[OF assms] DoSetPosition_exact[OF assms] record_change_def
      DoGetPosition_def DoGetVelocity_def)

theorem position_before_velocity_witness:
  "snd (mobility_calls int_vectors [Call_SetVelocity (1, 0, 0), Call_SetPosition (5, 0, 0)]
     (ExternalMobilityModel_new int_vectors, [])) = [((0, 0, 0), (1, 0, 0))]"
proof -
  have "v_neq int_vectors = (\<noteq>)" by (simp add: int_vectors_def)
  from position_before_velocity[OF this, of "(5, 0, 0)" "(1, 0, 0)" "ExternalMobilityModel_new int_vectors"]
  show ?thesis by (simp add: ExternalMobilityModel_new_def int_vectors_def)
qed

section \<open>The example\<close>

text \<open>One call of \<open>UpdateMobility\<close> in the example adds both deltas to the mobility of every node of
  its group and of no other node, reports each node of the group once, with the new values and the
  current time, and schedules itself again after \<open>timeDelta\<close>.\<close>

theorem UpdateMobility_moves_group:
  assumes "v_neq V = (\<noteq>)" and "\<forall>v. v_plus V v dv \<noteq> v"
    and "distinct nodes" and "\<forall>n \<in> set nodes. n < length (sc_models sc)"
  shows "\<exists>sc'. UpdateMobility S V nodes dp dv dt (sc, w) =
      Inr (sc', snd (sim_schedule S dt (UserEvent (Update_mobility nodes dp dv dt)) w)) \<and>
    length (sc_models sc') = length (sc_models sc) \<and>
    (\<forall>n < length (sc_models sc). sc_models sc' ! n =
       (if n \<in> set nodes
        then \<lparr>m_position = v_plus V (m_position (sc_models sc ! n)) dp,
              m_velocity = v_plus V (m_velocity (sc_models sc ! n)) dv\<rparr>
        else sc_models sc ! n)) \<and>
    sc_reports sc' = sc_reports sc @
      map (\<lambda>n. (sim_now S w, n, m_position (sc_models sc' ! n), m_velocity (sc_models sc' ! n))) nodes"
proof -
  have "moved V dp dv m = \<lparr>m_position = v_plus V (m_position m) dp, m_velocity = v_plus V (m_velocity m) dv\<rparr>" for m
    by (cases m) (simp add: moved_def)
  with update_nodes_Inr[OF assms(1,4,3,2), of "sim_now S w" dp] show ?thesis
    by (auto simp: UpdateMobility_def)
qed

theorem UpdateMobility_moves_group_witness:
  "\<exists>sc' w'. UpdateMobility ref_sim int_vectors [1] (0, 0, 1) (0, 0, 1) (Seconds 1)
      (mobility_start int_vectors, ref_init 0) = Inr (sc', w') \<and>
    sc_models sc' ! 1 = \<lparr>m_position = (0, 0, 1), m_velocity = (0, 0, 1)\<rparr> \<and>
    sc_reports sc' = [(0, 1, (0, 0, 1), (0, 0, 1))]"
proof -
  have h: "v_neq int_vectors = (\<noteq>)" "\<forall>v. v_plus int_vectors v (0, 0, 1) \<noteq> v"
    "distinct [1 :: nat]" "\<forall>n \<in> set [1]. n < length (sc_models (mobility_start int_vectors))"
    by (auto simp: int_vectors_def mobility_start_def)
  have m: "sc_models (mobility_start int_vectors) ! 1 = \<lparr>m_position = (0, 0, 0), m_velocity = (0, 0, 0)\<rparr>"
    "length (sc_models (mobility_start int_vectors)) = 2" "sc_reports (mobility_start int_vectors) = []"
    by (simp_all add: mobility_start_def ExternalMobilityModel_new_def int_vectors_def DoSetPosition_def)
  have t: "sim_now ref_sim (ref_init 0) = 0" by (simp add: ref_sim_simps ref_init_def)
  have p: "v_plus int_vectors (0, 0, 0) (0, 0, 1) = (0, 0, 1)" by (simp add: int_vectors_def)
  obtain sc' where sc': "UpdateMobility ref_sim int_vectors [1] (0, 0, 1) (0, 0, 1) (Seconds 1)
      (mobility_start int_vectors, ref_init 0) =
        Inr (sc', snd (sim_schedule ref_sim (Seconds 1)
          (UserEvent (Update_mobility [1] (0, 0, 1) (0, 0, 1) (Seconds 1))) (ref_init 0)))"
    "\<forall>n < 2. sc_models sc' ! n = (if n \<in> set [1]
        then \<lparr>m_position = v_plus int_vectors (m_position (sc_models (mobility_start int_vectors) ! n)) (0, 0, 1),
              m_velocity = v_plus int_vectors (m_velocity (sc_models (mobility_start int_vectors) ! n)) (0, 0, 1)\<rparr>
        else sc_models (mobility_start int_vectors) ! n)"
    "sc_reports sc' = map (\<lambda>n. (0, n, m_position (sc_models sc' ! n), m_velocity (sc_models sc' ! n))) [1]"
    using UpdateMobility_moves_group[OF h, of ref_sim "(0, 0, 1)" "Seconds 1" "ref_init 0"]
    by (auto simp: m(2,3) t)
  have "sc_models sc' ! 1 = \<lparr>m_position = (0, 0, 1), m_velocity = (0, 0, 1)\<rparr>"
    using sc'(2)[rule_format, of 1] by (simp only: m(1) p mobility.simps) simp
  with sc'(1,3) show ?thesis by auto
qed

text \<open>The whole example program, run for its 10 seconds, reports group A every 2 seconds and group B
  every second, with the positions and velocities that its comments describe, and stops.\<close>

theorem mobility_example_reports:
  "mobility_reports (mobility_run ref_sim int_vectors 50 (ref_init 0)) =
     map (\<lambda>(t, n, p, v). (Seconds t, n, p, v))
       [(1, 1, (0, 0, 1), (0, 0, 1)), (2, 0, (1, 0, 0), (1, 0, 0)), (2, 1, (0, 0, 2), (0, 0, 2)),
        (3, 1, (0, 0, 3), (0, 0, 3)), (4, 0, (2, 0, 0), (2, 0, 0)), (4, 1, (0, 0, 4), (0, 0, 4)),
        (5, 1, (0, 0, 5), (0, 0, 5)), (6, 0, (3, 0, 0), (3, 0, 0)), (6, 1, (0, 0, 6), (0, 0, 6)),
        (7, 1, (0, 0, 7), (0, 0, 7)), (8, 0, (4, 0, 0), (4, 0, 0)), (8, 1, (0, 0, 8), (0, 0, 8)),
        (9, 1, (0, 0, 9), (0, 0, 9))]"
  by (simp add: ref_eval mobility_reports_def numeral_2_eq_2)

end
