(* ===== verification/Triggered_Send_Properties.thy ===== *)
theory Triggered_Send_Properties
  imports Triggered_Send_Example
begin

text \<open>
  The properties of the triggered send application, for every simulator and network library that
  meet their contracts, with every order of calls and events. The witnesses run an application on
  the reference platform.
\<close>

section \<open>A concrete application\<close>

lemma max_word_u32: "(- 1 :: u32) = 4294967295"
  by simp

type_synonym ref_app = "(nat \<times> nat, string, nat) tsa"
type_synonym ref_app_state = "ref_app \<times> example_event callback ref_world \<times> time list"

text \<open>It sends to an IPv4 address, and has the default attributes.\<close>

definition ref_app0 :: ref_app where
  "ref_app0 = \<lparr>m_local = (0, 0), m_peer = (1, 2), m_socketTypeId = ''ns3::UdpSocketFactory'',
     m_socket_tsa = None, m_connected = False, m_tos = 0, m_packetInterval = MilliSeconds 100,
     m_packetSize = 512, m_packetCount = 0, m_sendPacketEvent = None\<rparr>"

definition ref_state0 :: ref_app_state where
  "ref_state0 = (ref_app0, ref_init 0, [])"

declare app_exec_def [ref_eval] ref_app0_def [ref_eval] ref_state0_def [ref_eval]

lemma ref_app0_installed:
  "helper_install ref_net (TriggeredSendHelper_new ''ns3::UdpSocketFactory'' (1, 2)) = Inr ref_app0"
  by (simp add: ref_eval)

lemma ref_app_initial: "app_initial ref_cal ref_valid ref_net 0 ref_state0"
proof -
  have "ref_cal (ref_init 0 :: example_event callback ref_world) =
      \<lparr>cal_now = 0, cal_events = [], cal_destroy = [], cal_used = {}, cal_stopped = False\<rparr>"
    by (simp add: ref_cal_def ref_init_def lessThan_def)
  then show ?thesis
    using ref_app0_installed by (auto simp: app_initial_def ref_state0_def)
qed

text \<open>Started, asked for 3 packets at time 0, with the request and the first packet executed.\<close>

definition ref_labels :: "app_label list" where
  "ref_labels = [Do_Start, Do_Send 3, Run_Request 3, Run_Packet]"

definition ref_state1 :: ref_app_state where
  "ref_state1 =
    (ref_app0\<lparr>m_socket_tsa := Some 7, m_connected := True, m_packetCount := 2, m_sendPacketEvent := Some 2\<rparr>,
     (ref_init 0)\<lparr>rw_uid := 3, rw_events := [(2, 100000000, AppSendPacket 0)], rw_packets := [(0, 512)]\<rparr>,
     [0])"

lemma ref_labels_exec: "app_execs ref_sim ref_net 0 ref_labels ref_state0 = Some ref_state1"
  by (simp add: ref_eval ref_labels_def ref_state1_def)

lemma ref_labels_run: "app_run ref_sim ref_cal ref_valid ref_net 0 ref_state0 ref_labels ref_state1"
  by (rule app_execs_run[OF ref_labels_exec])

section \<open>The specification\<close>

text \<open>C16: The application implements its specification: in every run of a new application, whatever
  functions are called and whatever other events the simulation executes, each step changes
  the abstract state (idle, or a number of packets left and the time of the next one) and the list
  of sending times exactly as the state machine \<open>spec_step\<close> does.\<close>

theorem application_refines_specification:
  assumes "network S cal valid N" and "app_initial cal valid N i s0"
    and "app_run S cal valid N i s0 ls (a, w, ts)"
    and "app_step S cal valid N i (a, w, ts) l (a', w', ts')"
  shows "abstract cal i (a', w', ts') =
    spec_step (m_packetInterval a) (ready a) (step_time S w l) l (abstract cal i (a, w, ts))"
  using network.app_step_refines[OF assms(1) conjunct1[OF network.app_run_ok[OF assms(1,3)
        network.app_initial_ok(1)[OF assms(1,2)]]] assms(4)] by blast

lemma ref_packet_step:
  "app_step ref_sim ref_cal ref_valid ref_net 0 ref_state1 Run_Packet
    (ref_app0\<lparr>m_socket_tsa := Some 7, m_connected := True, m_packetCount := 1, m_sendPacketEvent := Some 3\<rparr>,
     (ref_init 100000000)\<lparr>rw_uid := 4, rw_events := [(3, 200000000, AppSendPacket 0)],
       rw_packets := [(0, 512), (100000000, 512)]\<rparr>,
     [0, 100000000])"
  by (rule app_exec_step) (simp add: ref_eval ref_state1_def)

theorem application_refines_specification_witness:
  "spec_step (MilliSeconds 100) True 0 Run_Packet (abstract ref_cal 0 ref_state1) =
     (Sending 1 (MilliSeconds 200), [0, MilliSeconds 100])"
proof -
  note w = ref_packet_step[unfolded ref_state1_def]
  from application_refines_specification[OF ref_network.network_axioms ref_app_initial
      ref_labels_run[unfolded ref_state1_def] w]
  show ?thesis
    by (simp add: abstract_def sender_of_def send_due_def ref_cal_def ref_state1_def ready_def step_time_def
        ref_app0_def ref_init_def MilliSeconds_def ref_sim_simps)
qed

text \<open>C24: \<open>SendPacket\<close> is safe: whenever the simulator executes it, in any run, the assertion that its own
  event has expired holds and the socket is not null, so the call returns.\<close>

theorem SendPacket_never_fails:
  assumes "network S cal valid N" and "app_initial cal valid N i s0"
    and "app_run S cal valid N i s0 ls (a, w, ts)"
    and "sim_next S w = Some (AppSendPacket i, w1)"
  shows "\<exists>s'. SendPacket S N i (a, w1) = Inr s'"
  by (rule network.SendPacket_no_fault[OF assms(1,3) network.app_initial_ok(1)[OF assms(1,2)] assms(4)])

theorem SendPacket_never_fails_witness:
  "\<exists>s'. SendPacket ref_sim ref_net 0 (fst ref_state1, (fst (snd ref_state1))\<lparr>rw_now := 100000000, rw_events := []\<rparr>) = Inr s'"
proof -
  have "sim_next ref_sim (fst (snd ref_state1)) =
      Some (AppSendPacket 0, (fst (snd ref_state1))\<lparr>rw_now := 100000000, rw_events := []\<rparr>)"
    by (simp add: ref_eval ref_state1_def)
  with SendPacket_never_fails[OF ref_network.network_axioms ref_app_initial, of ref_labels "fst ref_state1"
      "fst (snd ref_state1)" "snd (snd ref_state1)"] ref_labels_run show ?thesis by simp
qed

text \<open>C23: The packet interval is kept between two cancellations: when a packet has been sent in any run
  of a new application, and after it whatever functions are called and events executed except a
  start, a stop or the disposal, then the simulator does not execute \<open>SendPacket\<close> again before one
  \<open>m_packetInterval\<close> is over, however many requests come in between. (After a stop or a start
  the first packet of the next request is sent at once.)\<close>

theorem packets_are_spaced:
  assumes "network S cal valid N" and "app_initial cal valid N i s0"
    and "app_run S cal valid N i s0 ls (a, w, ts)"
    and "sim_next S w = Some (AppSendPacket i, w1)" and "0 < m_packetCount a"
    and "SendPacket S N i (a, w1) = Inr (a', w')"
    and "app_run S cal valid N i (a', w', ts') ls' (a2, w2, ts2)" and "\<forall>l \<in> set ls'. \<not> cancelling l"
    and "sim_next S w2 = Some (AppSendPacket i, w3)"
  shows "sim_now S w1 + m_packetInterval a \<le> sim_now S w3"
proof -
  note net = assms(1)
  have ok: "state_ok cal valid i (a, w, ts)"
    using network.app_run_ok[OF net assms(3) network.app_initial_ok(1)[OF assms(1,2)]] by simp
  from network.packet_holds[OF net ok assms(4,6,5)] have ok': "state_ok cal valid i (a', w', ts')"
    and h: "held_until (sim_now S w1 + m_packetInterval a) (cal_now (cal w'))
      (fst (abstract cal i (a', w', ts')))" by simp_all
  from network.app_run_held[OF net assms(7) ok' _ assms(8)] h
  have h2: "held_until (sim_now S w1 + m_packetInterval a) (cal_now (cal w2)) (sender_of i a2 (cal w2))"
    by (simp add: abstract_def)
  have ok2: "valid w2" "app_ok i a2 (cal w2)"
    using network.app_run_ok[OF net assms(7) ok'] by (simp_all add: state_ok_def)
  from network.packet_popped[OF net ok2 assms(9)] have w3: "valid w3"
    "send_due i (cal w2) = Some (cal_now (cal w3))" by blast+
  with h2 show ?thesis
    by (simp add: sender_of_def event_simulator.now[OF network.axioms(1)[OF net] w3(1)])
qed

text \<open>The packet at time 0, a request for 9 packets right after it, and the next packet.\<close>

definition ref_requested :: ref_app_state where
  "ref_requested =
    (ref_app0\<lparr>m_socket_tsa := Some 7, m_connected := True, m_packetCount := 3, m_sendPacketEvent := Some 1\<rparr>,
     (ref_init 0)\<lparr>rw_uid := 2, rw_events := [(1, 0, AppSendPacket 0)]\<rparr>, [])"

definition ref_interrupted :: ref_app_state where
  "ref_interrupted =
    (ref_app0\<lparr>m_socket_tsa := Some 7, m_connected := True, m_packetCount := 9, m_sendPacketEvent := Some 2\<rparr>,
     (ref_init 0)\<lparr>rw_uid := 4, rw_events := [(2, 100000000, AppSendPacket 0)], rw_packets := [(0, 512)]\<rparr>,
     [0])"

lemma ref_requested_run:
  "app_run ref_sim ref_cal ref_valid ref_net 0 ref_state0 [Do_Start, Do_Send 3, Run_Request 3] ref_requested"
  by (rule app_execs_run) (simp add: ref_eval ref_requested_def)

lemma ref_interrupted_run:
  "app_run ref_sim ref_cal ref_valid ref_net 0 ref_state1 [Do_Send 9, Run_Request 9] ref_interrupted"
  by (rule app_execs_run) (simp add: ref_eval ref_state1_def ref_interrupted_def)

theorem packets_are_spaced_witness:
  "app_run ref_sim ref_cal ref_valid ref_net 0 ref_state1 [Do_Send 9, Run_Request 9] ref_interrupted \<and>
   (\<exists>w3. sim_next ref_sim (fst (snd ref_interrupted)) = Some (AppSendPacket 0, w3) \<and>
     last (snd (snd ref_interrupted)) + m_packetInterval (fst ref_interrupted) \<le> sim_now ref_sim w3)"
proof -
  let ?w1 = "(fst (snd ref_requested))\<lparr>rw_events := []\<rparr>"
  have n1: "sim_next ref_sim (fst (snd ref_requested)) = Some (AppSendPacket 0, ?w1)"
    by (simp add: ref_eval ref_requested_def)
  have c: "0 < m_packetCount (fst ref_requested)" by (simp add: ref_requested_def)
  have p: "SendPacket ref_sim ref_net 0 (fst ref_requested, ?w1) = Inr (fst ref_state1, fst (snd ref_state1))"
    by (simp add: ref_eval ref_requested_def ref_state1_def)
  obtain w3 where n2: "sim_next ref_sim (fst (snd ref_interrupted)) = Some (AppSendPacket 0, w3)"
    by (simp add: ref_eval ref_interrupted_def)
  have r: "app_run ref_sim ref_cal ref_valid ref_net 0
      (fst ref_state1, fst (snd ref_state1), snd (snd ref_state1)) [Do_Send 9, Run_Request 9]
      (fst ref_interrupted, fst (snd ref_interrupted), snd (snd ref_interrupted))"
    using ref_interrupted_run by simp
  have r0: "app_run ref_sim ref_cal ref_valid ref_net 0 ref_state0 [Do_Start, Do_Send 3, Run_Request 3]
      (fst ref_requested, fst (snd ref_requested), snd (snd ref_requested))"
    using ref_requested_run by simp
  from packets_are_spaced[OF ref_network.network_axioms ref_app_initial r0 n1 c p r _ n2]
  have "sim_now ref_sim ?w1 + m_packetInterval (fst ref_requested) \<le> sim_now ref_sim w3" by simp
  moreover have "sim_now ref_sim ?w1 = last (snd (snd ref_interrupted))"
    "m_packetInterval (fst ref_requested) = m_packetInterval (fst ref_interrupted)"
    by (simp_all add: ref_requested_def ref_interrupted_def ref_sim_simps ref_init_def)
  ultimately show ?thesis using ref_interrupted_run n2 by simp
qed

text \<open>C25: A request that nothing interrupts is carried out exactly: with \<open>n\<close> packets left and the next
  one due at \<open>t\<close>, in any later state without another request or a cancellation, some \<open>k\<close> packets
  have been sent, at \<open>t\<close>, \<open>t\<close> plus one interval and so on, the other ones are still to come in the
  same rhythm, and when the application is idle again all \<open>n\<close> have been sent and one more
  interval is over. As long as it is not idle the clock cannot pass the next packet.\<close>

theorem uninterrupted_request:
  assumes "network S cal valid N" and "app_initial cal valid N i s0"
    and "app_run S cal valid N i s0 ls (a, w, ts)" and "sender_of i a (cal w) = Sending n t"
    and "app_run S cal valid N i (a, w, ts) ls' (a', w', ts')"
    and "\<forall>l \<in> set ls'. (\<forall>m. l \<noteq> Run_Request m) \<and> \<not> cancelling l"
  shows "(\<exists>k \<le> n. sender_of i a' (cal w') = Sending (n - k) (t + int k * m_packetInterval a) \<and>
      ts' = ts @ map (\<lambda>j. t + int j * m_packetInterval a) [0..<k] \<and>
      sim_now S w' \<le> t + int k * m_packetInterval a) \<or>
    sender_of i a' (cal w') = Idle \<and> ts' = ts @ map (\<lambda>j. t + int j * m_packetInterval a) [0..<n] \<and>
      t + int n * m_packetInterval a \<le> sim_now S w'"
proof -
  note ok0 = network.app_initial_ok(1)[OF assms(1,2)]
  have ok: "state_ok cal valid i (a, w, ts)" using network.app_run_ok[OF assms(1,3) ok0] by simp
  have "abstract cal i (a, w, ts) = (Sending n t, ts)" using assms(4) by (simp add: abstract_def)
  from network.app_run_burst[OF assms(1,5) ok this assms(6)]
  have b: "burst_state (m_packetInterval a) t n ts (cal_now (cal w')) (sender_of i a' (cal w'), ts')"
    by (simp add: abstract_def)
  have v: "valid w'" using network.app_run_ok[OF assms(1,5) ok] by (simp add: state_ok_def)
  have now: "sim_now S w' = cal_now (cal w')"
    using event_simulator.now[OF network.axioms(1)[OF assms(1)] v] .
  from b network.sender_not_late[OF assms(1) v] show ?thesis
    unfolding burst_state_def burst_def now by fastforce
qed

theorem uninterrupted_request_witness:
  "(\<exists>k \<le> 2. sender_of 0 (fst ref_state1) (ref_cal (fst (snd ref_state1))) =
      Sending (2 - k) (MilliSeconds 100 + int k * MilliSeconds 100)) \<or>
   sender_of 0 (fst ref_state1) (ref_cal (fst (snd ref_state1))) = Idle"
proof -
  let ?a = "fst ref_state1" and ?w = "fst (snd ref_state1)" and ?ts = "snd (snd ref_state1)"
  have r: "app_run ref_sim ref_cal ref_valid ref_net 0 ref_state0 ref_labels (?a, ?w, ?ts)"
    using ref_labels_run by simp
  have s: "sender_of 0 ?a (ref_cal ?w) = Sending 2 (MilliSeconds 100)"
    by (simp add: sender_of_def send_due_def ref_cal_def ref_state1_def MilliSeconds_def)
  have i: "m_packetInterval ?a = MilliSeconds 100" by (simp add: ref_state1_def ref_app0_def)
  from uninterrupted_request[OF ref_network.network_axioms ref_app_initial r s app_run.none] show ?thesis
    unfolding i by auto
qed

text \<open>C37: After a stop, a start or the disposal, nothing is sent until the next request: in every run that
  goes on without a request, whatever else is called and executed, \<open>SendPacket\<close> is not executed and
  is not pending at its end either.\<close>

theorem idle_until_request:
  assumes "network S cal valid N" and "app_initial cal valid N i s0"
    and "app_run S cal valid N i s0 ls (a, w, ts)"
    and "app_step S cal valid N i (a, w, ts) l s1" and "cancelling l"
    and "app_run S cal valid N i s1 ls' (a2, w2, ts2)" and "\<forall>l \<in> set ls'. \<forall>n. l \<noteq> Run_Request n"
  shows "Run_Packet \<notin> set ls' \<and> (\<forall>v \<in> set (cal_events (cal w2)). ev_call v \<noteq> AppSendPacket i)"
proof -
  note ok0 = network.app_initial_ok(1)[OF assms(1,2)]
  have ok: "state_ok cal valid i (a, w, ts)" using network.app_run_ok[OF assms(1,3) ok0] by simp
  obtain a1 w1 ts1 where s1: "s1 = (a1, w1, ts1)" by (cases s1)
  from network.app_step_refines[OF assms(1) ok assms(4)[unfolded s1]]
  have ok1: "state_ok cal valid i s1"
    and "abstract cal i s1 = spec_step (m_packetInterval a) (ready a) (step_time S w l) l (abstract cal i (a, w, ts))"
    by (simp_all add: s1)
  then have "fst (abstract cal i s1) = Idle" using assms(5) by (cases l) simp_all
  from network.idle_run[OF assms(1,6) ok1 this assms(7)] show ?thesis
    by (auto simp: abstract_def sender_of_def send_due_None split: option.splits)
qed

theorem idle_until_request_witness:
  "\<exists>w2. app_run ref_sim ref_cal ref_valid ref_net 0 ref_state1 [Do_Stop, Do_Send 4, Do_Start]
      (fst ref_state1, w2, []) \<and>
     map (\<lambda>v. ev_call v) (rw_events (fst (snd ref_state1))) = [AppSendPacket 0] \<and>
     (\<forall>v \<in> set (rw_events w2). ev_call v \<noteq> AppSendPacket 0)"
proof -
  let ?a = "fst ref_state1" and ?w = "fst (snd ref_state1)" and ?ts = "snd (snd ref_state1)"
  let ?run = "app_run ref_sim ref_cal ref_valid ref_net 0"
  have r: "?run ref_state0 ref_labels (?a, ?w, ?ts)" using ref_labels_run by simp
  obtain s1 where s1: "app_exec ref_sim ref_net 0 Do_Stop (?a, ?w, ?ts) = Some s1"
    by (simp add: ref_eval ref_state1_def)
  have "\<exists>w2. app_execs ref_sim ref_net 0 [Do_Stop, Do_Send 4, Do_Start] (?a, ?w, ?ts) = Some (?a, w2, [])"
    by (simp add: ref_eval ref_state1_def)
  then obtain w2 where s2:
    "app_execs ref_sim ref_net 0 [Do_Stop, Do_Send 4, Do_Start] (?a, ?w, ?ts) = Some (?a, w2, [])" ..
  from s2 s1 have "app_execs ref_sim ref_net 0 [Do_Send 4, Do_Start] s1 = Some (?a, w2, [])" by simp
  note r2 = app_execs_run[OF this]
  have "\<forall>v \<in> set (cal_events (ref_cal w2)). ev_call v \<noteq> AppSendPacket 0"
    using idle_until_request[OF ref_network.network_axioms ref_app_initial r app_exec_step[OF s1] _ r2] by simp
  then have idle: "\<forall>v \<in> set (rw_events w2). ev_call v \<noteq> AppSendPacket 0" by (simp add: ref_cal_def)
  have run: "?run ref_state1 [Do_Stop, Do_Send 4, Do_Start] (?a, w2, [])" using app_execs_run[OF s2] by simp
  have due: "map (\<lambda>v. ev_call v) (rw_events ?w) = [AppSendPacket 0]" by (simp add: ref_state1_def)
  show ?thesis by (rule exI[of _ w2]) (intro conjI run due idle)
qed

section \<open>Single functions\<close>

text \<open>C32: What can be installed is well formed: whatever attributes the helper sets, an application that is
  created has no socket, is not connected, has nothing scheduled, sends packets of at least one byte
  and has an interval that is not negative. (It can be zero: the checker's minimum of a
  femtosecond is zero nanoseconds.)\<close>

theorem installed_application:
  assumes "helper_install N (TriggeredSendHelper_new protocol address @ attributes) = Inr a"
  shows "m_socket_tsa a = None \<and> \<not> m_connected a \<and> m_packetCount a = 0 \<and>
    m_sendPacketEvent a = None \<and> 1 \<le> m_packetSize a \<and> 0 \<le> m_packetInterval a"
  using helper_install_fresh[OF assms] by (simp add: fresh_app_def)

theorem installed_application_witness:
  "m_socket_tsa ref_app0 = None \<and> 1 \<le> m_packetSize ref_app0"
  using installed_application[of _ _ _ "[]", unfolded append_Nil2, OF ref_app0_installed] by blast

text \<open>C35: \<open>StartApplication\<close> on an application without a socket returns exactly when the remote address
  is valid, the two addresses do not have different IP versions, \<open>Bind\<close> (with a local address),
  \<open>Bind6\<close> (IPv6) or \<open>Bind\<close> (IPv4 or a packet socket) succeeds, and the connection does not fail at
  once. Then the new socket is stored, and nothing else changes in the object but the connected flag.
  Otherwise the program ends with the error of the first condition that does not hold.\<close>

theorem StartApplication_result:
  assumes "m_socket_tsa a = None" and "create_socket N (m_socketTypeId a) w = (sock, w1)"
    and "(if \<not> is_invalid N (m_local a) then sock_bind_to N sock (m_local a) w1
       else if is_inet6 N (m_peer a) then sock_bind6 N sock w1 else sock_bind N sock w1) = (r, w2)"
    and "sock_connect N sock (m_peer a)
      (if is_inet N (m_peer a) then set_ip_tos N sock (m_tos a) (set_connect_callback N sock i w2)
       else set_connect_callback N sock i w2) = (c, w3)"
  shows "((\<exists>s'. StartApplication S N i (a, w) = Inr s') \<longleftrightarrow>
      \<not> is_invalid N (m_peer a) \<and>
      (if is_invalid N (m_local a)
       then is_inet6 N (m_peer a) \<or> is_inet N (m_peer a) \<or> is_packet_socket N (m_peer a)
       else \<not> (is_inet N (m_peer a) \<and> is_inet6 N (m_local a)) \<and>
         \<not> (is_inet6 N (m_peer a) \<and> is_inet N (m_local a))) \<and>
      r \<noteq> -1 \<and> c \<noteq> Some False) \<and>
    (\<forall>a' w'. StartApplication S N i (a, w) = Inr (a', w') \<longrightarrow>
      a' = a\<lparr>m_socket_tsa := Some sock, m_connected := m_connected a \<or> c = Some True\<rparr>) \<and>
    (\<forall>x. StartApplication S N i (a, w) = Inl x \<longrightarrow>
      x = (if is_invalid N (m_peer a) then Abort ''Remote attribute not properly set''
           else if \<not> is_invalid N (m_local a) \<and>
             (is_inet N (m_peer a) \<and> is_inet6 N (m_local a) \<or> is_inet6 N (m_peer a) \<and> is_inet N (m_local a))
           then Abort ''Incompatible peer and local address IP version''
           else if r = -1 \<or> is_invalid N (m_local a) \<and> \<not> is_inet6 N (m_peer a) \<and>
             \<not> is_inet N (m_peer a) \<and> \<not> is_packet_socket N (m_peer a)
           then Fatal ''Failed to bind socket'' else Fatal ''Socket failed to connect.''))"
proof (cases "well_addressed N (m_peer a) (m_local a)")
  case False
  then show ?thesis using assms(1,2)
    by (auto simp: StartApplication_def bind_socket_def well_addressed_def split: if_splits)
next
  case True
  let ?a = "a\<lparr>m_socket_tsa := Some sock\<rparr>"
  from True have v: "\<not> is_invalid N (m_peer a)" by (simp add: well_addressed_def)
  from True assms(3) have b: "bind_socket N ?a sock w1 = Inr (r, w2)"
    by (auto simp: bind_socket_def well_addressed_def)
  show ?thesis
  proof (cases "r = -1")
    case r: True
    with True b v assms(1,2) show ?thesis
      by (simp add: StartApplication_def) (auto simp: well_addressed_def split: if_splits)
  next
    case r: False
    have "StartApplication S N i (a, w) =
        (if c = Some False then Inl (Fatal ''Socket failed to connect.'')
         else Inr (CancelEvents S (a\<lparr>m_socket_tsa := Some sock, m_connected := m_connected a \<or> c = Some True\<rparr>,
           shutdown_recv N sock (set_allow_broadcast N sock w3))))"
      using r b v assms(1,2,4) by (cases "c = None")
        (auto simp: StartApplication_def Let_def ConnectionFailed_def ConnectionSucceeded_def
          split: option.splits bool.splits)
    with r True show ?thesis
      by (auto simp: CancelEvents_def well_addressed_def split: if_splits)
  qed
qed

theorem StartApplication_result_witness:
  "(\<exists>s'. StartApplication ref_sim ref_net 0 (ref_app0, ref_init 0 :: example_event callback ref_world) = Inr s') \<and>
   StartApplication ref_sim ref_net 0 (ref_app0\<lparr>m_local := (2, 9)\<rparr>, ref_init 0 :: example_event callback ref_world) =
     Inl (Abort ''Incompatible peer and local address IP version'')"
proof -
  let ?b = "ref_app0\<lparr>m_local := (2, 9)\<rparr>" and ?w = "ref_init 0 :: example_event callback ref_world"
  have n: "m_socket_tsa ref_app0 = None" "m_socket_tsa ?b = None"
    "create_socket ref_net (m_socketTypeId ref_app0) ?w = (7, ?w)"
    "create_socket ref_net (m_socketTypeId ?b) ?w = (7, ?w)"
    by (simp_all add: ref_app0_def ref_net_def)
  have "\<exists>s'. StartApplication ref_sim ref_net 0 (ref_app0, ?w) = Inr s'"
    using StartApplication_result[OF n(1,3), of 0 ?w 0 "Some True" ?w ref_sim]
    by (simp add: ref_app0_def ref_net_def)
  moreover have "\<not> (\<exists>s'. StartApplication ref_sim ref_net 0 (ref_app0\<lparr>m_local := (2, 9)\<rparr>, ?w) = Inr s')"
    and "\<forall>x. StartApplication ref_sim ref_net 0 (ref_app0\<lparr>m_local := (2, 9)\<rparr>, ?w) = Inl x \<longrightarrow>
      x = Abort ''Incompatible peer and local address IP version''"
    using StartApplication_result[OF n(2,4), of 0 ?w 0 "Some True" ?w ref_sim]
    by (simp_all add: ref_app0_def ref_net_def)
  ultimately show ?thesis by (cases "StartApplication ref_sim ref_net 0 (?b, ?w)") simp_all
qed

text \<open>C36: In every run of a new application, whatever functions are called and events executed, there
  is a socket only if the remote address is valid, the local address has no other IP version, and,
  without a local address, the remote address is an IPv4, IPv6 or packet socket address; so
  \<open>SendPacket\<close> never runs with other addresses.\<close>

theorem sockets_are_well_addressed:
  assumes "network S cal valid N" and "app_initial cal valid N i s0"
    and "app_run S cal valid N i s0 ls (a, w, ts)"
    and "m_socket_tsa a \<noteq> None \<or> (\<exists>w1. sim_next S w = Some (AppSendPacket i, w1))"
  shows "\<not> is_invalid N (m_peer a) \<and>
    (is_invalid N (m_local a) \<longrightarrow>
      is_inet6 N (m_peer a) \<or> is_inet N (m_peer a) \<or> is_packet_socket N (m_peer a)) \<and>
    (\<not> is_invalid N (m_local a) \<longrightarrow>
      \<not> (is_inet N (m_peer a) \<and> is_inet6 N (m_local a)) \<and> \<not> (is_inet6 N (m_peer a) \<and> is_inet N (m_local a)))"
proof -
  have ok: "valid w" "app_ok i a (cal w)"
    using network.app_run_ok[OF assms(1,3) network.app_initial_ok(1)[OF assms(1,2)]]
    by (simp_all add: state_ok_def)
  have "m_socket_tsa a \<noteq> None" using assms(4) network.packet_popped[OF assms(1) ok] by blast
  moreover have "m_socket_tsa (fst s0) = None"
    using assms(2) helper_install_fresh by (fastforce simp: app_initial_def fresh_app_def)
  from app_run_addressed[OF assms(3) this] have "m_peer a = m_peer (fst s0)" "m_local a = m_local (fst s0)"
    "m_socket_tsa a \<noteq> None \<longrightarrow> well_addressed N (m_peer (fst s0)) (m_local (fst s0))" by simp_all
  ultimately show ?thesis by (simp add: well_addressed_def split: if_splits)
qed

theorem sockets_are_well_addressed_witness:
  "m_socket_tsa (fst ref_state1) = Some 7 \<and> \<not> is_invalid (ref_net :: (_, _, _, example_event callback ref_world) net_ops) (m_peer (fst ref_state1)) \<and>
   (is_inet6 (ref_net :: (_, _, _, example_event callback ref_world) net_ops) (m_peer (fst ref_state1)) \<or>
    is_inet (ref_net :: (_, _, _, example_event callback ref_world) net_ops) (m_peer (fst ref_state1)) \<or>
    is_packet_socket (ref_net :: (_, _, _, example_event callback ref_world) net_ops) (m_peer (fst ref_state1)))"
proof -
  have r: "app_run ref_sim ref_cal ref_valid ref_net 0 ref_state0 ref_labels
      (fst ref_state1, fst (snd ref_state1), snd (snd ref_state1))" using ref_labels_run by simp
  have s: "m_socket_tsa (fst ref_state1) = Some 7" by (simp add: ref_state1_def)
  have l: "is_invalid (ref_net :: (_, _, _, example_event callback ref_world) net_ops) (m_local (fst ref_state1))"
    by (simp add: ref_state1_def ref_app0_def ref_net_def)
  from sockets_are_well_addressed[OF ref_network.network_axioms ref_app_initial r] s l show ?thesis by simp
qed

text \<open>C40: A restart does not open a new socket: \<open>StopApplication\<close> closes the socket of a connected
  application but keeps the pointer and the flag, so the next \<open>StartApplication\<close> does nothing at
  all, in particular no bind and no connect. A request for packets is still accepted and schedules
  \<open>SendPacket\<close> for now, and \<open>SendPacket\<close> calls \<open>Socket::Send\<close> on the closed socket (\<open>send_one\<close>); when
  that call fails with -1, the packet counts as sent all the same, without any trace.\<close>

theorem restart_keeps_closed_socket:
  assumes "network S cal valid N" and "app_initial cal valid N i s0"
    and "app_run S cal valid N i s0 ls (a, w, ts)" and "m_socket_tsa a = Some sock" and "m_connected a"
    and "0 < n" and "m_packetSize a \<noteq> 4294967295"
  shows "\<exists>w1 e w2.
    StopApplication S N (a, w) = (a, w1) \<and> w1 = sock_close N sock (snd (CancelEvents S (a, w))) \<and>
    StartApplication S N i (a, w1) = Inr (a, w1) \<and>
    ProcessSendRequest S i n (a, w1) = (a\<lparr>m_packetCount := n, m_sendPacketEvent := Some e\<rparr>, w2) \<and>
    (e, sim_now S w1, AppSendPacket i) \<in> set (cal_events (cal w2)) \<and>
    (\<forall>w3 e' w4. \<not> sim_pending S e w3 \<longrightarrow>
      sim_schedule S (m_packetInterval a) (AppSendPacket i)
        (send_one N i (a\<lparr>m_packetCount := n, m_sendPacketEvent := Some e\<rparr>) sock w3) = (e', w4) \<longrightarrow>
      SendPacket S N i (a\<lparr>m_packetCount := n, m_sendPacketEvent := Some e\<rparr>, w3) =
        Inr (a\<lparr>m_packetCount := n - 1, m_sendPacketEvent := Some e'\<rparr>, w4)) \<and>
    (\<forall>w3 w4. sock_send N sock (m_packetSize a) w3 = (-1, w4) \<longrightarrow>
      send_one N i (a\<lparr>m_packetCount := n, m_sendPacketEvent := Some e\<rparr>) sock w3 = w4)"
proof -
  note net = assms(1)
  note sim = network.axioms(1)[OF net]
  have ok: "valid w" "app_ok i a (cal w)"
    using network.app_run_ok[OF net assms(3) network.app_initial_ok(1)[OF assms(1,2)]]
    by (simp_all add: state_ok_def)
  define w1 where "w1 = sock_close N sock (snd (CancelEvents S (a, w)))"
  have stop: "StopApplication S N (a, w) = (a, w1)"
    using assms(4) by (simp add: StopApplication_def w1_def CancelEvents_def)
  from network.StopApplication_ok[OF net ok stop] have
    s1: "valid w1" "app_ok i a (cal w1)" "send_due i (cal w1) = None" by blast+
  with network.pending_iff_due[OF net s1(1,2)] have np: "\<not> is_pending S (m_sendPacketEvent a) w1" by simp
  then have start: "StartApplication S N i (a, w1) = Inr (a, w1)"
    using assms(4) by (simp add: StartApplication_def CancelEvents_def)
  obtain e w2 where sc: "sim_schedule_now S (AppSendPacket i) w1 = (e, w2)" by fastforce
  then have req: "ProcessSendRequest S i n (a, w1) =
      (a\<lparr>m_packetCount := n, m_sendPacketEvent := Some e\<rparr>, w2)"
    using np assms(4,5) by (simp add: ProcessSendRequest_def)
  from event_simulator.schedule_now[OF sim s1(1) sc]
  have "cal w2 = cal_schedule e 0 (AppSendPacket i) (cal w1)" by blast
  then have due: "(e, sim_now S w1, AppSendPacket i) \<in> set (cal_events (cal w2))"
    by (simp add: event_simulator.now[OF sim s1(1)] cal_schedule_def)
  have send: "SendPacket S N i (a\<lparr>m_packetCount := n, m_sendPacketEvent := Some e\<rparr>, w3) =
      Inr (a\<lparr>m_packetCount := n - 1, m_sendPacketEvent := Some e'\<rparr>, w4)"
    if "\<not> sim_pending S e w3" and "sim_schedule S (m_packetInterval a) (AppSendPacket i)
      (send_one N i (a\<lparr>m_packetCount := n, m_sendPacketEvent := Some e\<rparr>) sock w3) = (e', w4)" for w3 e' w4
    using that assms(4,6) by (simp add: SendPacket_def is_pending_def)
  have lost: "send_one N i (a\<lparr>m_packetCount := n, m_sendPacketEvent := Some e\<rparr>) sock w3 = w4"
    if "sock_send N sock (m_packetSize a) w3 = (-1, w4)" for w3 w4
    using that assms(7) by (simp add: send_one_def max_word_u32 eq_commute[of _ "m_packetSize a"])
  show ?thesis
    by (intro exI[of _ w1] exI[of _ e] exI[of _ w2]) (use stop w1_def start req due send lost in blast)
qed

theorem restart_keeps_closed_socket_witness:
  "\<exists>w1 e w2. StopApplication ref_sim ref_net (fst ref_state1, fst (snd ref_state1)) = (fst ref_state1, w1) \<and>
     StartApplication ref_sim ref_net 0 (fst ref_state1, w1) = Inr (fst ref_state1, w1) \<and>
     ProcessSendRequest ref_sim 0 5 (fst ref_state1, w1) =
       ((fst ref_state1)\<lparr>m_packetCount := 5, m_sendPacketEvent := Some e\<rparr>, w2) \<and>
     (e, 0, AppSendPacket 0) \<in> set (rw_events w2)"
proof -
  let ?a = "fst ref_state1" and ?w = "fst (snd ref_state1)" and ?ts = "snd (snd ref_state1)"
  have r: "app_run ref_sim ref_cal ref_valid ref_net 0 ref_state0 ref_labels (?a, ?w, ?ts)"
    using ref_labels_run by simp
  have st: "m_socket_tsa ?a = Some 7" "m_connected ?a" "0 < (5 :: u32)" "m_packetSize ?a \<noteq> 4294967295"
    by (simp_all add: ref_state1_def ref_app0_def)
  from restart_keeps_closed_socket[OF ref_network.network_axioms ref_app_initial r st]
  obtain w1 e w2 where w: "StopApplication ref_sim ref_net (?a, ?w) = (?a, w1)"
    "w1 = sock_close ref_net 7 (snd (CancelEvents ref_sim (?a, ?w)))"
    "StartApplication ref_sim ref_net 0 (?a, w1) = Inr (?a, w1)"
    "ProcessSendRequest ref_sim 0 5 (?a, w1) = (?a\<lparr>m_packetCount := 5, m_sendPacketEvent := Some e\<rparr>, w2)"
    "(e, sim_now ref_sim w1, AppSendPacket 0) \<in> set (cal_events (ref_cal w2))" by blast
  have "sim_now ref_sim w1 = 0" unfolding w(2) by (simp add: ref_eval ref_state1_def)
  with w(5) have "(e, 0, AppSendPacket 0) \<in> set (rw_events w2)" by (simp add: ref_cal_def)
  with w(1,3,4) show ?thesis by blast
qed

text \<open>A packet that the socket does not accept is not traced but counts as sent: when \<open>Socket::Send\<close>
  returns the error -1, the trace sources are not called, unless \<open>PacketSize\<close> is 4294967295, since
  the result is compared as an unsigned number: then the failed packet is traced.\<close>

theorem failed_send:
  assumes "sock_send N sock (m_packetSize a) w = (-1, w1)"
  shows "send_one N i a sock w =
    (if m_packetSize a = 4294967295
     then tx_trace N i (m_packetSize a)
       (if is_inet N (m_peer a) \<or> is_inet6 N (m_peer a)
        then tx_trace_addresses N i (m_packetSize a) (sock_name N sock w1) (m_peer a) w1 else w1)
     else w1)"
proof -
  have w: "word_of_int (-1) = (4294967295 :: u32)" by (simp only: word_of_int_neg_1 max_word_u32)
  show ?thesis
    unfolding send_one_def assms prod.case w Let_def by (auto simp: eq_commute[of "4294967295"])
qed

theorem failed_send_witness:
  "send_one (ref_net\<lparr>sock_send := (\<lambda>s z w. (-1, w))\<rparr>) 0 ref_app0 7 (ref_init 0 :: example_event callback ref_world) =
     ref_init 0"
  using failed_send[of "ref_net\<lparr>sock_send := (\<lambda>s z w. (-1, w))\<rparr>" 7 ref_app0 "ref_init 0" "ref_init 0" 0]
  by (simp add: ref_app0_def)

end
