(* ===== verification/Spec2Isabelle.thy ===== *)
theory Spec2Isabelle
  imports Example_Completion Granted_Time Command_Lines Lock_Step_Properties Mobility_Properties
    Triggered_Send_Properties
begin

text \<open>
  A verification library for ns3-cosim, an ns-3 module that connects a simulation to an external
  program (the server, which leads) over a TCP connection. This theory only collects the others.

  The program. A \<open>Gateway\<close> (\<open>model/gateway.cc\<close>) is a client of the server. A receiving thread
  (\<open>RunThread\<close>) cuts the byte stream into messages at the message delimiter, queues them, and
  schedules one call of \<open>ForwardUp\<close> for each in the simulator's event loop. \<open>ForwardUp\<close> splits a
  message into fields, reads the time stamp, and schedules \<open>HandleUpdate\<close> for that time, relative
  to the first time stamp. \<open>WaitForNextUpdate\<close> is an event that schedules itself again at the
  current time: while it is pending the clock stands still, and a message of the server cancels it,
  so the simulation advances in lock step with the server. A derived class gets the data of the
  messages (\<open>DoInitialize\<close>, \<open>DoUpdate\<close>) and answers with \<open>SetValue\<close> and \<open>SendResponse\<close>. The
  module also has a mobility model that is set from outside (\<open>model/external-mobility-model.cc\<close>), an
  application that sends packets on request (\<open>model/triggered-send-application.cc\<close>), and example
  programs that put the parts together (\<open>examples\<close>).

  The theories, and the code that they model.

  \<^item> \<open>Prelude\<close>: machine integers, times (an \<open>ns3::Time\<close> is an integer of nanoseconds; where the code
    can leave 64 bits the model has the fault \<open>Undefined\<close>), faults as values (fatal errors, aborts,
    failed assertions, uncaught exceptions, undefined behaviour, endless loops), list lemmas, and the
    collection \<open>ref_eval\<close>, with which the simplifier runs the concrete scenarios.
  \<^item> \<open>Cpp_Strings\<close>: what the code uses of the C++ library on strings: \<open>find\<close>, \<open>stoi\<close>, \<open>stol\<close>,
    \<open>to_string\<close>, with the round trips and ranges.
  \<^item> \<open>Wire_Protocol\<close>: the loops of \<open>gateway.cc\<close> that split a message and build a response, and the
    specification of both as \<open>join\<close> and \<open>frames\<close>, the unique division of a stream into messages.
    The split loop is a partial function, so that its termination is a theorem.
  \<^item> \<open>Simulator\<close>, \<open>Platform\<close>: the interfaces to code that is not in the repository. The simulator and
    the sockets are records of functions on an arbitrary state; the locales \<open>event_simulator\<close> and
    \<open>gateway_platform\<close> state what ns-3 and POSIX document (events run in the order of time and, at
    the same time, of scheduling; cancelled events do not run; a socket call does not touch the
    events), over an abstract calendar. \<open>ref_sim\<close> and \<open>ref_os\<close> implement them, so the contracts can
    be met, and the witnesses run there.
  \<^item> \<open>Gateway\<close>: the class \<open>Gateway\<close>, one definition per member function, with its state as a record.
    \<open>Gateway_System\<close>: the two threads as a step relation \<open>gw_step\<close>: each step of \<open>RunThread\<close>
    between two accesses to shared state, each event of the main thread, and \<open>Stop\<close> in two
    parts around \<open>m_thread.join()\<close>. \<open>gw_exec\<close> is the same relation as a function. The locale
    \<open>gateway_host\<close> states what a derived class can do: anything but touch private members and
    schedule private member functions.
  \<^item> \<open>Gateway_Invariants\<close>, \<open>Gateway_Safety\<close>, \<open>Gateway_Stream\<close>, \<open>Gateway_Time\<close>: the invariants of the
    system (who owns the wait event, one \<open>ForwardUp\<close> event per queued message, when the clock is
    frozen, what the thread holds of the stream) and that every step keeps them.
    \<open>Gateway_Progress\<close>: the invariant for strictly increasing time stamps, under which no wait event
    holds the clock back from a granted time.
    \<open>Gateway_Data\<close>: the invariant that every pending update carries the data of a processed
    message and is pending for its time stamp. \<open>Gateway_Answers\<close>: the locale \<open>gateway_answers\<close> of derived
    classes that answer each update, and that every message is pending or answered.
    \<open>Gateway_Shutdown\<close>: what can stop a gateway in the event loop, and that no handler moves the clock.
    \<open>Lock_Step\<close>: the contract of all this as an abstract machine \<open>ls_step\<close> (a clock, the times that
    the server has granted, how many of them have been executed), and the simulation \<open>lock_abs\<close> of the
    system by it, for strictly increasing time stamps.
  \<^item> \<open>External_Mobility\<close>, \<open>External_Mobility_Example\<close>: the mobility model, with vectors as an interface
    \<open>vectors\<close> that floating-point vectors meet (\<open>!=\<close> need not be irreflexive), and its example.
  \<^item> \<open>Triggered_Send\<close>: the application, its attributes and helper, over the interface \<open>network\<close> of
    sockets. \<open>Triggered_Send_Refinement\<close>: its specification, a machine that is idle or has a number
    of packets left and a time for the next one, and the simulation. \<open>Triggered_Send_Example\<close>: the
    example program.
  \<^item> \<open>Simple_Gateway\<close>: the derived class of \<open>examples/simple-gateway.cc\<close>; \<open>simple_platform\<close> collects
    what it relies on and is a sublocale of \<open>gateway_host\<close>, so the gateway's properties hold for it.
    \<open>Simple_Server\<close>, \<open>Server_Run\<close>: the server of \<open>examples/simple-gateway-server.cc\<close> and its whole run
    with a client that answers (\<open>server_client\<close>); \<open>server_turns\<close> gives its variables after a number of
    turns. \<open>Server_Steps\<close>: its loop in atomic steps, with the proof that they are the loop. \<open>Simple_Cosim\<close>: their messages and data.
    \<open>Cosim_Run\<close>, \<open>Served_Gateway\<close>: the gateway's threads running on the bytes that the server sends.
    \<open>Simple_Program\<close>: the two \<open>main\<close> functions around them. \<open>Network_Setup\<close>: the nodes, channels,
    addresses and packet sinks of this program and of the triggered send example, over the helper
    classes of ns-3 (\<open>topology\<close>). \<open>Command_Lines\<close>: the variables and options of the two programs, with
    the reading of arguments by ns-3 as a parameter (\<open>command_line\<close>), and the gateway program whole.
  \<^item> \<open>Simple_Connection\<close>: the example's gateway on its socket, an instance of \<open>gateway_answers\<close>.
    \<open>Closed_Loop\<close>: server and gateway in a closed loop, \<open>cosim_exec\<close>: the bytes in transit in each
    direction are what one has sent and the other not received, and each \<open>recv\<close> gets any part of
    them. \<open>Closed_Loop_Properties\<close>: the invariant \<open>loop_inv\<close> of both programs, proved in the locale
    \<open>closed_loop\<close>, and its consequences.
  \<^item> \<open>Gateway_Eventually\<close>: that what has arrived is processed. The locale \<open>settling_host\<close> says that the
    events of the rest of the simulation settle (no infinite chain of them up to any time) and do not
    stop the simulator; then, while the thread waits in \<open>recv\<close>, finitely many events empty the queue and
    execute the updates. \<open>Cosim_Completion\<close>: the way from any state of the closed loop to its end, by
    the bytes in transit, the load of the gateway and the turns that are left. \<open>Simple_Responses\<close>: what
    the example answers, and how long it is. \<open>Settled_Platform\<close>: the applications on the reference
    platform settle. \<open>Lone_Gateway\<close>: without vehicles only the gateway schedules events.
    \<open>Granted_Time\<close>: under the same locale every pending update is reached, with the lemma that only
    its execution removes it. \<open>Example_Completion\<close>: the completion of the example's programs.
  \<^item> \<open>Gateway_Properties\<close>, \<open>Gateway_Functions\<close>, \<open>Gateway_Scenarios\<close>, \<open>Progress_Properties\<close>,
    \<open>Triggered_Send_Properties\<close>, \<open>Mobility_Properties\<close>, \<open>Cosim_Properties\<close>, \<open>Cosim_Run\<close>,
    \<open>Granted_Time\<close>, \<open>Closed_Loop_Properties\<close>, \<open>Simple_Responses\<close>, \<open>Example_Completion\<close>,
    \<open>Command_Lines\<close>, \<open>Lock_Step_Properties\<close>: the properties, each with a number, a text and, where it has hypotheses,
    a witness that applies it on the reference platform.

  What the properties show. For the running gateway: the clock moves only when the server has
  granted it and never past the granted time, the event loop waits instead of running out of events,
  the stream is reassembled however it arrives, nothing received completely is lost at the end
  of the connection, and \<open>Stop\<close> ends the thread, except while \<open>recv\<close> blocks. A granted time is
  reached by the event loop on its own if the time stamps strictly increase, which those of the
  example's server do, the rest of the simulation settles and no event fails; then the
  grants are also executed in their order, none early and none skipped, which is the refinement of
  the lock-step machine. With repeated time stamps the event loop can be held before a granted time until another
  message arrives. For single
  functions: the result on every branch, errors included, and the round trips of the protocol. For the
  application: it refines its specification, keeps the packet interval between two cancellations,
  sends nothing after a stop until the next request, has a socket only for compatible addresses, and
  goes on with its closed socket after a restart. For the mobility model: what listeners see and what is read back. For the
  example: the bytes that the server sends are what the gateway reads, and however they arrive and
  the threads are interleaved, each update moves the vehicles to where this run of the server has
  them after some number of turns, at the simulation time of that turn. All that the example's gateway sends are single
  well-formed responses of one packet count for each vehicle. In the closed loop every message is
  answered once;
  if the server gets whole responses, the two programs are never more than one message apart, the
  terminate message is sent when all is answered, a server that waits has a message or a response
  under way, no fatal error or exception of the gateway's functions is reachable, and from every
  state of the server's loop there is a way to the end of both programs with every turn answered,
  if the rest of the simulation settles and does not fail; a response that arrives in two parts ends the co-simulation too early.

  Bounds. Loops over data are structural recursions; the split loop and the server's loop have
  termination proofs (the length of the rest, the counter). Fuel appears only in the event loops
  of the example programs (\<open>app_loop\<close>, \<open>mobility_loop\<close>), which ns-3 owns: 100 and 50 events are more
  than the examples execute, as the theorems on them show by the final packets and reports.

  Where the model abstracts. Logging is left out. A critical section of the mutex is one step, and
  so is each event handler of the main thread: the receiving thread and a handler share only the
  queue, under its mutex, the flag \<open>m_state\<close>, and the simulator's thread-safe
  \<open>ScheduleWithContext\<close>, which takes effect between two events. \<open>Connect\<close> is one step too,
  although it starts the thread before its last statement: what the thread schedules until then is
  taken over by the simulator only when the main thread is back in its event loop. Reads of
  \<open>m_state\<close> by the thread are not synchronised in the code; they are taken to be atomic. The
  seconds of a time stamp pass through a \<open>double\<close> in \<open>ns3::Seconds\<close>, which is exact for 32-bit integers. A packet is
  its size.

  Not modelled: the registration of types and trace sources with ns-3 beyond the attributes, how ns-3
  parses command lines (a parameter), log components and the functions that only write to the log, what the
  helper classes of ns-3 do inside and what the network then does (parameters of the model:
  \<open>topology_ops\<close>, \<open>net_ops\<close>, \<open>net_event\<close>), the build files and the documents.
\<close>

end
